(* ===== verification/Go_Prelude.thy ===== *)
theory Go_Prelude
  imports Main "HOL-Library.AList" "HOL-Library.Sublist" "HOL-Library.Word"
    "HOL-Library.Char_ord" "HOL-Library.List_Lexorder"
begin

text \<open>
  What every component of the development shares: the result type that stands for
  Go's \<open>(value, error)\<close> returns together with \<open>panic\<close>, sequences of checks with early
  return, Go maps as association lists, 64-bit wrap-around, and the part of the
  packages \<open>strings\<close> and \<open>strconv\<close> the sources call. Strings are lists of 8-bit
  characters, that is Go's byte strings.
\<close>

named_theorems res_simps \<open>evaluation of results and of sequences of checks\<close>
named_theorems map_simps \<open>reading and writing Go maps\<close>
named_theorems safe_intros \<open>a result that is not a panic\<close>
named_theorems str_simps \<open>evaluation of string functions\<close>

section \<open>Results\<close>

datatype ('e, 'a) res = Ok 'a | Err 'e | Panic string

type_synonym 'e checked = "('e, unit) res"

fun and_then :: "('e, 'a) res \<Rightarrow> ('a \<Rightarrow> ('e, 'b) res) \<Rightarrow> ('e, 'b) res" where
  "and_then (Ok a) f = f a"
| "and_then (Err e) f = Err e"
| "and_then (Panic p) f = Panic p"

fun map_err :: "('e \<Rightarrow> 'f) \<Rightarrow> ('e, 'a) res \<Rightarrow> ('f, 'a) res" where
  "map_err g (Ok a) = Ok a"
| "map_err g (Err e) = Err (g e)"
| "map_err g (Panic p) = Panic p"

fun is_ok :: "('e, 'a) res \<Rightarrow> bool" where
  "is_ok (Ok a) = True"
| "is_ok (Err e) = False"
| "is_ok (Panic p) = False"

fun is_panic :: "('e, 'a) res \<Rightarrow> bool" where
  "is_panic (Ok a) = False"
| "is_panic (Err e) = False"
| "is_panic (Panic p) = True"

text \<open>\<open>if bad { return err }\<close>, \<open>if bad { panic(msg) }\<close>, and a sequence of such
  statements, of which the first that does not fall through decides.\<close>

definition check :: "bool \<Rightarrow> 'e \<Rightarrow> 'e checked" where
  "check bad e = (if bad then Err e else Ok ())"

definition panic_if :: "bool \<Rightarrow> string \<Rightarrow> 'e checked" where
  "panic_if bad msg = (if bad then Panic msg else Ok ())"

fun chain :: "'e checked list \<Rightarrow> 'e checked" where
  "chain [] = Ok ()"
| "chain (Ok u # rs) = chain rs"
| "chain (Err e # rs) = Err e"
| "chain (Panic p # rs) = Panic p"

definition for_each :: "('a \<Rightarrow> 'e checked) \<Rightarrow> 'a list \<Rightarrow> 'e checked" where
  "for_each f xs = chain (map f xs)"

definition when_some :: "'a option \<Rightarrow> ('a \<Rightarrow> 'e checked) \<Rightarrow> 'e checked" where
  "when_some opt f = (case opt of None \<Rightarrow> Ok () | Some x \<Rightarrow> f x)"

text \<open>The result is not a panic, and a returned value satisfies \<open>P\<close>.\<close>

definition ok_with :: "('a \<Rightarrow> bool) \<Rightarrow> ('e, 'a) res \<Rightarrow> bool" where
  "ok_with P r = (case r of Ok a \<Rightarrow> P a | Err e \<Rightarrow> True | Panic p \<Rightarrow> False)"

abbreviation safe :: "('e, 'a) res \<Rightarrow> bool" where
  "safe r \<equiv> ok_with (\<lambda>_. True) r"

section \<open>Go maps\<close>

type_synonym 'v gomap = "(string \<times> 'v) list"

definition mget :: "'v \<Rightarrow> ('k \<times> 'v) list \<Rightarrow> 'k \<Rightarrow> 'v" where
  "mget zero m k = (case map_of m k of None \<Rightarrow> zero | Some v \<Rightarrow> v)"

abbreviation mhas :: "('k \<times> 'v) list \<Rightarrow> 'k \<Rightarrow> bool" where
  "mhas m k \<equiv> map_of m k \<noteq> None"

abbreviation mput :: "'k \<Rightarrow> 'v \<Rightarrow> ('k \<times> 'v) list \<Rightarrow> ('k \<times> 'v) list" where
  "mput \<equiv> AList.update"

abbreviation mdel :: "'k \<Rightarrow> ('k \<times> 'v) list \<Rightarrow> ('k \<times> 'v) list" where
  "mdel \<equiv> AList.delete"

abbreviation mdom :: "('k \<times> 'v) list \<Rightarrow> 'k set" where
  "mdom m \<equiv> fst ` set m"

text \<open>A Go \<open>map[string]bool\<close> is read as the set of keys it sends to true.\<close>

definition bget :: "('k \<times> bool) list \<Rightarrow> 'k \<Rightarrow> bool" where
  "bget m k = mget False m k"

section \<open>Machine integers\<close>

text \<open>Go's \<open>int\<close> and \<open>int64\<close> are 64 bits wide and wrap; \<^term>\<open>wrap64\<close> is the value the
  machine keeps of an exact result.\<close>

definition wrap64 :: "int \<Rightarrow> int" where
  "wrap64 n = (n + 2 ^ 63) mod 2 ^ 64 - 2 ^ 63"

definition int64_ok :: "int \<Rightarrow> bool" where
  "int64_ok n = (- (2 ^ 63) \<le> n \<and> n < 2 ^ 63)"

text \<open>Go's \<open>/\<close> and \<open>%\<close> on integers truncate towards zero.\<close>

definition go_div :: "int \<Rightarrow> int \<Rightarrow> int" where
  "go_div a b = (if (a < 0) = (b < 0) then \<bar>a\<bar> div \<bar>b\<bar> else - (\<bar>a\<bar> div \<bar>b\<bar>))"

definition go_mod :: "int \<Rightarrow> int \<Rightarrow> int" where
  "go_mod a b = a - go_div a b * b"

section \<open>Strings\<close>

fun split_on :: "char \<Rightarrow> string \<Rightarrow> string list" where
  "split_on c [] = [[]]"
| "split_on c (x # xs) =
     (if x = c then [] # split_on c xs
      else (case split_on c xs of [] \<Rightarrow> [[x]] | w # ws \<Rightarrow> (x # w) # ws))"

fun join :: "string \<Rightarrow> string list \<Rightarrow> string" where
  "join sep [] = []"
| "join sep [w] = w"
| "join sep (w # v # ws) = w @ sep @ join sep (v # ws)"

definition has_prefix :: "string \<Rightarrow> string \<Rightarrow> bool" where
  "has_prefix s p = (take (length p) s = p)"

definition has_suffix :: "string \<Rightarrow> string \<Rightarrow> bool" where
  "has_suffix s p = (length p \<le> length s \<and> drop (length s - length p) s = p)"

definition trim_prefix :: "string \<Rightarrow> string \<Rightarrow> string" where
  "trim_prefix s p = (if has_prefix s p then drop (length p) s else s)"

fun index_of :: "string \<Rightarrow> string \<Rightarrow> nat option" where
  "index_of p [] = (if p = [] then Some 0 else None)"
| "index_of p (x # xs) =
     (if has_prefix (x # xs) p then Some 0 else map_option Suc (index_of p xs))"

definition contains_str :: "string \<Rightarrow> string \<Rightarrow> bool" where
  "contains_str s p = (index_of p s \<noteq> None)"

definition to_lower_char :: "char \<Rightarrow> char" where
  "to_lower_char c =
     (if of_char c \<ge> (65::nat) \<and> of_char c \<le> (90::nat)
      then char_of (of_char c + 32 :: nat) else c)"

definition to_lower :: "string \<Rightarrow> string" where
  "to_lower = map to_lower_char"

definition is_space :: "char \<Rightarrow> bool" where
  "is_space c = (let n = (of_char c :: nat) in n = 32 \<or> (9 \<le> n \<and> n \<le> 13))"

definition trim_space :: "string \<Rightarrow> string" where
  "trim_space s = rev (dropWhile is_space (rev (dropWhile is_space s)))"

definition is_digit :: "char \<Rightarrow> bool" where
  "is_digit c = (let n = (of_char c :: nat) in 48 \<le> n \<and> n \<le> 57)"

definition digit_char :: "nat \<Rightarrow> char" where
  "digit_char d = char_of (48 + d)"

fun nat_itoa :: "nat \<Rightarrow> string" where
  "nat_itoa n = (if n < 10 then [digit_char n] else nat_itoa (n div 10) @ [digit_char (n mod 10)])"

declare nat_itoa.simps [simp del]

definition itoa :: "int \<Rightarrow> string" where
  "itoa n = (if n < 0 then CHR ''-'' # nat_itoa (nat (- n)) else nat_itoa (nat n))"

definition digits_val :: "string \<Rightarrow> int" where
  "digits_val s = foldl (\<lambda>acc c. acc * 10 + (of_char c - 48)) 0 s"

text \<open>\<open>strconv.Atoi\<close>: an optional sign, at least one digit and nothing else, within 64 bits.\<close>

definition atoi_digits :: "bool \<Rightarrow> string \<Rightarrow> int option" where
  "atoi_digits neg s =
     (if s = [] \<or> \<not> list_all is_digit s then None
      else let v = (if neg then - digits_val s else digits_val s)
           in if int64_ok v then Some v else None)"

definition atoi :: "string \<Rightarrow> int option" where
  "atoi s =
     (case s of
        [] \<Rightarrow> None
      | c # cs \<Rightarrow>
          if c = CHR ''-'' then atoi_digits True cs
          else if c = CHR ''+'' then atoi_digits False cs
          else atoi_digits False s)"

section \<open>Lemmas on results\<close>

lemma and_then_eq_Ok [res_simps]:
  "and_then r f = Ok b \<longleftrightarrow> (\<exists>a. r = Ok a \<and> f a = Ok b)"
  by (cases r) auto

lemma is_ok_iff [res_simps]: "is_ok r \<longleftrightarrow> (\<exists>a. r = Ok a)"
  by (cases r) auto

lemma check_eq_Ok [simp]: "check bad e = Ok u \<longleftrightarrow> \<not> bad"
  by (simp add: check_def)

lemma check_eq_Err [simp]: "check bad e = Err e' \<longleftrightarrow> bad \<and> e = e'"
  by (simp add: check_def)

lemma check_not_Panic [simp]: "check bad e \<noteq> Panic p"
  by (simp add: check_def)

lemma panic_if_eq_Ok [simp]: "panic_if bad msg = Ok u \<longleftrightarrow> \<not> bad"
  by (simp add: panic_if_def)

lemma panic_if_not_Err [simp]: "panic_if bad msg \<noteq> Err e"
  by (simp add: panic_if_def)

lemma panic_if_eq_Panic [simp]: "panic_if bad msg = Panic p \<longleftrightarrow> bad \<and> msg = p"
  by (simp add: panic_if_def)

lemma chain_eq_Ok [simp]: "chain rs = Ok u \<longleftrightarrow> (\<forall>r \<in> set rs. r = Ok ())"
  by (induction rs rule: chain.induct) auto

lemma chain_append: "chain (rs @ rs') = and_then (chain rs) (\<lambda>_. chain rs')"
  by (induction rs rule: chain.induct) auto

lemma chain_Cons_and_then: "chain (r # rs) = and_then r (\<lambda>_. chain rs)"
  by (cases r) auto

lemma chain_Err_in: "chain rs = Err e \<Longrightarrow> Err e \<in> set rs"
  by (induction rs rule: chain.induct) auto

lemma chain_Panic_in: "chain rs = Panic p \<Longrightarrow> Panic p \<in> set rs"
  by (induction rs rule: chain.induct) auto

lemma for_each_eq_Ok [simp]: "for_each f xs = Ok u \<longleftrightarrow> (\<forall>x \<in> set xs. f x = Ok ())"
  by (simp add: for_each_def)

lemma for_each_Err_in: "for_each f xs = Err e \<Longrightarrow> \<exists>x \<in> set xs. f x = Err e"
  unfolding for_each_def by (auto dest!: chain_Err_in) metis

lemma for_each_code [code]:
  "for_each f [] = Ok ()"
  "for_each f (x # xs) = and_then (f x) (\<lambda>_. for_each f xs)"
  by (simp_all add: for_each_def chain_Cons_and_then)

lemma when_some_eq_Ok [simp]: "when_some opt f = Ok u \<longleftrightarrow> (\<forall>x. opt = Some x \<longrightarrow> f x = Ok ())"
  by (auto simp: when_some_def split: option.splits)

lemma when_some_simps [simp]: "when_some None f = Ok ()" "when_some (Some x) f = f x"
  by (simp_all add: when_some_def)

lemma is_panic_map_err [simp]: "is_panic (map_err g r) = is_panic r"
  by (cases r) auto

lemma map_err_eq_Ok [simp]: "map_err g r = Ok a \<longleftrightarrow> r = Ok a"
  by (cases r) auto

lemma ok_with_simps [simp]: "ok_with P (Ok a) = P a" "ok_with P (Err e)" "\<not> ok_with P (Panic p)"
  by (simp_all add: ok_with_def)

lemma ok_with_and_then:
  "ok_with P r \<Longrightarrow> (\<And>a. P a \<Longrightarrow> ok_with Q (f a)) \<Longrightarrow> ok_with Q (and_then r f)"
  by (cases r) auto

lemma ok_with_map_err [simp]: "ok_with P (map_err g r) = ok_with P r"
  by (cases r) auto

lemma ok_withD: "ok_with P r \<Longrightarrow> r = Ok a \<Longrightarrow> P a" "ok_with P r \<Longrightarrow> \<not> is_panic r"
  by (cases r; simp)+

lemma ok_with_conv: "ok_with P r \<longleftrightarrow> \<not> is_panic r \<and> (\<forall>a. r = Ok a \<longrightarrow> P a)"
  by (cases r) auto

lemma safe_iff: "safe r \<longleftrightarrow> \<not> is_panic r"
  by (cases r) auto

lemma ok_with_weaken: "ok_with P r \<Longrightarrow> (\<And>a. P a \<Longrightarrow> Q a) \<Longrightarrow> ok_with Q r"
  by (cases r) auto

lemma ok_with_and_then_safe:
  "safe r \<Longrightarrow> (\<And>a. r = Ok a \<Longrightarrow> ok_with Q (f a)) \<Longrightarrow> ok_with Q (and_then r f)"
  by (cases r) auto

lemma safe_and_then [safe_intros]:
  "safe r \<Longrightarrow> (\<And>a. r = Ok a \<Longrightarrow> safe (f a)) \<Longrightarrow> safe (and_then r f)"
  by (cases r) auto

lemma safe_check [simp, safe_intros]: "safe (check bad e)"
  by (simp add: check_def)

lemma safe_chain_list: "list_all safe rs \<Longrightarrow> safe (chain rs)"
  by (induction rs rule: chain.induct) auto

lemma safe_chain [safe_intros]: "(\<And>r. r \<in> set rs \<Longrightarrow> safe r) \<Longrightarrow> safe (chain rs)"
  by (rule safe_chain_list) (simp add: list_all_iff)

lemma safe_for_each [safe_intros]: "(\<And>x. x \<in> set xs \<Longrightarrow> safe (f x)) \<Longrightarrow> safe (for_each f xs)"
  unfolding for_each_def by (rule safe_chain) auto

lemma safe_when_some [safe_intros]: "(\<And>x. opt = Some x \<Longrightarrow> safe (f x)) \<Longrightarrow> safe (when_some opt f)"
  by (cases opt) auto

lemma safe_if [safe_intros]: "(b \<Longrightarrow> safe r) \<Longrightarrow> (\<not> b \<Longrightarrow> safe r') \<Longrightarrow> safe (if b then r else r')"
  by simp

lemma safe_Ok [safe_intros]: "safe (Ok a)" and safe_Err [safe_intros]: "safe (Err e)"
  by simp_all

lemma safe_map_err [safe_intros]: "safe r \<Longrightarrow> safe (map_err g r)"
  by simp

section \<open>Lemmas on maps\<close>

lemma mget_update [map_simps]: "mget d (mput k v m) j = (if j = k then v else mget d m j)"
  by (simp add: mget_def update_conv')

lemma mget_Nil [map_simps]: "mget d [] k = d"
  by (simp add: mget_def)

lemma mget_Cons [map_simps]: "mget d ((k, v) # m) j = (if j = k then v else mget d m j)"
  by (simp add: mget_def)

lemma mget_absent [map_simps]: "k \<notin> mdom m \<Longrightarrow> mget d m k = d"
  by (simp add: mget_def map_of_eq_None_iff [THEN iffD2])

lemma mhas_iff [map_simps]: "mhas m k \<longleftrightarrow> k \<in> mdom m"
  by (simp add: map_of_eq_None_iff)

lemma mdom_update [map_simps]: "mdom (mput k v m) = insert k (mdom m)"
  by (simp add: dom_update)

lemma distinct_mput: "distinct (map fst m) \<Longrightarrow> distinct (map fst (mput k v m))"
  by (rule distinct_update)

lemma bget_iff: "bget m k \<longleftrightarrow> map_of m k = Some True"
  by (auto simp: bget_def mget_def split: option.splits)

lemma bget_update [map_simps]: "bget (mput k v m) j = (if j = k then v else bget m j)"
  by (simp add: bget_def mget_update)

lemma bget_Nil [map_simps]: "\<not> bget [] k"
  by (simp add: bget_def mget_Nil)

lemma bget_Cons [map_simps]: "bget ((k, v) # m) j = (if j = k then v else bget m j)"
  by (simp add: bget_def mget_Cons)

lemma bget_dom: "bget m k \<Longrightarrow> k \<in> mdom m"
  by (auto simp: bget_iff dest!: map_of_SomeD intro: rev_image_eqI)

section \<open>Lemmas on integers and strings\<close>

lemma wrap64_id: "int64_ok n \<Longrightarrow> wrap64 n = n"
  by (simp add: wrap64_def int64_ok_def)

lemma wrap64_bounds: "int64_ok (wrap64 n)"
proof -
  have "0 \<le> (n + 2 ^ 63) mod 2 ^ 64" "(n + 2 ^ 63) mod 2 ^ 64 < (2 ^ 64 :: int)" by simp_all
  then show ?thesis by (simp add: wrap64_def int64_ok_def)
qed

lemma wrap64_word: "wrap64 n = sint (word_of_int n :: 64 word)"
  by (simp add: wrap64_def signed_take_bit_eq_take_bit_shift sint_sbintrunc' take_bit_eq_mod)

lemma split_on_ne: "split_on c s \<noteq> []"
  by (induction s) (auto split: list.splits)

lemma join_split: "join [c] (split_on c s) = s"
proof (induction s)
  case (Cons x s)
  obtain w ws where eq: "split_on c s = w # ws" using split_on_ne by (cases "split_on c s") auto
  show ?case using Cons by (cases ws) (auto simp: eq)
qed simp

end
