(* ===== verification/Go_Json.thy ===== *)
theory Go_Json
  imports Go_Prelude Complex_Main
begin

text \<open>
  JSON as the sources see it through \<open>encoding/json\<close>: documents (\<open>json\<close>), the bytes of a
  \<open>json.RawMessage\<close> or \<open>[]byte\<close> field (\<open>raw\<close>), the Go values an \<open>any\<close> holds (\<open>any\<close>), the
  decoding of a document into an \<open>any\<close>, its encoding, and the decoding of a struct field by
  field. The text syntax of JSON is not modelled: bytes are either a document or not.
\<close>

named_theorems json_simps \<open>decoding and encoding of JSON values\<close>

text \<open>A document. \<open>JInt\<close> is a number literal without fraction and exponent; \<open>JReal\<close> is one
  with a fraction or an exponent, given by the float64 it denotes.\<close>

datatype json =
    JNull
  | JBool bool
  | JInt int
  | JReal rat
  | JStr string
  | JArr "json list"
  | JObj "(string \<times> json) list"

text \<open>The bytes of a raw field: nil, bytes that are not a JSON text (the empty non-nil slice
  is one), or a JSON text.\<close>

datatype raw = RNil | RBad string | RJson json

text \<open>The dynamic values of Go's \<open>any\<close> that occur in the sources.\<close>

datatype any =
    ANil
  | ABool bool
  | AFloat rat
  | AInt int
  | AInt64 int
  | AStr string
  | AArr "any list"
  | AMap "(string \<times> any) list"

section \<open>Numbers\<close>

text \<open>The float64 nearest to an integer: exact below \<open>2^53\<close>, above it the 53 leading bits with
  ties to even. (Integers of 64 bits never overflow a float64.)\<close>

fun bit_len_rec :: "nat \<Rightarrow> nat" where
  "bit_len_rec n = (if n = 0 then 0 else Suc (bit_len_rec (n div 2)))"

declare bit_len_rec.simps [simp del]

definition round_half_even :: "nat \<Rightarrow> nat \<Rightarrow> nat" where
  "round_half_even n d =
     (let q = n div d; r = n mod d in
      if 2 * r < d then q else if 2 * r > d then q + 1 else if even q then q else q + 1)"

definition nat_to_float :: "nat \<Rightarrow> nat" where
  "nat_to_float n =
     (if n < 2 ^ 53 then n
      else let d = 2 ^ (bit_len_rec n - 53) in round_half_even n d * d)"

definition int_to_float :: "int \<Rightarrow> rat" where
  "int_to_float n =
     (if n < 0 then - of_nat (nat_to_float (nat (- n))) else of_nat (nat_to_float (nat n)))"

section \<open>Decoding and encoding\<close>

text \<open>Of two members with one name the later wins; a map is written with its keys sorted.\<close>

fun any_of_json :: "json \<Rightarrow> any" where
  "any_of_json JNull = ANil"
| "any_of_json (JBool b) = ABool b"
| "any_of_json (JInt n) = AFloat (int_to_float n)"
| "any_of_json (JReal q) = AFloat q"
| "any_of_json (JStr s) = AStr s"
| "any_of_json (JArr xs) = AArr (map any_of_json xs)"
| "any_of_json (JObj kvs) =
     AMap (AList.clearjunk (rev (map (\<lambda>kv. (fst kv, any_of_json (snd kv))) kvs)))"

definition float_to_json :: "rat \<Rightarrow> json" where
  "float_to_json q =
     (if snd (quotient_of q) = 1 \<and> \<bar>q\<bar> < 10 ^ 21 then JInt (fst (quotient_of q)) else JReal q)"

fun json_of_any :: "any \<Rightarrow> json" where
  "json_of_any ANil = JNull"
| "json_of_any (ABool b) = JBool b"
| "json_of_any (AFloat q) = float_to_json q"
| "json_of_any (AInt n) = JInt n"
| "json_of_any (AInt64 n) = JInt n"
| "json_of_any (AStr s) = JStr s"
| "json_of_any (AArr xs) = JArr (map json_of_any xs)"
| "json_of_any (AMap kvs) = JObj (sort_key fst (map (\<lambda>kv. (fst kv, json_of_any (snd kv))) kvs))"

text \<open>\<open>len(raw) == 0\<close> and \<open>json.Unmarshal(raw, &v)\<close> for \<open>v any\<close>: None is its error.\<close>

definition raw_empty :: "raw \<Rightarrow> bool" where
  "raw_empty r = (r = RNil \<or> r = RBad [])"

definition unmarshal_any :: "raw \<Rightarrow> any option" where
  "unmarshal_any r = (case r of RJson j \<Rightarrow> Some (any_of_json j) | _ \<Rightarrow> None)"

text \<open>\<open>json.Unmarshal(raw, &m)\<close> for \<open>m map[string]any\<close>: null leaves the map nil, anything else
  than an object is an error.\<close>

definition unmarshal_object :: "raw \<Rightarrow> (string \<times> any) list option" where
  "unmarshal_object r =
     (case r of
        RJson (JObj kvs) \<Rightarrow>
          Some (AList.clearjunk (rev (map (\<lambda>kv. (fst kv, any_of_json (snd kv))) kvs)))
      | RJson JNull \<Rightarrow> Some []
      | _ \<Rightarrow> None)"

section \<open>Struct fields\<close>

text \<open>A decoder of one field type: the value before, the document found at the field's name,
  the value after (None: the document has the wrong type).\<close>

type_synonym 'a decoder = "'a \<Rightarrow> json \<Rightarrow> 'a option"

definition dec_int :: "int decoder" where
  "dec_int old j =
     (case j of JNull \<Rightarrow> Some old | JInt n \<Rightarrow> (if int64_ok n then Some n else None) | _ \<Rightarrow> None)"

definition dec_str :: "string decoder" where
  "dec_str old j = (case j of JNull \<Rightarrow> Some old | JStr s \<Rightarrow> Some s | _ \<Rightarrow> None)"

definition dec_bool :: "bool decoder" where
  "dec_bool old j = (case j of JNull \<Rightarrow> Some old | JBool b \<Rightarrow> Some b | _ \<Rightarrow> None)"

definition dec_raw :: "raw decoder" where
  "dec_raw old j = Some (RJson j)"

definition dec_any :: "any decoder" where
  "dec_any old j = Some (any_of_json j)"

text \<open>Struct decoding walks the object's members in order; a member belongs to the field whose
  name it equals up to letter case, so the last one wins. An error of one member is remembered
  and the whole decoding fails.\<close>

definition dec_field :: "string \<Rightarrow> 'a decoder \<Rightarrow> 'a \<Rightarrow> (string \<times> json) list \<Rightarrow> 'a option" where
  "dec_field name dec zero kvs =
     fold (\<lambda>kv acc. if to_lower (fst kv) = to_lower name
                    then (case acc of None \<Rightarrow> None | Some v \<Rightarrow> dec v (snd kv)) else acc)
          kvs (Some zero)"

section \<open>Lemmas\<close>

lemma unmarshal_any_RJson [json_simps]: "unmarshal_any (RJson j) = Some (any_of_json j)"
  by (simp add: unmarshal_any_def)

lemma unmarshal_any_iff: "unmarshal_any r = Some v \<longleftrightarrow> (\<exists>j. r = RJson j \<and> v = any_of_json j)"
  by (auto simp: unmarshal_any_def split: raw.splits)

lemma dec_field_Nil [json_simps]: "dec_field name dec zero [] = Some zero"
  by (simp add: dec_field_def)

lemma dec_field_absent:
  "(\<forall>kv \<in> set kvs. to_lower (fst kv) \<noteq> to_lower name) \<Longrightarrow> dec_field name dec zero kvs = Some zero"
  unfolding dec_field_def by (induction kvs) auto

lemma int_to_float_small: "\<bar>n\<bar> < 2 ^ 53 \<Longrightarrow> int_to_float n = of_int n"
  by (cases "n < 0") (auto simp: int_to_float_def nat_to_float_def)

end
