(* ===== verification/Dag_Types.thy ===== *)
theory Dag_Types
  imports Go_Json
begin

text \<open>
  The data of package \<open>dag\<close> (src/dag/types.go and the small types beside it): step types, run
  and step statuses with their JSON names, the immutable definitions \<open>StepDef\<close> and
  \<open>WorkflowDef\<close>, the mutable \<open>StepState\<close> and \<open>WorkflowRun\<close>, and the constructor of a run.
  A \<open>time.Time\<close> is its distance from the zero time in nanoseconds, a \<open>time.Duration\<close> a number
  of nanoseconds; pointers to immutable values are options. Record fields carry the struct's
  short name as a prefix.
\<close>

type_synonym gotime = int
type_synonym duration = int

abbreviation Millisecond :: duration where "Millisecond \<equiv> 1000000"
abbreviation Second :: duration where "Second \<equiv> 1000000000"
abbreviation Minute :: duration where "Minute \<equiv> 60 * Second"
abbreviation Hour :: duration where "Hour \<equiv> 3600 * Second"

section \<open>Enumerations and their JSON names\<close>

datatype StepType =
    StepTypeNormal | StepTypeAgentLoop | StepTypeSubWorkflow | StepTypeAgent | StepTypeMap
  | StepTypeSleep | StepTypeWaitForEvent | StepTypeApproval | StepTypePlanner | StepTypeRespond

datatype RunStatus =
    RunStatusPending | RunStatusRunning | RunStatusCompleted | RunStatusFailed
  | RunStatusCancelled | RunStatusCompensated | RunStatusCompensateFailed

datatype StepStatus =
    StepStatusPending | StepStatusQueued | StepStatusRunning | StepStatusCompleted
  | StepStatusFailed | StepStatusSkipped | StepStatusCancelled | StepStatusRecovered

datatype RetryStrategy = RetryFixed | RetryLinear | RetryExponential

text \<open>The constants in the order of their \<open>iota\<close>, so that a position is the integer value.\<close>

definition stepTypes :: "StepType list" where
  "stepTypes = [StepTypeNormal, StepTypeAgentLoop, StepTypeSubWorkflow, StepTypeAgent, StepTypeMap,
     StepTypeSleep, StepTypeWaitForEvent, StepTypeApproval, StepTypePlanner, StepTypeRespond]"

definition runStatuses :: "RunStatus list" where
  "runStatuses = [RunStatusPending, RunStatusRunning, RunStatusCompleted, RunStatusFailed,
     RunStatusCancelled, RunStatusCompensated, RunStatusCompensateFailed]"

definition stepStatuses :: "StepStatus list" where
  "stepStatuses = [StepStatusPending, StepStatusQueued, StepStatusRunning, StepStatusCompleted,
     StepStatusFailed, StepStatusSkipped, StepStatusCancelled, StepStatusRecovered]"

definition retryStrategies :: "RetryStrategy list" where
  "retryStrategies = [RetryFixed, RetryLinear, RetryExponential]"

definition stepTypeStrings :: "string list" where
  "stepTypeStrings = [''normal'', ''agent_loop'', ''sub_workflow'', ''agent'', ''map'', ''sleep'',
     ''wait_for_event'', ''approval'', ''planner'', ''respond'']"

definition runStatusStrings :: "string list" where
  "runStatusStrings = [''pending'', ''running'', ''completed'', ''failed'', ''cancelled'',
     ''compensated'', ''compensate_failed'']"

definition stepStatusStrings :: "string list" where
  "stepStatusStrings = [''pending'', ''queued'', ''running'', ''completed'', ''failed'',
     ''skipped'', ''cancelled'', ''recovered'']"

definition retryStrategyStrings :: "string list" where
  "retryStrategyStrings = [''fixed'', ''linear'', ''exponential'']"

datatype enum_error = UnknownName string | NotAString

text \<open>\<open>names[v]\<close> for the value at position \<open>v\<close>, and the search loop of \<open>UnmarshalJSON\<close> over the
  table, which stops at the first equal name.\<close>

fun enum_name :: "'a list \<Rightarrow> string list \<Rightarrow> 'a \<Rightarrow> (enum_error, string) res" where
  "enum_name (v # vs) (n # ns) x = (if x = v then Ok n else enum_name vs ns x)"
| "enum_name vs ns x = Panic ''String''"

fun enum_search :: "'a list \<Rightarrow> string list \<Rightarrow> string \<Rightarrow> 'a option" where
  "enum_search (v # vs) (n # ns) str = (if n = str then Some v else enum_search vs ns str)"
| "enum_search vs ns str = None"

definition enum_unmarshal :: "'a list \<Rightarrow> string list \<Rightarrow> json \<Rightarrow> (enum_error, 'a) res" where
  "enum_unmarshal vs ns j =
     (case dec_str [] j of
        None \<Rightarrow> Err NotAString
      | Some str \<Rightarrow> (case enum_search vs ns str of Some v \<Rightarrow> Ok v | None \<Rightarrow> Err (UnknownName str)))"

definition StepType_String :: "StepType \<Rightarrow> (enum_error, string) res" where
  "StepType_String = enum_name stepTypes stepTypeStrings"

definition RunStatus_String :: "RunStatus \<Rightarrow> (enum_error, string) res" where
  "RunStatus_String = enum_name runStatuses runStatusStrings"

definition StepStatus_String :: "StepStatus \<Rightarrow> (enum_error, string) res" where
  "StepStatus_String = enum_name stepStatuses stepStatusStrings"

definition RetryStrategy_String :: "RetryStrategy \<Rightarrow> (enum_error, string) res" where
  "RetryStrategy_String = enum_name retryStrategies retryStrategyStrings"

definition StepType_UnmarshalJSON :: "json \<Rightarrow> (enum_error, StepType) res" where
  "StepType_UnmarshalJSON = enum_unmarshal stepTypes stepTypeStrings"

definition RunStatus_UnmarshalJSON :: "json \<Rightarrow> (enum_error, RunStatus) res" where
  "RunStatus_UnmarshalJSON = enum_unmarshal runStatuses runStatusStrings"

definition StepStatus_UnmarshalJSON :: "json \<Rightarrow> (enum_error, StepStatus) res" where
  "StepStatus_UnmarshalJSON = enum_unmarshal stepStatuses stepStatusStrings"

definition RetryStrategy_UnmarshalJSON :: "json \<Rightarrow> (enum_error, RetryStrategy) res" where
  "RetryStrategy_UnmarshalJSON = enum_unmarshal retryStrategies retryStrategyStrings"

fun IsTerminal :: "RunStatus \<Rightarrow> bool" where
  "IsTerminal RunStatusCompleted = True"
| "IsTerminal RunStatusFailed = True"
| "IsTerminal RunStatusCancelled = True"
| "IsTerminal RunStatusCompensated = True"
| "IsTerminal RunStatusCompensateFailed = True"
| "IsTerminal RunStatusPending = False"
| "IsTerminal RunStatusRunning = False"

definition RunStatusNames :: "string list" where
  "RunStatusNames = runStatusStrings"

definition ParseRunStatus :: "string \<Rightarrow> (enum_error, RunStatus) res" where
  "ParseRunStatus s =
     (if runStatusStrings = [] then Panic ''ParseRunStatus''
      else let lc = to_lower (trim_space s) in
           case enum_search runStatuses runStatusStrings lc of
             Some v \<Rightarrow> Ok v
           | None \<Rightarrow> Err (UnknownName s))"

section \<open>Definitions\<close>

record ParentCond =
  pc_StepID :: string
  pc_Field :: string
  pc_Op :: string
  pc_Value :: any

record RetryPolicy =
  rp_MaxAttempts :: int
  rp_Strategy :: RetryStrategy
  rp_InitialDelay :: duration
  rp_MaxDelay :: duration
  rp_Multiplier :: rat

record RateLimit =
  rl_Limit :: int
  rl_Period :: duration

record KeyedRateLimit =
  kl_Key :: string
  kl_Limit :: int
  kl_Period :: duration
  kl_Units :: int

record PriorityConfig =
  pr_Key :: string
  pr_Rules :: "int gomap"
  pr_DefaultOffset :: int

record Match =
  mt_Left :: string
  mt_Op :: string
  mt_Right :: string

record CancelOn =
  co_Event :: string
  co_Match :: Match
  co_Timeout :: duration

record ConcurrencyLimit =
  cl_MaxRuns :: int
  cl_MaxSteps :: int

record SingletonConfig =
  sg_Mode :: string
  sg_Key :: string

record StepDef =
  sd_ID :: string
  sd_Task :: string
  sd_DependsOn :: "string list"
  sd_Retries :: int
  sd_Timeout :: duration
  sd_Type :: StepType
  sd_Config :: raw
  sd_SkipIf :: "ParentCond option"
  sd_Metadata :: "string gomap"
  sd_Retry :: "RetryPolicy option"
  sd_WorkerGroup :: string
  sd_OnFailure :: string
  sd_Compensate :: string
  sd_RateLimit :: "RateLimit option"
  sd_KeyedRateLimit :: "KeyedRateLimit option"
  sd_MaxTaskConcurrency :: int
  sd_Singleton :: bool
  sd_RequiredCapabilities :: "string list"

record WorkflowDef =
  wd_Name :: string
  wd_Version :: string
  wd_Steps :: "StepDef list"
  wd_DefaultRetry :: "RetryPolicy option"
  wd_Concurrency :: "ConcurrencyLimit option"
  wd_Timeout :: duration
  wd_InputSchema :: raw
  wd_OutputSchema :: raw
  wd_AuxSteps :: "bool gomap"
  wd_IdempotencyKey :: string
  wd_Sticky :: string
  wd_Priority :: "PriorityConfig option"
  wd_CancelOn :: "CancelOn list"
  wd_Singleton :: "SingletonConfig option"

section \<open>Runs\<close>

record MapInstanceState =
  mi_Status :: StepStatus
  mi_Output :: raw
  mi_Error :: string

record StepState =
  ss_Status :: StepStatus
  ss_Attempts :: int
  ss_Iterations :: int
  ss_LoopStartedAt :: gotime
  ss_Output :: raw
  ss_Error :: string
  ss_MapInstances :: "MapInstanceState list"
  ss_WakeAt :: "gotime option"
  ss_ChildRunID :: string
  ss_DispatchNonce :: string
  ss_StartedAt :: "gotime option"
  ss_CompletedAt :: "gotime option"
  ss_AttemptStartedAt :: "gotime option"
  ss_RetryDispatchAt :: "gotime option"
  ss_DispatchUnsent :: bool
  ss_LoopState :: raw
  ss_WaitUntil :: "gotime option"
  ss_WaitInput :: bool
  ss_HasInputs :: bool

record WorkflowRun =
  wr_RunID :: string
  wr_WorkflowID :: string
  wr_Status :: RunStatus
  wr_Steps :: "StepState gomap"
  wr_Input :: raw
  wr_CreatedAt :: gotime
  wr_DynamicSteps :: "StepDef list"
  wr_ParentRunID :: string
  wr_RootRunID :: string
  wr_ParentStepID :: string
  wr_Deadline :: "gotime option"
  wr_PriorityOffset :: int
  wr_SingletonKey :: string
  wr_TraceParent :: string
  wr_CompletedAt :: "gotime option"
  wr_Labels :: "string gomap"
  wr_TriggerDepth :: int
  wr_ReleasePending :: bool
  wr_ReleaseAttempts :: int
  wr_DefHash :: string
  wr_Revision :: "nat option"

text \<open>The zero values of the structs, which Go yields for a missing map key and for fields a
  composite literal leaves out.\<close>

definition zero_MapInstanceState :: MapInstanceState where
  "zero_MapInstanceState = \<lparr>mi_Status = StepStatusPending, mi_Output = RNil, mi_Error = []\<rparr>"

definition zero_StepState :: StepState where
  "zero_StepState = \<lparr>ss_Status = StepStatusPending, ss_Attempts = 0, ss_Iterations = 0,
     ss_LoopStartedAt = 0, ss_Output = RNil, ss_Error = [], ss_MapInstances = [], ss_WakeAt = None,
     ss_ChildRunID = [], ss_DispatchNonce = [], ss_StartedAt = None, ss_CompletedAt = None,
     ss_AttemptStartedAt = None, ss_RetryDispatchAt = None, ss_DispatchUnsent = False,
     ss_LoopState = RNil, ss_WaitUntil = None, ss_WaitInput = False, ss_HasInputs = False\<rparr>"

definition zero_StepDef :: StepDef where
  "zero_StepDef = \<lparr>sd_ID = [], sd_Task = [], sd_DependsOn = [], sd_Retries = 0, sd_Timeout = 0,
     sd_Type = StepTypeNormal, sd_Config = RNil, sd_SkipIf = None, sd_Metadata = [],
     sd_Retry = None, sd_WorkerGroup = [], sd_OnFailure = [], sd_Compensate = [],
     sd_RateLimit = None, sd_KeyedRateLimit = None, sd_MaxTaskConcurrency = 0,
     sd_Singleton = False, sd_RequiredCapabilities = []\<rparr>"

definition zero_WorkflowDef :: WorkflowDef where
  "zero_WorkflowDef = \<lparr>wd_Name = [], wd_Version = [], wd_Steps = [], wd_DefaultRetry = None,
     wd_Concurrency = None, wd_Timeout = 0, wd_InputSchema = RNil, wd_OutputSchema = RNil,
     wd_AuxSteps = [], wd_IdempotencyKey = [], wd_Sticky = [], wd_Priority = None,
     wd_CancelOn = [], wd_Singleton = None\<rparr>"

definition zero_WorkflowRun :: WorkflowRun where
  "zero_WorkflowRun = \<lparr>wr_RunID = [], wr_WorkflowID = [], wr_Status = RunStatusPending,
     wr_Steps = [], wr_Input = RNil, wr_CreatedAt = 0, wr_DynamicSteps = [], wr_ParentRunID = [],
     wr_RootRunID = [], wr_ParentStepID = [], wr_Deadline = None, wr_PriorityOffset = 0,
     wr_SingletonKey = [], wr_TraceParent = [], wr_CompletedAt = None, wr_Labels = [],
     wr_TriggerDepth = 0, wr_ReleasePending = False, wr_ReleaseAttempts = 0, wr_DefHash = [],
     wr_Revision = None\<rparr>"

text \<open>\<open>run.Steps[id]\<close> and \<open>run.Steps[id] = state\<close>.\<close>

abbreviation step_of :: "StepState gomap \<Rightarrow> string \<Rightarrow> StepState" where
  "step_of steps sid \<equiv> mget zero_StepState steps sid"

definition set_step :: "string \<Rightarrow> StepState \<Rightarrow> WorkflowRun \<Rightarrow> WorkflowRun" where
  "set_step sid s run = run\<lparr>wr_Steps := mput sid s (wr_Steps run)\<rparr>"

text \<open>\<open>NewWorkflowRun\<close>: the clock's reading and the digest function are arguments.\<close>

definition NewWorkflowRun ::
    "(WorkflowDef \<Rightarrow> string) \<Rightarrow> gotime \<Rightarrow> WorkflowDef \<Rightarrow> string \<Rightarrow> ('e, WorkflowRun) res" where
  "NewWorkflowRun defHash now def runID =
     (if runID = [] then Panic ''NewWorkflowRun''
      else if wd_Steps def = [] then Panic ''NewWorkflowRun''
      else Ok (zero_WorkflowRun\<lparr>wr_RunID := runID, wr_WorkflowID := wd_Name def,
        wr_Status := RunStatusPending,
        wr_Steps := fold (\<lambda>step m. mput (sd_ID step) (zero_StepState\<lparr>ss_Status := StepStatusPending\<rparr>) m)
                      (wd_Steps def) [],
        wr_CreatedAt := now, wr_DefHash := defHash def\<rparr>))"

definition EffectiveTime :: "WorkflowRun \<Rightarrow> gotime" where
  "EffectiveTime r = wr_CreatedAt r + wrap64 (- wrap64 (wr_PriorityOffset r) * Second)"

section \<open>Name tables\<close>

lemma enum_search_zip: "enum_search vs ns str = Some v \<Longrightarrow> (v, str) \<in> set (zip vs ns)"
  by (induction vs ns str rule: enum_search.induct) (auto split: if_splits)

text \<open>What the four tables of names promise: as many names as values, neither repeated, and
  every value listed.\<close>

locale enum_table =
  fixes vals :: "'a list" and names :: "string list"
  assumes same_length: "length vals = length names"
    and distinct_vals: "distinct vals"
    and distinct_names: "distinct names"
    and all_listed: "x \<in> set vals"
begin

lemma name_at: "i < length vals \<Longrightarrow> enum_name vals names (vals ! i) = Ok (names ! i)"
  using same_length distinct_vals
  by (induction vals names arbitrary: i rule: list_induct2') (auto simp: nth_Cons' nth_mem)

lemma search_at: "i < length vals \<Longrightarrow> enum_search vals names (names ! i) = Some (vals ! i)"
  using same_length distinct_names
  by (induction vals names arbitrary: i rule: list_induct2') (auto simp: nth_Cons' nth_mem)

lemma search_Some: "enum_search vals names str = Some v \<Longrightarrow> enum_name vals names v = Ok str"
  using name_at by (auto dest!: enum_search_zip simp: in_set_zip)

lemma name_total: "\<exists>n. enum_name vals names v = Ok n \<and> n \<in> set names \<and> enum_search vals names n = Some v"
  using all_listed [of v] name_at search_at same_length by (metis in_set_conv_nth)

lemma unmarshal_name: "enum_name vals names v = Ok n \<Longrightarrow> enum_unmarshal vals names (JStr n) = Ok v"
  using name_total [of v] by (auto simp: enum_unmarshal_def dec_str_def)

lemma unmarshal_Ok_iff:
  "enum_unmarshal vals names j = Ok v \<longleftrightarrow> (\<exists>n. dec_str [] j = Some n \<and> enum_name vals names v = Ok n)"
  using name_total [of v] search_Some
  by (auto simp: enum_unmarshal_def split: option.splits)

end

lemmas enum_tables = stepTypes_def runStatuses_def stepStatuses_def retryStrategies_def
  stepTypeStrings_def runStatusStrings_def stepStatusStrings_def retryStrategyStrings_def

interpretation step_type_names: enum_table stepTypes stepTypeStrings
proof (unfold_locales, goal_cases)
  case (4 x) then show ?case by (cases x) (simp_all add: enum_tables)
qed (simp_all add: enum_tables)

interpretation run_status_names: enum_table runStatuses runStatusStrings
proof (unfold_locales, goal_cases)
  case (4 x) then show ?case by (cases x) (simp_all add: enum_tables)
qed (simp_all add: enum_tables)

interpretation step_status_names: enum_table stepStatuses stepStatusStrings
proof (unfold_locales, goal_cases)
  case (4 x) then show ?case by (cases x) (simp_all add: enum_tables)
qed (simp_all add: enum_tables)

interpretation retry_strategy_names: enum_table retryStrategies retryStrategyStrings
proof (unfold_locales, goal_cases)
  case (4 x) then show ?case by (cases x) (simp_all add: enum_tables)
qed (simp_all add: enum_tables)

section \<open>Properties\<close>

text \<open>Every step type, run status, step status and retry strategy has a JSON name, and
  decoding a JSON string yields a value exactly when the string is that value's name, so encoding
  then decoding is the identity and no two values share a name.\<close>

theorem enum_json_names:
  "(\<exists>n. StepType_String t = Ok n) \<and> (\<exists>n. RunStatus_String r = Ok n)
   \<and> (\<exists>n. StepStatus_String s = Ok n) \<and> (\<exists>n. RetryStrategy_String y = Ok n)
   \<and> (StepType_UnmarshalJSON (JStr a) = Ok t \<longleftrightarrow> StepType_String t = Ok a)
   \<and> (RunStatus_UnmarshalJSON (JStr a) = Ok r \<longleftrightarrow> RunStatus_String r = Ok a)
   \<and> (StepStatus_UnmarshalJSON (JStr a) = Ok s \<longleftrightarrow> StepStatus_String s = Ok a)
   \<and> (RetryStrategy_UnmarshalJSON (JStr a) = Ok y \<longleftrightarrow> RetryStrategy_String y = Ok a)"
  unfolding StepType_String_def RunStatus_String_def StepStatus_String_def RetryStrategy_String_def
    StepType_UnmarshalJSON_def RunStatus_UnmarshalJSON_def StepStatus_UnmarshalJSON_def
    RetryStrategy_UnmarshalJSON_def
    step_type_names.unmarshal_Ok_iff run_status_names.unmarshal_Ok_iff
    step_status_names.unmarshal_Ok_iff retry_strategy_names.unmarshal_Ok_iff
  using step_type_names.name_total [of t] run_status_names.name_total [of r]
    step_status_names.name_total [of s] retry_strategy_names.name_total [of y]
  by (auto simp: dec_str_def)

text \<open>An operator-supplied status is accepted exactly when, without surrounding white space
  and in lower case, it is the name of a run status, and that status is the result; the table is
  never empty, so the search never panics.\<close>

theorem ParseRunStatus_spec:
  "(ParseRunStatus text = Ok st \<longleftrightarrow> RunStatus_String st = Ok (to_lower (trim_space text)))
   \<and> \<not> is_panic (ParseRunStatus text)"
  unfolding ParseRunStatus_def RunStatus_String_def Let_def
  using run_status_names.name_total [of st] run_status_names.search_Some
  by (auto simp: runStatusStrings_def split: option.splits)

end
