(* ===== verification/Dag_Conditions.thy ===== *)
theory Dag_Conditions
  imports Dag_Types
begin

text \<open>
  Conditions over JSON data: the skip conditions of src/dag/condition.go, dot paths into a
  document (src/dag/dotpath.go), event matching (src/dag/waitforevent.go), and priorities read
  from the run input (src/dag/priority.go).
\<close>

section \<open>Skip conditions\<close>

definition validOps :: "bool gomap" where
  "validOps = [(''=='', True), (''!='', True), (''<'', True), (''>'', True),
     (''<='', True), (''>='', True)]"

text \<open>The operator switch both comparisons share.\<close>

definition compare_op :: "'a::linorder \<Rightarrow> string \<Rightarrow> 'a \<Rightarrow> bool" where
  "compare_op a operator b =
     (if operator = ''=='' then a = b
      else if operator = ''!='' then a \<noteq> b
      else if operator = ''<'' then a < b
      else if operator = ''>'' then a > b
      else if operator = ''<='' then a \<le> b
      else if operator = ''>='' then a \<ge> b
      else False)"

definition compareFloat64 :: "rat \<Rightarrow> string \<Rightarrow> rat \<Rightarrow> bool" where
  "compareFloat64 = compare_op"

definition compareString :: "string \<Rightarrow> string \<Rightarrow> string \<Rightarrow> bool" where
  "compareString = compare_op"

fun toFloat64 :: "any \<Rightarrow> rat option" where
  "toFloat64 (AFloat q) = Some q"
| "toFloat64 (AInt n) = Some (int_to_float n)"
| "toFloat64 (AInt64 n) = Some (int_to_float n)"
| "toFloat64 v = None"

definition compareValues :: "any \<Rightarrow> string \<Rightarrow> any \<Rightarrow> bool" where
  "compareValues a operator b =
     (case (toFloat64 a, toFloat64 b) of
        (Some x, Some y) \<Rightarrow> compareFloat64 x operator y
      | _ \<Rightarrow>
        (case (a, b) of
           (AStr x, AStr y) \<Rightarrow> compareString x operator y
         | (ABool x, ABool y) \<Rightarrow>
             if operator = ''=='' then x = y else if operator = ''!='' then x \<noteq> y else False
         | _ \<Rightarrow> False))"

definition Evaluate :: "ParentCond option \<Rightarrow> StepState gomap \<Rightarrow> bool" where
  "Evaluate cond steps =
     (case cond of
        None \<Rightarrow> False
      | Some c \<Rightarrow>
        (case map_of steps (pc_StepID c) of
           None \<Rightarrow> False
         | Some state \<Rightarrow>
           if ss_Output state = RNil then False
           else
             (case unmarshal_object (ss_Output state) of
                None \<Rightarrow> False
              | Some data \<Rightarrow>
                (case map_of data (pc_Field c) of
                   None \<Rightarrow> False
                 | Some fieldVal \<Rightarrow> compareValues fieldVal (pc_Op c) (pc_Value c)))))"

section \<open>Dot paths\<close>

datatype path_error =
    EmptyData
  | NotJson
  | ExpectedObject string string
  | KeyNotFound string string
  | InvalidStepPath string
  | StepHasNoOutput string
  | ResolveFailed string path_error
  | UnknownPathPrefix string
  | UnknownMatchOp string

fun walk_path :: "string \<Rightarrow> string list \<Rightarrow> any \<Rightarrow> (path_error, any) res" where
  "walk_path path [] current = Ok current"
| "walk_path path (part # parts) current =
     (case current of
        AMap obj \<Rightarrow>
          (case map_of obj part of
             None \<Rightarrow> Err (KeyNotFound path part)
           | Some v \<Rightarrow> walk_path path parts v)
      | _ \<Rightarrow> Err (ExpectedObject path part))"

definition ExtractDotPath :: "string \<Rightarrow> raw \<Rightarrow> (path_error, any) res" where
  "ExtractDotPath path data =
     (if path = [] then Panic ''ExtractDotPath''
      else if data = RNil then Panic ''ExtractDotPath''
      else if raw_empty data then Err EmptyData
      else
        (case unmarshal_any data of
           None \<Rightarrow> Err NotJson
         | Some current \<Rightarrow> walk_path path (split_on (CHR ''.'') path) current))"

section \<open>Event matching\<close>

text \<open>\<open>fmt.Sprintf("%v", v)\<close>. The shortest decimal form of a float64 that is not a moderate
  integer is left to the argument \<open>ffmt\<close>.\<close>

definition sprint_float :: "(rat \<Rightarrow> string) \<Rightarrow> rat \<Rightarrow> string" where
  "sprint_float ffmt q =
     (if snd (quotient_of q) = 1 \<and> \<bar>q\<bar> < 10 ^ 6 then itoa (fst (quotient_of q)) else ffmt q)"

fun sprintv :: "(rat \<Rightarrow> string) \<Rightarrow> any \<Rightarrow> string" where
  "sprintv ffmt ANil = ''<nil>''"
| "sprintv ffmt (ABool b) = (if b then ''true'' else ''false'')"
| "sprintv ffmt (AFloat q) = sprint_float ffmt q"
| "sprintv ffmt (AInt n) = itoa n"
| "sprintv ffmt (AInt64 n) = itoa n"
| "sprintv ffmt (AStr s) = s"
| "sprintv ffmt (AArr xs) = ''['' @ join '' '' (map (sprintv ffmt) xs) @ '']''"
| "sprintv ffmt (AMap kvs) =
     ''map['' @ join '' '' (map (\<lambda>kv. fst kv @ '':'' @ snd kv)
       (sort_key fst (map (\<lambda>kv. (fst kv, sprintv ffmt (snd kv))) kvs))) @ '']''"

record ResolvedMatch =
  rm_Left :: string
  rm_Op :: string
  rm_Right :: any

definition ResolvedMatch_Evaluate ::
    "(rat \<Rightarrow> string) \<Rightarrow> ResolvedMatch \<Rightarrow> raw \<Rightarrow> (path_error, bool) res" where
  "ResolvedMatch_Evaluate ffmt m eventData =
     (if rm_Left m = [] then Panic ''ResolvedMatch.Evaluate''
      else if rm_Op m = [] then Panic ''ResolvedMatch.Evaluate''
      else
        (case ExtractDotPath (rm_Left m) eventData of
           Panic p \<Rightarrow> Panic p
         | Err e \<Rightarrow> Ok False
         | Ok leftVal \<Rightarrow>
             if rm_Op m = ''eq'' then Ok (sprintv ffmt leftVal = sprintv ffmt (rm_Right m))
             else Err (UnknownMatchOp (rm_Op m))))"

text \<open>\<open>strings.SplitN(path, sep, n)\<close>: at most \<open>n\<close> parts, the last one unsplit.\<close>

fun split_n :: "nat \<Rightarrow> char \<Rightarrow> string \<Rightarrow> string list" where
  "split_n 0 c s = []"
| "split_n (Suc 0) c s = [s]"
| "split_n (Suc (Suc n)) c s =
     (let w = takeWhile (\<lambda>x. x \<noteq> c) s; rest = dropWhile (\<lambda>x. x \<noteq> c) s in
      case rest of [] \<Rightarrow> [w] | _ # s' \<Rightarrow> w # split_n (Suc n) c s')"

text \<open>The outputs of the steps; None is a nil map.\<close>

definition resolveStepPath :: "string \<Rightarrow> raw gomap option \<Rightarrow> (path_error, any) res" where
  "resolveStepPath path stepOutputs =
     (if \<not> has_prefix path ''step.'' then Panic ''resolveStepPath''
      else
        (case stepOutputs of
           None \<Rightarrow> Panic ''resolveStepPath''
         | Some outputs \<Rightarrow>
             let parts = split_n 4 (CHR ''.'') path in
             if length parts < 4 then Err (InvalidStepPath path)
             else
               (case map_of outputs (parts ! 1) of
                  None \<Rightarrow> Err (StepHasNoOutput (parts ! 1))
                | Some data \<Rightarrow> map_err (ResolveFailed path) (ExtractDotPath (parts ! 3) data))))"

definition resolveInputPath :: "string \<Rightarrow> raw \<Rightarrow> (path_error, any) res" where
  "resolveInputPath path workflowInput =
     (if \<not> has_prefix path ''input.'' then Panic ''resolveInputPath''
      else if workflowInput = RNil then Panic ''resolveInputPath''
      else map_err (ResolveFailed path) (ExtractDotPath (trim_prefix path ''input.'') workflowInput))"

definition Match_Resolve :: "Match \<Rightarrow> raw gomap option \<Rightarrow> raw \<Rightarrow> (path_error, ResolvedMatch) res" where
  "Match_Resolve m stepOutputs workflowInput =
     (if mt_Right m = [] then Panic ''Match.Resolve''
      else if mt_Left m = [] then Panic ''Match.Resolve''
      else
        and_then
          (if has_prefix (mt_Right m) ''step.'' then resolveStepPath (mt_Right m) stepOutputs
           else if has_prefix (mt_Right m) ''input.'' then resolveInputPath (mt_Right m) workflowInput
           else Err (UnknownPathPrefix (mt_Right m)))
          (\<lambda>val. Ok \<lparr>rm_Left = mt_Left m, rm_Op = mt_Op m, rm_Right = val\<rparr>))"

section \<open>Priorities\<close>

definition clampOffset :: "int \<Rightarrow> int" where
  "clampOffset offset = (if offset > 600 then 600 else if offset < - 600 then - 600 else offset)"

definition ResolvePriority ::
    "(rat \<Rightarrow> string) \<Rightarrow> PriorityConfig option \<Rightarrow> raw \<Rightarrow> (path_error, int) res" where
  "ResolvePriority ffmt pcfg input =
     (case pcfg of
        None \<Rightarrow> Ok 0
      | Some cfg \<Rightarrow>
        if pr_Key cfg = [] then Ok (clampOffset (pr_DefaultOffset cfg))
        else
          (case ExtractDotPath (pr_Key cfg) input of
             Panic p \<Rightarrow> Panic p
           | Err e \<Rightarrow> Ok 0
           | Ok val \<Rightarrow>
             (case map_of (pr_Rules cfg) (sprintv ffmt val) of
                Some offset \<Rightarrow> Ok (clampOffset offset)
              | None \<Rightarrow> Ok (clampOffset (pr_DefaultOffset cfg)))))"

section \<open>Lemmas\<close>

lemma validOps_iff:
  "bget validOps opr \<longleftrightarrow>
     opr = ''=='' \<or> opr = ''!='' \<or> opr = ''<'' \<or> opr = ''>'' \<or> opr = ''<='' \<or> opr = ''>=''"
  unfolding validOps_def bget_Cons by (simp add: bget_Nil)

lemma compare_op_valid: "compare_op a opr b \<Longrightarrow> bget validOps opr"
  unfolding validOps_iff by (rule ccontr) (simp add: compare_op_def)

lemma compareValues_cases:
  assumes "compareValues a opr b"
  obtains (numbers) x y where "toFloat64 a = Some x" "toFloat64 b = Some y" "compare_op x opr y"
    | (strings) x y where "a = AStr x" "b = AStr y" "compare_op x opr y"
    | (booleans) x y where "a = ABool x" "b = ABool y" "opr = ''=='' \<and> x = y \<or> opr = ''!='' \<and> x \<noteq> y"
proof (cases "toFloat64 a = None \<or> toFloat64 b = None")
  case True
  then show ?thesis
    using assms strings booleans
    by (cases a; cases b) (simp_all add: compareValues_def compareString_def split: if_splits)
next
  case False
  then show ?thesis
    using assms numbers by (auto simp: compareValues_def compareFloat64_def)
qed

lemma compareValues_valid: "compareValues a opr b \<Longrightarrow> bget validOps opr"
  by (erule compareValues_cases) (blast intro: compare_op_valid, blast intro: compare_op_valid, auto simp: validOps_iff)

text \<open>The pairs of operators of which at most one holds for given operands.\<close>

definition opposite_ops :: "(string \<times> string) list" where
  "opposite_ops = [(''=='', ''!=''), (''<'', ''>=''), (''>'', ''<='')]"

lemma compare_op_opposite:
  "(p, q) \<in> set opposite_ops \<Longrightarrow> compare_op a p b \<longleftrightarrow> \<not> compare_op a q b"
  unfolding opposite_ops_def by (elim set_ConsD [elim_format] disjE) (simp_all add: compare_op_def not_le not_less)

lemma compareValues_opposite:
  assumes "(p, q) \<in> set opposite_ops" "compareValues a p b"
  shows "\<not> compareValues a q b"
  using assms(2)
proof (cases rule: compareValues_cases)
  case (numbers x y)
  then show ?thesis
    using compare_op_opposite [OF assms(1), of x y] by (simp add: compareValues_def compareFloat64_def)
next
  case (strings x y)
  then show ?thesis
    using compare_op_opposite [OF assms(1), of x y] by (simp add: compareValues_def compareString_def)
next
  case (booleans x y)
  then show ?thesis
    using assms(1) by (auto simp: compareValues_def opposite_ops_def)
qed

lemma EvaluateE:
  assumes "Evaluate (Some c) steps"
  obtains state data v where "map_of steps (pc_StepID c) = Some state"
    "unmarshal_object (ss_Output state) = Some data" "map_of data (pc_Field c) = Some v"
    "compareValues v (pc_Op c) (pc_Value c)"
  using assms by (auto simp: Evaluate_def split: option.splits if_splits)

lemma walk_path_append:
  "walk_path path (ps @ qs) v = and_then (walk_path path ps v) (walk_path path qs)"
  by (induction ps arbitrary: v) (auto split: any.splits option.splits)

text \<open>The document that has one value at a path and nothing else.\<close>

primrec nest :: "string list \<Rightarrow> json \<Rightarrow> json" where
  "nest [] j = j"
| "nest (p # ps) j = JObj [(p, nest ps j)]"

lemma walk_path_nest: "walk_path path ps (any_of_json (nest ps j)) = Ok (any_of_json j)"
  by (induction ps) auto

lemma walk_path_object:
  "walk_path path (p # ps) v = Ok w \<longleftrightarrow> (\<exists>obj u. v = AMap obj \<and> map_of obj p = Some u \<and> walk_path path ps u = Ok w)"
  by (cases v) (auto split: option.splits)

lemma walk_path_safe [safe_intros]: "safe (walk_path path ps v)"
  by (induction ps arbitrary: v) (auto split: any.splits option.splits)

lemma ExtractDotPath_safe [safe_intros]: "path \<noteq> [] \<Longrightarrow> data \<noteq> RNil \<Longrightarrow> safe (ExtractDotPath path data)"
  by (simp add: ExtractDotPath_def walk_path_safe split: option.split)

lemma clampOffset_bounds: "- 600 \<le> clampOffset n \<and> clampOffset n \<le> 600"
  by (simp add: clampOffset_def)

lemma clampOffset_idem: "- 600 \<le> n \<Longrightarrow> n \<le> 600 \<Longrightarrow> clampOffset n = n"
  by (simp add: clampOffset_def)

lemma ResolvePriority_bounds: "ResolvePriority ffmt cfg input = Ok n \<Longrightarrow> - 600 \<le> n \<and> n \<le> 600"
  using clampOffset_bounds by (auto simp: ResolvePriority_def split: option.splits if_splits res.splits)

section \<open>Properties\<close>

text \<open>A skip condition that holds has an operator of the closed set, refers to a step that
  is in the run and whose output is a JSON object with the field, and the condition with the
  opposite operator on the same operands does not hold.\<close>

theorem skip_condition_sound:
  assumes "Evaluate (Some c) steps"
  shows "bget validOps (pc_Op c)
    \<and> (\<exists>state data v. map_of steps (pc_StepID c) = Some state
           \<and> unmarshal_object (ss_Output state) = Some data \<and> map_of data (pc_Field c) = Some v)
    \<and> (\<forall>q. (pc_Op c, q) \<in> set opposite_ops \<longrightarrow> \<not> Evaluate (Some (c\<lparr>pc_Op := q\<rparr>)) steps)"
proof -
  from assms obtain state data v where eq: "map_of steps (pc_StepID c) = Some state"
    "unmarshal_object (ss_Output state) = Some data" "map_of data (pc_Field c) = Some v"
    "compareValues v (pc_Op c) (pc_Value c)" by (rule EvaluateE)
  have "\<not> Evaluate (Some (c\<lparr>pc_Op := q\<rparr>)) steps" if "(pc_Op c, q) \<in> set opposite_ops" for q
    using compareValues_opposite [OF that eq(4)] eq by (auto elim!: EvaluateE)
  then show ?thesis using eq compareValues_valid [OF eq(4)] by blast
qed

theorem skip_condition_sound_witness:
  "let c = \<lparr>pc_StepID = ''a'', pc_Field = ''ok'', pc_Op = ''=='', pc_Value = ABool True\<rparr>;
       steps = [(''a'', zero_StepState\<lparr>ss_Output := RJson (JObj [(''ok'', JBool True)])\<rparr>)]
   in Evaluate (Some c) steps \<and> bget validOps (pc_Op c)
      \<and> \<not> Evaluate (Some (c\<lparr>pc_Op := ''!=''\<rparr>)) steps"
proof -
  have h: "Evaluate (Some \<lparr>pc_StepID = ''a'', pc_Field = ''ok'', pc_Op = ''=='', pc_Value = ABool True\<rparr>)
      [(''a'', zero_StepState\<lparr>ss_Output := RJson (JObj [(''ok'', JBool True)])\<rparr>)]"
    by (simp add: Evaluate_def unmarshal_object_def compareValues_def)
  show ?thesis
    using skip_condition_sound [OF h] h by (simp add: opposite_ops_def)
qed

text \<open>A dot path finds in a document exactly what nested objects named by its parts hold:
  a value put at the path comes back, and extraction of a path decomposes at every dot.\<close>

theorem ExtractDotPath_nested:
  "path \<noteq> [] \<Longrightarrow>
     ExtractDotPath path (RJson (nest (split_on (CHR ''.'') path) j)) = Ok (any_of_json j)
   \<and> (split_on (CHR ''.'') path = ps @ qs \<longrightarrow>
        ExtractDotPath path (RJson d)
          = and_then (walk_path path ps (any_of_json d)) (walk_path path qs))"
  by (simp add: ExtractDotPath_def raw_empty_def unmarshal_any_RJson walk_path_nest walk_path_append)

theorem ExtractDotPath_nested_witness:
  "ExtractDotPath ''user.name'' (RJson (JObj [(''user'', JObj [(''name'', JStr ''x'')])])) = Ok (AStr ''x'')"
  using ExtractDotPath_nested [of "''user.name''" "JStr ''x''"] by simp

text \<open>The priority offset of a run is at most ten minutes either way for every rule table
  and input, so the queue position \<open>EffectiveTime\<close> never wraps: it is the creation time minus that
  many seconds.\<close>

theorem priority_offset_bounded:
  assumes "ResolvePriority ffmt cfg input = Ok n"
  shows "- 600 \<le> n \<and> n \<le> 600 \<and> EffectiveTime (run\<lparr>wr_PriorityOffset := n\<rparr>) = wr_CreatedAt run - n * Second"
proof -
  have b: "- 600 \<le> n" "n \<le> 600" using ResolvePriority_bounds [OF assms] by auto
  then have "int64_ok n" "int64_ok (- n * Second)" by (auto simp: int64_ok_def)
  then show ?thesis using b by (simp add: EffectiveTime_def wrap64_id)
qed

theorem priority_offset_bounded_witness:
  "let cfg = Some \<lparr>pr_Key = ''tier'', pr_Rules = [(''gold'', 9000)], pr_DefaultOffset = 0\<rparr>;
       input = RJson (JObj [(''tier'', JStr ''gold'')])
   in ResolvePriority (\<lambda>_. []) cfg input = Ok 600
      \<and> EffectiveTime (zero_WorkflowRun\<lparr>wr_CreatedAt := 10 ^ 18, wr_PriorityOffset := 600\<rparr>)
          = 10 ^ 18 - 600 * Second"
proof -
  have h: "ResolvePriority (\<lambda>_. []) (Some \<lparr>pr_Key = ''tier'', pr_Rules = [(''gold'', 9000)], pr_DefaultOffset = 0\<rparr>)
      (RJson (JObj [(''tier'', JStr ''gold'')])) = Ok 600"
    by (simp add: ResolvePriority_def ExtractDotPath_def raw_empty_def unmarshal_any_def clampOffset_def)
  show ?thesis
    using priority_offset_bounded [OF h, of "zero_WorkflowRun\<lparr>wr_CreatedAt := 10 ^ 18\<rparr>"] h by simp
qed

end
