(* ===== verification/Cron.thy ===== *)
theory Cron
  imports Dag_Types
begin

text \<open>
  Cron expressions (src/internal/cronexpr/cronexpr.go): parsing of the five fields, the POSIX day
  rule, and the scan for the next matching minutes. The wall clock of a location is an argument
  (\<open>wall\<close>), since time zones come from the tz database; \<open>utc\<close> is the clock of UTC.
\<close>

section \<open>Parsing\<close>

record CronExpr =
  ce_Minutes :: "int list"
  ce_Hours :: "int list"
  ce_DaysOfMonth :: "int list"
  ce_Months :: "int list"
  ce_DaysOfWeek :: "int list"
  ce_dayOfMonthRestricted :: bool
  ce_dayOfWeekRestricted :: bool

datatype cron_error =
    CronTooLong nat
  | CronFieldCount nat
  | CronField string cron_error
  | EmptyField
  | EmptyItem string
  | InvalidStep string
  | InvalidRangeStart string
  | InvalidRangeEnd string
  | RangeOutOfBounds string
  | InvalidValue string
  | ValueOutOfRange int int int

text \<open>\<open>strings.Fields\<close>: the maximal runs without white space.\<close>

fun fields_acc :: "string \<Rightarrow> string \<Rightarrow> string list" where
  "fields_acc cur [] = (if cur = [] then [] else [cur])"
| "fields_acc cur (x # xs) =
     (if is_space x then (if cur = [] then fields_acc [] xs else cur # fields_acc [] xs)
      else fields_acc (cur @ [x]) xs)"

definition str_fields :: "string \<Rightarrow> string list" where
  "str_fields s = fields_acc [] s"

definition rangeInts :: "int \<Rightarrow> int \<Rightarrow> (cron_error, int list) res" where
  "rangeInts mn mx =
     (if mn > mx then Panic ''rangeInts''
      else if mx > 999 then Panic ''rangeInts''
      else Ok [mn..mx])"

text \<open>\<open>for i := min; i <= max; i += step\<close> with 64-bit addition. The first argument bounds the
  number of rounds; \<open>step_rounds\<close> is enough for every range the parser uses (lemma
  \<open>step_loop_enough\<close>).\<close>

fun step_loop :: "nat \<Rightarrow> int \<Rightarrow> int \<Rightarrow> int \<Rightarrow> int list" where
  "step_loop 0 i mx step = []"
| "step_loop (Suc n) i mx step =
     (if i \<le> mx then i # step_loop n (wrap64 (i + step)) mx step else [])"

definition step_rounds :: "int \<Rightarrow> int \<Rightarrow> nat" where
  "step_rounds mn mx = nat (mx - mn) + 4"

definition parseFieldValue :: "string \<Rightarrow> int \<Rightarrow> int \<Rightarrow> (cron_error, int list) res" where
  "parseFieldValue val mn mx =
     (if val = [] then Panic ''parseFieldValue''
      else if mn > mx then Panic ''parseFieldValue''
      else if val = ''*'' then rangeInts mn mx
      else if has_prefix val ''*/'' then
        (case atoi (drop 2 val) of
           None \<Rightarrow> Err (InvalidStep val)
         | Some step \<Rightarrow>
             if step \<le> 0 then Err (InvalidStep val)
             else Ok (step_loop (step_rounds mn mx) mn mx step))
      else if CHR ''-'' \<in> set val then
        (case atoi (takeWhile (\<lambda>c. c \<noteq> CHR ''-'') val) of
           None \<Rightarrow> Err (InvalidRangeStart val)
         | Some lo \<Rightarrow>
           (case atoi (tl (dropWhile (\<lambda>c. c \<noteq> CHR ''-'') val)) of
              None \<Rightarrow> Err (InvalidRangeEnd val)
            | Some hi \<Rightarrow>
                if lo < mn \<or> hi > mx \<or> lo > hi then Err (RangeOutOfBounds val)
                else rangeInts lo hi))
      else
        (case atoi val of
           None \<Rightarrow> Err (InvalidValue val)
         | Some v \<Rightarrow> if v < mn \<or> v > mx then Err (ValueOutOfRange v mn mx) else Ok [v]))"

fun parse_parts :: "string \<Rightarrow> string list \<Rightarrow> int \<Rightarrow> int \<Rightarrow> int list \<Rightarrow> (cron_error, int list) res" where
  "parse_parts field [] mn mx acc = Ok acc"
| "parse_parts field (part # parts) mn mx acc =
     (if part = [] then Err (EmptyItem field)
      else and_then (parseFieldValue part mn mx) (\<lambda>vals. parse_parts field parts mn mx (acc @ vals)))"

definition parseField :: "string \<Rightarrow> int \<Rightarrow> int \<Rightarrow> (cron_error, int list) res" where
  "parseField field mn mx =
     (if field = [] then Err EmptyField
      else if mn > mx then Panic ''parseField''
      else parse_parts field (split_on (CHR '','') field) mn mx [])"

definition ParseCron :: "string \<Rightarrow> (cron_error, CronExpr) res" where
  "ParseCron expr =
     (if length expr > 256 then Err (CronTooLong (length expr))
      else let fields = str_fields expr in
        if length fields \<noteq> 5 then Err (CronFieldCount (length fields))
        else
          and_then (map_err (CronField ''minute'') (parseField (fields ! 0) 0 59)) (\<lambda>minutes.
          and_then (map_err (CronField ''hour'') (parseField (fields ! 1) 0 23)) (\<lambda>hours.
          and_then (map_err (CronField ''day-of-month'') (parseField (fields ! 2) 1 31)) (\<lambda>dom.
          and_then (map_err (CronField ''month'') (parseField (fields ! 3) 1 12)) (\<lambda>months.
          and_then (map_err (CronField ''day-of-week'') (parseField (fields ! 4) 0 6)) (\<lambda>dow.
            if minutes = [] \<or> hours = [] then Panic ''ParseCron''
            else Ok \<lparr>ce_Minutes = minutes, ce_Hours = hours, ce_DaysOfMonth = dom, ce_Months = months,
                     ce_DaysOfWeek = dow, ce_dayOfMonthRestricted = (fields ! 2 \<noteq> ''*''),
                     ce_dayOfWeekRestricted = (fields ! 4 \<noteq> ''*'')\<rparr>))))))"

section \<open>Matching\<close>

text \<open>The wall clock fields \<open>time.Time\<close> shows in its location.\<close>

record Civil =
  cv_Minute :: int
  cv_Hour :: int
  cv_Day :: int
  cv_Month :: int
  cv_Weekday :: int

text \<open>A nil slice is the empty list; the parser never returns an empty one.\<close>

definition contains_int :: "int list \<Rightarrow> int \<Rightarrow> ('e, bool) res" where
  "contains_int vals target = (if vals = [] then Panic ''contains'' else Ok (target \<in> set vals))"

definition dayMatches :: "(gotime \<Rightarrow> Civil) \<Rightarrow> CronExpr \<Rightarrow> gotime \<Rightarrow> ('e, bool) res" where
  "dayMatches wall c t =
     (if t = 0 then Panic ''dayMatches''
      else if ce_DaysOfMonth c = [] \<or> ce_DaysOfWeek c = [] then Panic ''dayMatches''
      else
        and_then (contains_int (ce_DaysOfMonth c) (cv_Day (wall t))) (\<lambda>dayOfMonthMatches.
        and_then (contains_int (ce_DaysOfWeek c) (cv_Weekday (wall t))) (\<lambda>dayOfWeekMatches.
          if ce_dayOfMonthRestricted c \<and> ce_dayOfWeekRestricted c
          then Ok (dayOfMonthMatches \<or> dayOfWeekMatches)
          else Ok (dayOfMonthMatches \<and> dayOfWeekMatches))))"

text \<open>The conjunction of \<open>Matches\<close> stops at the first false conjunct.\<close>

definition Matches :: "(gotime \<Rightarrow> Civil) \<Rightarrow> CronExpr \<Rightarrow> gotime \<Rightarrow> ('e, bool) res" where
  "Matches wall c t =
     (if t = 0 then Panic ''Matches''
      else if ce_Minutes c = [] then Panic ''Matches''
      else
        and_then (contains_int (ce_Minutes c) (cv_Minute (wall t))) (\<lambda>inMinutes.
          if \<not> inMinutes then Ok False else
        and_then (contains_int (ce_Hours c) (cv_Hour (wall t))) (\<lambda>inHours.
          if \<not> inHours then Ok False else
        and_then (contains_int (ce_Months c) (cv_Month (wall t))) (\<lambda>inMonths.
          if \<not> inMonths then Ok False else dayMatches wall c t))))"

definition maxScanMinutes :: nat where
  "maxScanMinutes = 366 * 24 * 60"

fun scan_minutes :: "(gotime \<Rightarrow> ('e, bool) res) \<Rightarrow> nat \<Rightarrow> nat \<Rightarrow> gotime \<Rightarrow> gotime list \<Rightarrow> ('e, gotime list) res" where
  "scan_minutes matches 0 n t results = Ok results"
| "scan_minutes matches (Suc k) n t results =
     (if length results < n
      then and_then (matches t) (\<lambda>hit.
             scan_minutes matches k n (t + Minute) (if hit then results @ [t] else results))
      else Ok results)"

definition NextN :: "(gotime \<Rightarrow> Civil) \<Rightarrow> CronExpr \<Rightarrow> gotime \<Rightarrow> int \<Rightarrow> ('e, gotime list) res" where
  "NextN wall c ref n =
     (if ref = 0 then Panic ''NextN''
      else if n < 0 then Panic ''NextN''
      else if ce_Minutes c = [] then Panic ''NextN''
      else scan_minutes (Matches wall c) maxScanMinutes (nat n) (ref - ref mod Minute + Minute) [])"

text \<open>The clock of UTC: days since the first of January of year 1, a Monday, split into
  eras of 400 years with the year taken to begin in March.\<close>

definition utc :: "gotime \<Rightarrow> Civil" where
  "utc t =
     (let days = t div (24 * Hour);
          rest = t mod (24 * Hour);
          z = days + 306;
          doe = z mod 146097;
          yoe = (doe - doe div 1460 + doe div 36524 - doe div 146096) div 365;
          doy = doe - (365 * yoe + yoe div 4 - yoe div 100);
          mp = (5 * doy + 2) div 153
      in \<lparr>cv_Minute = rest mod Hour div Minute, cv_Hour = rest div Hour,
          cv_Day = doy - (153 * mp + 2) div 5 + 1,
          cv_Month = (if mp < 10 then mp + 3 else mp - 9),
          cv_Weekday = (days + 1) mod 7\<rparr>)"

section \<open>Lemmas on parsing\<close>

lemma atoi_int64: "atoi s = Some v \<Longrightarrow> int64_ok v"
  by (auto simp: atoi_def atoi_digits_def Let_def split: list.splits if_splits)

lemma step_loop_mono:
  assumes "1 \<le> step" "mx + step < 2 ^ 63" "- (2 ^ 63) \<le> i"
  shows "set (step_loop n i mx step) \<subseteq> {i..mx}"
  using assms(3)
proof (induction n arbitrary: i)
  case (Suc n)
  have "wrap64 (i + step) = i + step" if "i \<le> mx"
    using that assms(1,2) Suc.prems by (intro wrap64_id) (simp add: int64_ok_def)
  then show ?case using Suc.IH [of "i + step"] assms(1) Suc.prems by fastforce
qed simp

lemma step_loop_fuel:
  assumes "1 \<le> step" "mx + step < 2 ^ 63" "- (2 ^ 63) \<le> i" "nat (mx - i) + 2 \<le> n"
  shows "step_loop (n + m) i mx step = step_loop n i mx step"
  using assms(3,4)
proof (induction n arbitrary: i)
  case (Suc n)
  show ?case
  proof (cases "i \<le> mx")
    case True
    then have "wrap64 (i + step) = i + step"
      using assms(1,2) Suc.prems by (intro wrap64_id) (simp add: int64_ok_def)
    then show ?thesis
      using True Suc.IH [of "i + step"] Suc.prems assms(1) by (cases n) auto
  qed simp
qed simp

lemma step_loop_cut:
  assumes "i \<le> mx" "mx < wrap64 (i + step)"
  shows "step_loop (Suc (Suc n)) i mx step = [i]"
  using assms by simp

lemma step_loop_big:
  assumes "mn = 0 \<or> mn = 1" "mn \<le> mx" "mx \<le> 59" "step < 2 ^ 63" "2 ^ 63 \<le> mx + step"
  shows "step_loop (n + 4) mn mx step
           = (if mn = 1 \<and> step = 2 ^ 63 - 1 then [1, - (2 ^ 63), - 1] else [mn])"
proof (cases "mn = 1 \<and> step = 2 ^ 63 - 1")
  case True
  then show ?thesis using assms by (simp add: numeral_eq_Suc wrap64_def)
next
  case False
  then have "wrap64 (mn + step) = mn + step"
    using assms by (intro wrap64_id) (auto simp: int64_ok_def)
  then have "mx < wrap64 (mn + step)" using assms by auto
  then show ?thesis
    using step_loop_cut [of mn mx step "n + 2"] assms(2) False by (simp add: numeral_eq_Suc)
qed

text \<open>The round bound never cuts the loop short.\<close>

lemma step_loop_enough:
  assumes "mn = 0 \<or> mn = 1" "mn \<le> mx" "mx \<le> 59" "1 \<le> step" "step < 2 ^ 63"
  shows "step_loop (step_rounds mn mx + m) mn mx step = step_loop (step_rounds mn mx) mn mx step"
proof (cases "mx + step < 2 ^ 63")
  case True
  then show ?thesis
    using assms step_loop_fuel [of step mx mn "step_rounds mn mx" m] by (auto simp: step_rounds_def)
next
  case False
  then show ?thesis
    using step_loop_big [OF assms(1-3,5), of "nat (mx - mn) + m"]
      step_loop_big [OF assms(1-3,5), of "nat (mx - mn)"]
    by (simp add: step_rounds_def add.commute add.left_commute)
qed

text \<open>What a parsed field holds. A step of \<open>2^63 - 1\<close> in a field that begins at 1 wraps around
  and leaves two values no calendar field has.\<close>

definition in_field :: "int \<Rightarrow> int \<Rightarrow> int list \<Rightarrow> bool" where
  "in_field mn mx vs =
     (vs \<noteq> [] \<and> (\<forall>v \<in> set vs. mn \<le> v \<and> v \<le> mx \<or> mn = 1 \<and> (v = - (2 ^ 63) \<or> v = - 1)))"

lemma step_loop_in_field:
  assumes "mn = 0 \<or> mn = 1" "mn \<le> mx" "mx \<le> 59" "1 \<le> step" "step < 2 ^ 63"
  shows "in_field mn mx (step_loop (step_rounds mn mx) mn mx step)"
proof (cases "mx + step < 2 ^ 63")
  case True
  have "step_loop (step_rounds mn mx) mn mx step \<noteq> []"
    using assms(2) by (simp add: step_rounds_def numeral_eq_Suc)
  then show ?thesis
    using step_loop_mono [OF assms(4) True, of mn "step_rounds mn mx"] assms(1)
    by (fastforce simp: in_field_def)
next
  case False
  then show ?thesis
    using step_loop_big [OF assms(1-3,5), of "nat (mx - mn)"] assms(1,2)
    by (auto simp: step_rounds_def in_field_def)
qed

lemma rangeInts_in_field:
  "mn \<le> lo \<Longrightarrow> lo \<le> hi \<Longrightarrow> hi \<le> mx \<Longrightarrow> mx \<le> 59 \<Longrightarrow> ok_with (in_field mn mx) (rangeInts lo hi)"
  by (auto simp: rangeInts_def in_field_def)

lemma parseFieldValue_in_field:
  assumes "mn = 0 \<or> mn = 1" "mn \<le> mx" "mx \<le> 59" "val \<noteq> []"
  shows "ok_with (in_field mn mx) (parseFieldValue val mn mx)"
proof -
  have st: "in_field mn mx (step_loop (step_rounds mn mx) mn mx step)"
    if "atoi str = Some step" "0 < step" for str step
    using that atoi_int64 [OF that(1)] by (intro step_loop_in_field [OF assms(1-3)]) (auto simp: int64_ok_def)
  show ?thesis
    using assms st rangeInts_in_field
    unfolding parseFieldValue_def
    by (simp split: option.split) (auto simp: in_field_def)
qed

lemma parse_parts_in_field:
  assumes "mn = 0 \<or> mn = 1" "mn \<le> mx" "mx \<le> 59"
    and "acc = [] \<and> parts \<noteq> [] \<or> in_field mn mx acc"
  shows "ok_with (in_field mn mx) (parse_parts field parts mn mx acc)"
  using assms(4)
proof (induction parts arbitrary: acc)
  case (Cons part parts)
  have "ok_with (in_field mn mx) (parse_parts field parts mn mx (acc @ vs))" if "in_field mn mx vs" for vs
    using that Cons.prems by (intro Cons.IH) (auto simp: in_field_def)
  then show ?case
    using parseFieldValue_in_field [OF assms(1-3), of part] by (auto intro: ok_with_and_then)
qed auto

lemma parseField_in_field:
  assumes "mn = 0 \<or> mn = 1" "mn \<le> mx" "mx \<le> 59"
  shows "ok_with (in_field mn mx) (parseField field mn mx)"
proof -
  show ?thesis
    using parse_parts_in_field [OF assms, of "[]"] assms(2) by (simp add: parseField_def split_on_ne)
qed

definition cron_wf :: "CronExpr \<Rightarrow> bool" where
  "cron_wf c = (in_field 0 59 (ce_Minutes c) \<and> in_field 0 23 (ce_Hours c) \<and> in_field 1 31 (ce_DaysOfMonth c)
     \<and> in_field 1 12 (ce_Months c) \<and> in_field 0 6 (ce_DaysOfWeek c))"

lemma ParseCron_ok_with: "ok_with cron_wf (ParseCron expr)"
  unfolding ParseCron_def Let_def
  by (simp, intro impI, (rule ok_with_and_then [where P = "in_field 0 59"], simp add: parseField_in_field,
      rule ok_with_and_then [where P = "in_field 0 23"], simp add: parseField_in_field,
      rule ok_with_and_then [where P = "in_field 1 31"], simp add: parseField_in_field,
      rule ok_with_and_then [where P = "in_field 1 12"], simp add: parseField_in_field,
      rule ok_with_and_then [where P = "in_field 0 6"], simp add: parseField_in_field,
      simp add: cron_wf_def in_field_def))

section \<open>Lemmas on the scan\<close>

text \<open>The reference: a whole minute of the location's clock satisfies the expression when its
  minute, hour and month are listed and its day satisfies the POSIX rule.\<close>

definition cron_spec :: "(gotime \<Rightarrow> Civil) \<Rightarrow> CronExpr \<Rightarrow> gotime \<Rightarrow> bool" where
  "cron_spec wall c t =
     (cv_Minute (wall t) \<in> set (ce_Minutes c) \<and> cv_Hour (wall t) \<in> set (ce_Hours c)
      \<and> cv_Month (wall t) \<in> set (ce_Months c)
      \<and> (if ce_dayOfMonthRestricted c \<and> ce_dayOfWeekRestricted c
         then cv_Day (wall t) \<in> set (ce_DaysOfMonth c) \<or> cv_Weekday (wall t) \<in> set (ce_DaysOfWeek c)
         else cv_Day (wall t) \<in> set (ce_DaysOfMonth c) \<and> cv_Weekday (wall t) \<in> set (ce_DaysOfWeek c)))"

definition minutes_after :: "gotime \<Rightarrow> gotime list" where
  "minutes_after ref = map (\<lambda>k. ref - ref mod Minute + Minute + int k * Minute) [0..<maxScanMinutes]"

lemma Matches_spec: "cron_wf c \<Longrightarrow> t \<noteq> 0 \<Longrightarrow> Matches wall c t = Ok (cron_spec wall c t)"
  by (simp add: Matches_def dayMatches_def contains_int_def cron_spec_def cron_wf_def in_field_def)

lemma scan_minutes_filter:
  assumes "\<And>j. j < rounds \<Longrightarrow> matches (t + int j * Minute) = Ok (Q (t + int j * Minute))"
    and "length results \<le> n"
  shows "scan_minutes matches rounds n t results
           = Ok (results @ take (n - length results) (filter Q (map (\<lambda>j. t + int j * Minute) [0..<rounds])))"
  using assms
proof (induction rounds arbitrary: t results)
  case (Suc k)
  let ?r = "if Q t then results @ [t] else results"
  have t: "matches t = Ok (Q t)" using Suc.prems(1) [of 0] by simp
  have shift: "map (\<lambda>j. t + int j * Minute) [0..<Suc k] = t # map (\<lambda>j. t + Minute + int j * Minute) [0..<k]"
    by (subst upt_conv_Cons, simp, subst map_Suc_upt [symmetric], simp add: algebra_simps comp_def)
  show ?case
  proof (cases "length results < n")
    case True
    have "scan_minutes matches k n (t + Minute) ?r
        = Ok (?r @ take (n - length ?r) (filter Q (map (\<lambda>j. t + Minute + int j * Minute) [0..<k])))"
      using Suc.prems(1) [of "Suc j" for j] True by (intro Suc.IH) (auto simp: algebra_simps)
    moreover obtain d where "n - length results = Suc d" using True by (metis Suc_diff_Suc)
    moreover have "n - Suc (length results) = n - length results - 1" by simp
    ultimately show ?thesis unfolding shift using True t by simp
  next
    case False
    then show ?thesis using Suc.prems(2) by simp
  qed
qed simp

lemma minutes_after_iff:
  "t \<in> set (minutes_after ref) \<longleftrightarrow>
     t mod Minute = 0 \<and> ref < t \<and> t \<le> ref - ref mod Minute + int maxScanMinutes * Minute"
proof -
  define b where "b = ref - ref mod Minute"
  have b: "b mod Minute = 0" "b \<le> ref" "ref < b + Minute"
    using pos_mod_bound [of Minute ref] by (auto simp: b_def mod_diff_left_eq)
  then obtain q where q: "b = q * Minute" by (metis div_mult_mod_eq add.right_neutral)
  have "t \<in> set (minutes_after ref) \<longleftrightarrow> (\<exists>k < maxScanMinutes. t = b + Minute + int k * Minute)"
    by (auto simp: minutes_after_def b_def)
  also have "\<dots> \<longleftrightarrow> t mod Minute = 0 \<and> ref < t \<and> t \<le> b + int maxScanMinutes * Minute"
  proof (intro iffI conjI)
    assume r: "t mod Minute = 0 \<and> ref < t \<and> t \<le> b + int maxScanMinutes * Minute"
    then obtain p where p: "t = p * Minute" by (metis div_mult_mod_eq add.right_neutral)
    then have "q < p" "p \<le> q + int maxScanMinutes" using r b q by (auto simp: algebra_simps)
    then show "\<exists>k < maxScanMinutes. t = b + Minute + int k * Minute"
      using p q by (intro exI [of _ "nat (p - q - 1)"]) (auto simp: algebra_simps)
  next
    assume "\<exists>k < maxScanMinutes. t = b + Minute + int k * Minute"
    then obtain k where k: "k < maxScanMinutes" "t = b + Minute + int k * Minute" by blast
    then show "ref < t" using b by simp
    show "t \<le> b + int maxScanMinutes * Minute" using k by simp
    show "t mod Minute = 0" using k q by (simp add: algebra_simps)
  qed
  finally show ?thesis by (simp add: b_def)
qed

lemma minutes_after_sorted: "sorted_wrt (<) (minutes_after ref)"
  by (simp add: minutes_after_def sorted_wrt_map sorted_wrt_upt)

lemma NextN_spec:
  assumes "cron_wf c" "0 < ref" "0 \<le> n"
  shows "NextN wall c ref n = Ok (take (nat n) (filter (cron_spec wall c) (minutes_after ref)))"
proof -
  have pos: "0 < ref - ref mod Minute + Minute" using assms(2) pos_mod_bound [of Minute ref] by simp
  have "ce_Minutes c \<noteq> []" using assms(1) by (simp add: cron_wf_def in_field_def)
  moreover have "scan_minutes (Matches wall c) maxScanMinutes (nat n) (ref - ref mod Minute + Minute) []
      = Ok ([] @ take (nat n - length ([] :: gotime list)) (filter (cron_spec wall c) (minutes_after ref)))"
    unfolding minutes_after_def
    by (rule scan_minutes_filter) (use pos in \<open>auto intro!: Matches_spec [OF assms(1)]\<close>)
  ultimately show ?thesis
    using assms(2,3) unfolding NextN_def by simp
qed

lemmas cron_eval = ParseCron_def str_fields_def is_space_def parseField_def parseFieldValue_def
  rangeInts_def has_prefix_def atoi_def atoi_digits_def digits_val_def is_digit_def int64_ok_def Let_def

section \<open>Properties\<close>

text \<open>C27: parsing a cron expression never panics, and the five lists of an accepted expression
  are not empty and hold values of their field only, up to two values of the day and month fields
  that match no day or month (what 64-bit wrap-around leaves of a step of \<open>2^63 - 1\<close>).\<close>

theorem ParseCron_fields:
  "\<not> is_panic (ParseCron expr) \<and> (ParseCron expr = Ok c \<longrightarrow> cron_wf c)"
  using ok_withD(1) [OF ParseCron_ok_with] ok_withD(2) [OF ParseCron_ok_with] by (intro conjI impI)

theorem ParseCron_fields_witness:
  "ParseCron ''30 9-10 * 1 1,3'' =
     Ok \<lparr>ce_Minutes = [30], ce_Hours = [9, 10], ce_DaysOfMonth = [1..31], ce_Months = [1],
         ce_DaysOfWeek = [1, 3], ce_dayOfMonthRestricted = False, ce_dayOfWeekRestricted = True\<rparr>
   \<and> cron_wf \<lparr>ce_Minutes = [30], ce_Hours = [9, 10], ce_DaysOfMonth = [1..31], ce_Months = [1],
         ce_DaysOfWeek = [1, 3], ce_dayOfMonthRestricted = False, ce_dayOfWeekRestricted = True\<rparr>"
proof -
  have h: "ParseCron ''30 9-10 * 1 1,3'' =
     Ok \<lparr>ce_Minutes = [30], ce_Hours = [9, 10], ce_DaysOfMonth = [1..31], ce_Months = [1],
         ce_DaysOfWeek = [1, 3], ce_dayOfMonthRestricted = False, ce_dayOfWeekRestricted = True\<rparr>"
    by (simp add: cron_eval)
  show ?thesis by (rule conjI [OF h conjunct2 [OF ParseCron_fields, rule_format, OF h]])
qed

text \<open>C25: for a parsed expression, \<open>NextN\<close> returns exactly the first \<open>n\<close> whole minutes strictly
  after the reference, within 366 days, at which the wall clock satisfies the expression: none is
  skipped, none is returned twice, they come in ascending order, and the scan ends.\<close>

theorem NextN_correct:
  assumes "ParseCron expr = Ok c" "0 < ref" "0 \<le> n"
  shows "NextN wall c ref n = Ok (take (nat n) (filter (cron_spec wall c) (minutes_after ref)))
    \<and> sorted_wrt (<) (minutes_after ref)
    \<and> set (minutes_after ref)
        = {t. t mod Minute = 0 \<and> ref < t \<and> t \<le> ref - ref mod Minute + int maxScanMinutes * Minute}"
  by (intro conjI NextN_spec [OF ok_withD(1) [OF ParseCron_ok_with assms(1)] assms(2,3)]
      minutes_after_sorted set_eqI) (unfold mem_Collect_eq, rule minutes_after_iff)

theorem NextN_correct_witness:
  "\<exists>c. ParseCron ''0 12 * * *'' = Ok c
     \<and> NextN utc c (10 ^ 18) 2 = Ok (take (nat 2) (filter (cron_spec utc c) (minutes_after (10 ^ 18))))"
proof -
  have h: "ParseCron ''0 12 * * *'' =
     Ok \<lparr>ce_Minutes = [0], ce_Hours = [12], ce_DaysOfMonth = [1..31], ce_Months = [1..12],
         ce_DaysOfWeek = [0..6], ce_dayOfMonthRestricted = False, ce_dayOfWeekRestricted = False\<rparr>"
    by (simp add: cron_eval)
  have "(0::int) < 10 ^ 18" "(0::int) \<le> 2" by simp_all
  from NextN_correct [OF h this, of utc] h show ?thesis by blast
qed

end
