(* ===== verification/Dag_Config.thy ===== *)
theory Dag_Config
  imports Dag_Conditions Cron
begin

text \<open>
  The type-specific configuration of steps: the structs and \<open>ParseXxxConfig\<close> helpers of
  src/dag/config.go and its neighbours, durations in JSON (src/internal/durationjson), the
  validation of sleep, wait-for-event, approval, planner and sub-workflow steps, and the
  resolution of a sleep at dispatch (src/dag/sleep.go).
\<close>

section \<open>Durations in JSON\<close>

text \<open>\<open>time.ParseDuration\<close>: signed sequences of decimal numbers with a unit. A fraction is cut off
  at the nanosecond; a value beyond 64 bits is an error.\<close>

definition duration_units :: "int gomap" where
  "duration_units = [(''ns'', 1), (''us'', 1000), (''ms'', Millisecond), (''s'', Second),
     (''m'', Minute), (''h'', Hour)]"

fun parse_duration_terms :: "nat \<Rightarrow> string \<Rightarrow> int \<Rightarrow> int option" where
  "parse_duration_terms 0 s acc = None"
| "parse_duration_terms (Suc fuel) s acc =
     (if s = [] then Some acc
      else
        let whole = takeWhile is_digit s;
            rest = dropWhile is_digit s;
            (frac, rest') = (case rest of
                c # cs \<Rightarrow> if c = CHR ''.'' then (takeWhile is_digit cs, dropWhile is_digit cs) else ([], rest)
              | [] \<Rightarrow> ([], []));
            unit = takeWhile (\<lambda>c. c \<noteq> CHR ''.'' \<and> \<not> is_digit c) rest';
            rest'' = dropWhile (\<lambda>c. c \<noteq> CHR ''.'' \<and> \<not> is_digit c) rest'
        in if whole = [] \<and> frac = [] then None
           else
             (case map_of duration_units unit of
                None \<Rightarrow> None
              | Some u \<Rightarrow>
                  let v = digits_val whole * u + digits_val frac * u div 10 ^ length frac
                  in if acc + v > 2 ^ 63 then None else parse_duration_terms fuel rest'' (acc + v)))"

definition ParseDuration :: "string \<Rightarrow> duration option" where
  "ParseDuration str =
     (let neg = (case str of c # _ \<Rightarrow> c = CHR ''-'' | [] \<Rightarrow> False);
          body = (case str of c # cs \<Rightarrow> if c = CHR ''-'' \<or> c = CHR ''+'' then cs else str | [] \<Rightarrow> [])
      in if body = ''0'' then Some 0
         else if body = [] then None
         else
           (case parse_duration_terms (Suc (length body)) body 0 of
              None \<Rightarrow> None
            | Some v \<Rightarrow> if neg then Some (- v) else if v > 2 ^ 63 - 1 then None else Some v))"

text \<open>A duration field takes integer nanoseconds or a duration string
  (\<open>rewriteDurationStrings\<close> turns the second into the first before decoding).\<close>

definition dec_duration :: "duration decoder" where
  "dec_duration old j = (case j of JStr str \<Rightarrow> ParseDuration str | _ \<Rightarrow> dec_int old j)"

fun dec_strings :: "json list \<Rightarrow> string list option" where
  "dec_strings [] = Some []"
| "dec_strings (j # js) =
     (case (dec_str [] j, dec_strings js) of (Some w, Some ws) \<Rightarrow> Some (w # ws) | _ \<Rightarrow> None)"

definition dec_string_list :: "string list decoder" where
  "dec_string_list old j = (case j of JNull \<Rightarrow> Some [] | JArr js \<Rightarrow> dec_strings js | _ \<Rightarrow> None)"

fun dec_string_members :: "(string \<times> json) list \<Rightarrow> string gomap option" where
  "dec_string_members [] = Some []"
| "dec_string_members ((k, j) # kvs) =
     (case (dec_str [] j, dec_string_members kvs) of
        (Some w, Some m) \<Rightarrow> Some (if mhas m k then m else (k, w) # m)
      | _ \<Rightarrow> None)"

definition dec_string_map :: "string gomap decoder" where
  "dec_string_map old j =
     (case j of JNull \<Rightarrow> Some [] | JObj kvs \<Rightarrow> dec_string_members kvs | _ \<Rightarrow> None)"

text \<open>\<open>json.Unmarshal\<close> into a struct.\<close>

definition unmarshal_struct :: "((string \<times> json) list \<Rightarrow> 'a option) \<Rightarrow> raw \<Rightarrow> 'a option" where
  "unmarshal_struct dec r =
     (case r of RJson (JObj kvs) \<Rightarrow> dec kvs | RJson JNull \<Rightarrow> dec [] | _ \<Rightarrow> None)"

section \<open>Config structs\<close>

record AgentLoopConfig =
  al_MaxIterations :: int
  al_MaxDuration :: duration
  al_LoopDelay :: duration
  al_BudgetWarnAt :: int
  al_BudgetForceAt :: int

record MapConfig =
  mc_MaxItems :: int

record SleepConfig =
  sc_Duration :: duration
  sc_Cron :: string
  sc_UntilInputPath :: string
  sc_CronTimezone :: string
  sc_CronTimezoneInputPath :: string

record SubWorkflowConfig =
  sw_Workflow :: string
  sw_Detach :: bool

record WaitForEventOpts =
  wf_Event :: string
  wf_Match :: Match
  wf_Timeout :: duration

record PlannerConfig =
  pl_MaxSteps :: int
  pl_MaxDepth :: int
  pl_AllowedTasks :: "string list"

record ApprovalConfig =
  ap_Timeout :: duration
  ap_Subject :: string
  ap_Description :: string
  ap_Metadata :: "string gomap"

text \<open>Decoding of each struct, all fields; None when some field has the wrong type.\<close>

definition dec_AgentLoopConfig :: "(string \<times> json) list \<Rightarrow> AgentLoopConfig option" where
  "dec_AgentLoopConfig kvs =
     Option.bind (dec_field ''max_iterations'' dec_int 0 kvs) (\<lambda>a.
     Option.bind (dec_field ''max_duration'' dec_duration 0 kvs) (\<lambda>b.
     Option.bind (dec_field ''loop_delay'' dec_duration 0 kvs) (\<lambda>c.
     Option.bind (dec_field ''budget_warn_at'' dec_int 0 kvs) (\<lambda>d.
     Option.bind (dec_field ''budget_force_at'' dec_int 0 kvs) (\<lambda>e.
       Some \<lparr>al_MaxIterations = a, al_MaxDuration = b, al_LoopDelay = c, al_BudgetWarnAt = d,
             al_BudgetForceAt = e\<rparr>)))))"

definition dec_MapConfig :: "(string \<times> json) list \<Rightarrow> MapConfig option" where
  "dec_MapConfig kvs = map_option (\<lambda>a. \<lparr>mc_MaxItems = a\<rparr>) (dec_field ''max_items'' dec_int 0 kvs)"

definition dec_SleepConfig :: "(string \<times> json) list \<Rightarrow> SleepConfig option" where
  "dec_SleepConfig kvs =
     Option.bind (dec_field ''duration'' dec_duration 0 kvs) (\<lambda>a.
     Option.bind (dec_field ''cron'' dec_str [] kvs) (\<lambda>b.
     Option.bind (dec_field ''until_input_path'' dec_str [] kvs) (\<lambda>c.
     Option.bind (dec_field ''cron_timezone'' dec_str [] kvs) (\<lambda>d.
     Option.bind (dec_field ''cron_timezone_input_path'' dec_str [] kvs) (\<lambda>e.
       Some \<lparr>sc_Duration = a, sc_Cron = b, sc_UntilInputPath = c, sc_CronTimezone = d,
             sc_CronTimezoneInputPath = e\<rparr>)))))"

definition dec_SubWorkflowConfig :: "(string \<times> json) list \<Rightarrow> SubWorkflowConfig option" where
  "dec_SubWorkflowConfig kvs =
     Option.bind (dec_field ''workflow'' dec_str [] kvs) (\<lambda>a.
     Option.bind (dec_field ''detach'' dec_bool False kvs) (\<lambda>b.
       Some \<lparr>sw_Workflow = a, sw_Detach = b\<rparr>))"

definition dec_Match :: "Match decoder" where
  "dec_Match old j =
     (case j of
        JNull \<Rightarrow> Some old
      | JObj kvs \<Rightarrow>
          Option.bind (dec_field ''left'' dec_str (mt_Left old) kvs) (\<lambda>a.
          Option.bind (dec_field ''op'' dec_str (mt_Op old) kvs) (\<lambda>b.
          Option.bind (dec_field ''right'' dec_str (mt_Right old) kvs) (\<lambda>c.
            Some \<lparr>mt_Left = a, mt_Op = b, mt_Right = c\<rparr>)))
      | _ \<Rightarrow> None)"

definition dec_WaitForEventOpts :: "(string \<times> json) list \<Rightarrow> WaitForEventOpts option" where
  "dec_WaitForEventOpts kvs =
     Option.bind (dec_field ''event'' dec_str [] kvs) (\<lambda>a.
     Option.bind (dec_field ''match'' dec_Match \<lparr>mt_Left = [], mt_Op = [], mt_Right = []\<rparr> kvs) (\<lambda>b.
     Option.bind (dec_field ''timeout'' dec_duration 0 kvs) (\<lambda>c.
       Some \<lparr>wf_Event = a, wf_Match = b, wf_Timeout = c\<rparr>)))"

definition dec_PlannerConfig :: "(string \<times> json) list \<Rightarrow> PlannerConfig option" where
  "dec_PlannerConfig kvs =
     Option.bind (dec_field ''max_steps'' dec_int 0 kvs) (\<lambda>a.
     Option.bind (dec_field ''max_depth'' dec_int 0 kvs) (\<lambda>b.
     Option.bind (dec_field ''allowed_tasks'' dec_string_list [] kvs) (\<lambda>c.
       Some \<lparr>pl_MaxSteps = a, pl_MaxDepth = b, pl_AllowedTasks = c\<rparr>)))"

definition dec_ApprovalConfig :: "(string \<times> json) list \<Rightarrow> ApprovalConfig option" where
  "dec_ApprovalConfig kvs =
     Option.bind (dec_field ''timeout'' dec_duration 0 kvs) (\<lambda>a.
     Option.bind (dec_field ''subject'' dec_str [] kvs) (\<lambda>b.
     Option.bind (dec_field ''description'' dec_str [] kvs) (\<lambda>c.
     Option.bind (dec_field ''metadata'' dec_string_map [] kvs) (\<lambda>d.
       Some \<lparr>ap_Timeout = a, ap_Subject = b, ap_Description = c, ap_Metadata = d\<rparr>))))"

section \<open>Parsing a step's config\<close>

datatype config_error =
    WrongStepType string StepType StepType
  | ConfigNil string StepType
  | ConfigUnmarshal string StepType
  | SleepFormCount nat
  | CronZoneWithoutCron
  | CronZoneTwice

definition parse_config :: "StepType \<Rightarrow> ((string \<times> json) list \<Rightarrow> 'a option) \<Rightarrow> StepDef \<Rightarrow> (config_error, 'a) res" where
  "parse_config ty dec step =
     (if sd_Type step \<noteq> ty then Err (WrongStepType (sd_ID step) ty (sd_Type step))
      else if sd_Config step = RNil then Err (ConfigNil (sd_ID step) ty)
      else
        (case unmarshal_struct dec (sd_Config step) of
           None \<Rightarrow> Err (ConfigUnmarshal (sd_ID step) ty)
         | Some cfg \<Rightarrow> Ok cfg))"

definition ParseAgentLoopConfig :: "StepDef \<Rightarrow> (config_error, AgentLoopConfig) res" where
  "ParseAgentLoopConfig = parse_config StepTypeAgentLoop dec_AgentLoopConfig"

definition ParseMapConfig :: "StepDef \<Rightarrow> (config_error, MapConfig) res" where
  "ParseMapConfig = parse_config StepTypeMap dec_MapConfig"

definition ParseSubWorkflowConfig :: "StepDef \<Rightarrow> (config_error, SubWorkflowConfig) res" where
  "ParseSubWorkflowConfig = parse_config StepTypeSubWorkflow dec_SubWorkflowConfig"

definition ParseWaitForEventConfig :: "StepDef \<Rightarrow> (config_error, WaitForEventOpts) res" where
  "ParseWaitForEventConfig = parse_config StepTypeWaitForEvent dec_WaitForEventOpts"

definition ParsePlannerConfig :: "StepDef \<Rightarrow> (config_error, PlannerConfig) res" where
  "ParsePlannerConfig = parse_config StepTypePlanner dec_PlannerConfig"

definition ParseApprovalConfig :: "StepDef \<Rightarrow> (config_error, ApprovalConfig) res" where
  "ParseApprovalConfig = parse_config StepTypeApproval dec_ApprovalConfig"

definition formCount :: "SleepConfig \<Rightarrow> nat" where
  "formCount c =
     (if sc_Duration c \<noteq> 0 then 1 else 0) + (if sc_Cron c \<noteq> [] then 1 else 0)
     + (if sc_UntilInputPath c \<noteq> [] then 1 else 0)"

definition checkCronZoneFields :: "SleepConfig \<Rightarrow> config_error checked" where
  "checkCronZoneFields c =
     (let hasStatic = sc_CronTimezone c \<noteq> []; hasPath = sc_CronTimezoneInputPath c \<noteq> [] in
      if \<not> hasStatic \<and> \<not> hasPath then Ok ()
      else if sc_Cron c = [] then Err CronZoneWithoutCron
      else if hasStatic \<and> hasPath then Err CronZoneTwice
      else Ok ())"

definition ParseSleepConfig :: "StepDef \<Rightarrow> (config_error, SleepConfig) res" where
  "ParseSleepConfig step =
     and_then (parse_config StepTypeSleep dec_SleepConfig step) (\<lambda>cfg.
       if formCount cfg \<noteq> 1 then Err (SleepFormCount (formCount cfg))
       else and_then (checkCronZoneFields cfg) (\<lambda>_. Ok cfg))"

section \<open>Checking config values\<close>

datatype step_error =
    BadConfig config_error
  | SleepBound duration
  | SleepNotPositive duration
  | BadSleepCron cron_error
  | BadCronTimezone string
  | ApprovalNoSubject
  | ApprovalTimeoutNotPositive
  | ApprovalTimeoutTooLong duration
  | PlannerMaxSteps int
  | PlannerMaxDepth int
  | SubWorkflowNoName
  | WaitConfigInvalid
  | WaitNoEvent
  | WaitNoLeft
  | WaitNoOp
  | WaitNoRight
  | WaitTimeoutNotPositive
  | MatchBadStepPath string
  | MatchUnknownStep string
  | MatchBadPrefix string

definition maxSleepDuration :: duration where
  "maxSleepDuration = 365 * 24 * Hour"

definition maxApprovalTimeout :: duration where
  "maxApprovalTimeout = 168 * Hour"

definition checkSleepBound :: "duration \<Rightarrow> step_error checked" where
  "checkSleepBound d =
     (if d < 0 then Panic ''checkSleepBound''
      else if d > maxSleepDuration then Err (SleepBound d)
      else Ok ())"

text \<open>\<open>time.LoadLocation\<close> is an argument: the tz database decides which names it knows.\<close>

definition validateSleepStep :: "(string \<Rightarrow> (gotime \<Rightarrow> Civil) option) \<Rightarrow> StepDef \<Rightarrow> step_error checked" where
  "validateSleepStep loadLocation step =
     (if sd_ID step = [] then Panic ''validateSleepStep''
      else if sd_Type step \<noteq> StepTypeSleep then Ok ()
      else and_then (map_err BadConfig (ParseSleepConfig step)) (\<lambda>cfg.
        if sc_Cron cfg \<noteq> [] then
          and_then (map_err BadSleepCron (ParseCron (sc_Cron cfg))) (\<lambda>_.
            if sc_CronTimezone cfg \<noteq> [] \<and> loadLocation (sc_CronTimezone cfg) = None
            then Err (BadCronTimezone (sc_CronTimezone cfg)) else Ok ())
        else if sc_UntilInputPath cfg \<noteq> [] then Ok ()
        else if sc_Duration cfg \<le> 0 then Err (SleepNotPositive (sc_Duration cfg))
        else checkSleepBound (sc_Duration cfg)))"

definition validateApprovalStep :: "StepDef \<Rightarrow> step_error checked" where
  "validateApprovalStep step =
     (if sd_ID step = [] then Panic ''validateApprovalStep''
      else if sd_Type step \<noteq> StepTypeApproval then Ok ()
      else and_then (map_err BadConfig (ParseApprovalConfig step)) (\<lambda>cfg.
        chain [check (ap_Subject cfg = []) ApprovalNoSubject,
               check (ap_Timeout cfg \<le> 0) ApprovalTimeoutNotPositive,
               check (ap_Timeout cfg > maxApprovalTimeout) (ApprovalTimeoutTooLong (ap_Timeout cfg))]))"

definition validatePlannerConfig :: "StepDef \<Rightarrow> step_error checked" where
  "validatePlannerConfig step =
     (if sd_ID step = [] then Panic ''validatePlannerConfig''
      else if sd_Type step \<noteq> StepTypePlanner then Ok ()
      else and_then (map_err BadConfig (ParsePlannerConfig step)) (\<lambda>cfg.
        chain [check (pl_MaxSteps cfg < 1 \<or> pl_MaxSteps cfg > 100) (PlannerMaxSteps (pl_MaxSteps cfg)),
               check (pl_MaxDepth cfg < 0 \<or> pl_MaxDepth cfg > 10) (PlannerMaxDepth (pl_MaxDepth cfg))]))"

definition validateSubWorkflowConfig :: "StepDef \<Rightarrow> step_error checked" where
  "validateSubWorkflowConfig step =
     (if sd_ID step = [] then Panic ''validateSubWorkflowConfig''
      else if sd_Type step \<noteq> StepTypeSubWorkflow then Ok ()
      else and_then (map_err BadConfig (ParseSubWorkflowConfig step)) (\<lambda>cfg.
        check (sw_Workflow cfg = []) SubWorkflowNoName))"

definition validateMatchDotPaths :: "string \<Rightarrow> Match \<Rightarrow> bool gomap \<Rightarrow> step_error checked" where
  "validateMatchDotPaths stepID m ids =
     (if stepID = [] then Panic ''validateMatchDotPaths''
      else if has_prefix (mt_Right m) ''step.'' then
        (let parts = split_n 4 (CHR ''.'') (mt_Right m) in
         if length parts < 4 then Err (MatchBadStepPath (mt_Right m))
         else check (\<not> bget ids (parts ! 1)) (MatchUnknownStep (parts ! 1)))
      else check (\<not> has_prefix (mt_Right m) ''input.'') (MatchBadPrefix (mt_Right m)))"

definition validateWaitForEventStep :: "StepDef \<Rightarrow> bool gomap \<Rightarrow> step_error checked" where
  "validateWaitForEventStep step ids =
     (if sd_Type step \<noteq> StepTypeWaitForEvent then Ok ()
      else if sd_ID step = [] then Panic ''validateWaitForEventStep''
      else
        (case ParseWaitForEventConfig step of
           Panic p \<Rightarrow> Panic p
         | Err e \<Rightarrow> Err WaitConfigInvalid
         | Ok opts \<Rightarrow>
             chain [check (wf_Event opts = []) WaitNoEvent,
                    check (mt_Left (wf_Match opts) = []) WaitNoLeft,
                    check (mt_Op (wf_Match opts) = []) WaitNoOp,
                    check (mt_Right (wf_Match opts) = []) WaitNoRight,
                    check (wf_Timeout opts \<le> 0) WaitTimeoutNotPositive,
                    validateMatchDotPaths (sd_ID step) (wf_Match opts) ids]))"

section \<open>Resolving a sleep\<close>

datatype sleep_error =
    SleepConfigError config_error
  | SleepCheck step_error
  | ZoneInputEmpty string
  | ZonePath string path_error
  | ZoneNotAName string
  | ZoneUnknown string
  | SleepCronBad string cron_error
  | NoNextOccurrence string
  | UntilInputEmpty string
  | UntilPath string path_error
  | NotRFC3339 string
  | MillisNegative string
  | MillisTooLarge string
  | UntilWrongType string

definition cronZoneFromInput :: "string \<Rightarrow> raw \<Rightarrow> (sleep_error, string) res" where
  "cronZoneFromInput path runInput =
     (if path = [] then Panic ''cronZoneFromInput''
      else if raw_empty runInput then Err (ZoneInputEmpty path)
      else and_then (map_err (ZonePath path) (ExtractDotPath path runInput)) (\<lambda>val.
        (case val of
           AStr name \<Rightarrow> if name = [] then Err (ZoneNotAName path) else Ok name
         | _ \<Rightarrow> Err (ZoneNotAName path))))"

text \<open>\<open>CronSleepLocation\<close> returns UTC together with its error; the model returns the error
  alone and the caller puts UTC in.\<close>

definition CronSleepLocation ::
    "(string \<Rightarrow> (gotime \<Rightarrow> Civil) option) \<Rightarrow> SleepConfig \<Rightarrow> raw \<Rightarrow> (sleep_error, gotime \<Rightarrow> Civil) res" where
  "CronSleepLocation loadLocation cfg runInput =
     (if sc_Cron cfg = [] then Panic ''CronSleepLocation''
      else and_then (map_err SleepConfigError (checkCronZoneFields cfg)) (\<lambda>_.
        and_then (if sc_CronTimezoneInputPath cfg \<noteq> []
                  then cronZoneFromInput (sc_CronTimezoneInputPath cfg) runInput
                  else Ok (sc_CronTimezone cfg)) (\<lambda>name.
          if name = [] then Ok utc
          else (case loadLocation name of None \<Rightarrow> Err (ZoneUnknown name) | Some loc \<Rightarrow> Ok loc))))"

text \<open>\<open>Time.Sub\<close> saturates at the bounds of a 64-bit duration.\<close>

definition time_sub :: "gotime \<Rightarrow> gotime \<Rightarrow> duration" where
  "time_sub a b = max (- (2 ^ 63)) (min (2 ^ 63 - 1) (a - b))"

definition resolveCronSleep :: "string \<Rightarrow> gotime \<Rightarrow> (gotime \<Rightarrow> Civil) \<Rightarrow> (sleep_error, duration) res" where
  "resolveCronSleep expr now loc =
     (if expr = [] then Panic ''resolveCronSleep''
      else if now = 0 then Panic ''resolveCronSleep''
      else and_then (map_err (SleepCronBad expr) (ParseCron expr)) (\<lambda>parsed.
        and_then (NextN loc parsed now 1) (\<lambda>ts.
          (case ts of
             [] \<Rightarrow> Err (NoNextOccurrence expr)
           | t # _ \<Rightarrow>
               let delay = time_sub t now in
               if delay \<le> 0 then Panic ''resolveCronSleep'' else Ok delay))))"

text \<open>\<open>time.Parse(time.RFC3339, v)\<close> is an argument.\<close>

definition untilValueToDuration ::
    "(string \<Rightarrow> gotime option) \<Rightarrow> string \<Rightarrow> any \<Rightarrow> gotime \<Rightarrow> (sleep_error, duration) res" where
  "untilValueToDuration parseRFC3339 path val now =
     (if path = [] then Panic ''untilValueToDuration''
      else if now = 0 then Panic ''untilValueToDuration''
      else
        (case val of
           AStr v \<Rightarrow>
             (case parseRFC3339 v of
                None \<Rightarrow> Err (NotRFC3339 path)
              | Some deadline \<Rightarrow> if deadline < now then Ok 0 else Ok (time_sub deadline now))
         | AFloat v \<Rightarrow>
             if \<not> (v \<ge> 0) then Err (MillisNegative path)
             else if \<not> (v \<le> of_int (maxSleepDuration div Millisecond)) then Err (MillisTooLarge path)
             else Ok (wrap64 (\<lfloor>v\<rfloor> * Millisecond))
         | _ \<Rightarrow> Err (UntilWrongType path)))"

definition resolveUntilSleep ::
    "(string \<Rightarrow> gotime option) \<Rightarrow> string \<Rightarrow> raw \<Rightarrow> gotime \<Rightarrow> (sleep_error, duration) res" where
  "resolveUntilSleep parseRFC3339 path runInput now =
     (if path = [] then Panic ''resolveUntilSleep''
      else if now = 0 then Panic ''resolveUntilSleep''
      else if raw_empty runInput then Err (UntilInputEmpty path)
      else and_then (map_err (UntilPath path) (ExtractDotPath path runInput)) (\<lambda>val.
        untilValueToDuration parseRFC3339 path val now))"

definition ResolveSleepDuration ::
    "(string \<Rightarrow> (gotime \<Rightarrow> Civil) option) \<Rightarrow> (string \<Rightarrow> gotime option) \<Rightarrow>
     SleepConfig \<Rightarrow> raw \<Rightarrow> gotime \<Rightarrow> (sleep_error, duration) res" where
  "ResolveSleepDuration loadLocation parseRFC3339 cfg runInput now =
     (if now = 0 then Panic ''ResolveSleepDuration''
      else if formCount cfg \<noteq> 1 then Err (SleepConfigError (SleepFormCount (formCount cfg)))
      else and_then (map_err SleepConfigError (checkCronZoneFields cfg)) (\<lambda>_.
        and_then
          (if sc_Cron cfg \<noteq> [] then
             (case CronSleepLocation loadLocation cfg runInput of
                Panic p \<Rightarrow> Panic p
              | Err e \<Rightarrow> resolveCronSleep (sc_Cron cfg) now utc
              | Ok loc \<Rightarrow> resolveCronSleep (sc_Cron cfg) now loc)
           else if sc_UntilInputPath cfg \<noteq> [] then
             resolveUntilSleep parseRFC3339 (sc_UntilInputPath cfg) runInput now
           else if sc_Duration cfg < 0 then Err (SleepCheck (SleepNotPositive (sc_Duration cfg)))
           else Ok (sc_Duration cfg))
          (\<lambda>resolved.
            and_then (map_err SleepCheck (checkSleepBound resolved)) (\<lambda>_. Ok resolved))))"

section \<open>Lemmas\<close>

lemma parse_config_safe [safe_intros]: "safe (parse_config ty dec step)"
  by (simp add: parse_config_def split: option.split)

lemma checkCronZoneFields_safe [safe_intros]: "safe (checkCronZoneFields cfg)"
  by (simp add: checkCronZoneFields_def Let_def)

lemma raw_empty_nil: "\<not> raw_empty r \<Longrightarrow> r \<noteq> RNil"
  by (auto simp: raw_empty_def)

lemma cronZoneFromInput_safe [safe_intros]: "path \<noteq> [] \<Longrightarrow> safe (cronZoneFromInput path input)"
  unfolding cronZoneFromInput_def
  by (simp, intro impI safe_intros) (auto dest: raw_empty_nil split: any.split)

lemma CronSleepLocation_safe [safe_intros]:
  "sc_Cron cfg \<noteq> [] \<Longrightarrow> safe (CronSleepLocation loadLocation cfg input)"
  unfolding CronSleepLocation_def
  by (simp, intro conjI impI safe_intros) (auto split: option.split)

lemma resolveCronSleep_positive:
  assumes "expr \<noteq> []" "0 < now"
  shows "ok_with (\<lambda>d. 0 < d) (resolveCronSleep expr now loc)"
proof -
  have "ok_with (\<lambda>d. 0 < d)
      (and_then (NextN loc c now 1)
        (\<lambda>ts. case ts of [] \<Rightarrow> Err (NoNextOccurrence expr)
           | t # _ \<Rightarrow> let delay = time_sub t now in
               if delay \<le> 0 then Panic ''resolveCronSleep'' else Ok delay))" if wf: "cron_wf c" for c
  proof -
    let ?ts = "take (nat 1) (filter (cron_spec loc c) (minutes_after now))"
    have "0 < time_sub t now" if "t \<in> set ?ts" for t
    proof -
      have "now < t" using that in_set_takeD minutes_after_iff by fastforce
      then show ?thesis by (simp add: time_sub_def)
    qed
    then show ?thesis
      unfolding NextN_spec [OF wf assms(2), of 1, simplified]
      by (cases ?ts) (auto simp: Let_def not_le)
  qed
  then show ?thesis
    using assms unfolding resolveCronSleep_def
    by (auto intro!: ok_with_and_then [where P = cron_wf] simp: ParseCron_ok_with)
qed

lemma untilValueToDuration_nonneg:
  assumes "path \<noteq> []" "0 < now"
  shows "ok_with (\<lambda>d. 0 \<le> d) (untilValueToDuration parse path val now)"
proof (cases val)
  case (AFloat v)
  have "0 \<le> wrap64 (\<lfloor>v\<rfloor> * Millisecond)" if "0 \<le> v" "v \<le> of_int (maxSleepDuration div Millisecond)"
  proof -
    define n where "n = \<lfloor>v\<rfloor>"
    have "0 \<le> n" "n \<le> maxSleepDuration div Millisecond"
      using that floor_mono [OF that(2)] by (simp_all add: n_def)
    then have "0 \<le> n * Millisecond" "int64_ok (n * Millisecond)"
      by (auto simp: int64_ok_def maxSleepDuration_def)
    then show ?thesis by (simp add: wrap64_id n_def)
  qed
  then show ?thesis using AFloat assms by (simp add: untilValueToDuration_def)
next
  case (AStr str)
  then show ?thesis
    using assms by (auto simp: untilValueToDuration_def time_sub_def split: option.split)
qed (use assms in \<open>simp_all add: untilValueToDuration_def\<close>)

lemma resolveUntilSleep_nonneg:
  assumes "path \<noteq> []" "0 < now"
  shows "ok_with (\<lambda>d. 0 \<le> d) (resolveUntilSleep parse path input now)"
proof -
  have "ok_with (\<lambda>d. 0 \<le> d) (and_then (map_err (UntilPath path) (ExtractDotPath path input))
      (\<lambda>val. untilValueToDuration parse path val now))" if "\<not> raw_empty input"
    using that assms
    by (intro ok_with_and_then_safe safe_intros untilValueToDuration_nonneg) (auto dest: raw_empty_nil)
  then show ?thesis using assms by (simp add: resolveUntilSleep_def)
qed

lemma checkSleepBound_ok_with: "0 \<le> d \<Longrightarrow> ok_with (\<lambda>_. d \<le> maxSleepDuration) (checkSleepBound d)"
  by (simp add: checkSleepBound_def)

lemma ResolveSleepDuration_bounds:
  assumes "0 < now"
  shows "ok_with (\<lambda>d. 0 \<le> d \<and> d \<le> maxSleepDuration) (ResolveSleepDuration zone parse cfg input now)"
proof -
  let ?pick = "if sc_Cron cfg \<noteq> [] then
       (case CronSleepLocation zone cfg input of
          Panic p \<Rightarrow> Panic p
        | Err e \<Rightarrow> resolveCronSleep (sc_Cron cfg) now utc
        | Ok loc \<Rightarrow> resolveCronSleep (sc_Cron cfg) now loc)
     else if sc_UntilInputPath cfg \<noteq> [] then resolveUntilSleep parse (sc_UntilInputPath cfg) input now
     else if sc_Duration cfg < 0 then Err (SleepCheck (SleepNotPositive (sc_Duration cfg)))
     else Ok (sc_Duration cfg)"
  have cron: "ok_with (\<lambda>d. 0 \<le> d) (resolveCronSleep (sc_Cron cfg) now loc)" if "sc_Cron cfg \<noteq> []" for loc
    using resolveCronSleep_positive [OF that assms] by (rule ok_with_weaken) simp
  have "ok_with (\<lambda>d. 0 \<le> d) ?pick"
  proof (cases "sc_Cron cfg = []")
    case True
    then show ?thesis using resolveUntilSleep_nonneg [OF _ assms] by simp
  next
    case False
    then show ?thesis
      using cron [OF False] CronSleepLocation_safe [OF False, of zone input]
      by (cases "CronSleepLocation zone cfg input") simp_all
  qed
  moreover have "ok_with (\<lambda>d. 0 \<le> d \<and> d \<le> maxSleepDuration)
      (and_then (map_err SleepCheck (checkSleepBound d)) (\<lambda>_. Ok d))" if "0 \<le> d" for d
    using checkSleepBound_ok_with [OF that] that
    by (intro ok_with_and_then [where P = "\<lambda>_. d \<le> maxSleepDuration"]) auto
  ultimately have "ok_with (\<lambda>d. 0 \<le> d \<and> d \<le> maxSleepDuration)
      (and_then ?pick (\<lambda>d. and_then (map_err SleepCheck (checkSleepBound d)) (\<lambda>_. Ok d)))"
    by (rule ok_with_and_then)
  then show ?thesis
    using assms checkCronZoneFields_safe [of cfg] unfolding ResolveSleepDuration_def
    by (cases "checkCronZoneFields cfg") simp_all
qed

section \<open>Properties\<close>

text \<open>Whatever the sleep config, the run input and the tz database, resolving a sleep at
  a real instant never panics, and a resolved delay is neither negative nor longer than the
  maximum of 365 days, so that nothing the timer is given overflows.\<close>

theorem sleep_delay_bounded:
  assumes "0 < now"
  shows "\<not> is_panic (ResolveSleepDuration loadLocation parseRFC3339 cfg input now)
    \<and> (ResolveSleepDuration loadLocation parseRFC3339 cfg input now = Ok d \<longrightarrow>
         0 \<le> d \<and> d \<le> maxSleepDuration)"
  using ResolveSleepDuration_bounds [OF assms, of loadLocation parseRFC3339 cfg input]
  unfolding ok_with_conv by blast

theorem sleep_delay_bounded_witness:
  "let cfg = \<lparr>sc_Duration = 0, sc_Cron = [], sc_UntilInputPath = ''ms'', sc_CronTimezone = [],
              sc_CronTimezoneInputPath = []\<rparr>;
       d = ResolveSleepDuration (\<lambda>_. None) (\<lambda>_. None) cfg (RJson (JObj [(''ms'', JInt 1500)])) (10 ^ 18)
   in d = Ok 1500000000 \<and> \<not> is_panic d"
proof -
  have "(0::int) < 10 ^ 18" by simp
  note bound = sleep_delay_bounded [OF this, of "\<lambda>_. None" "\<lambda>_. None"
      "\<lparr>sc_Duration = 0, sc_Cron = [], sc_UntilInputPath = ''ms'', sc_CronTimezone = [],
        sc_CronTimezoneInputPath = []\<rparr>" "RJson (JObj [(''ms'', JInt 1500)])" 1500000000]
  then show ?thesis
    by (simp add: ResolveSleepDuration_def formCount_def checkCronZoneFields_def resolveUntilSleep_def
        ExtractDotPath_def raw_empty_def unmarshal_any_def int_to_float_small untilValueToDuration_def
        maxSleepDuration_def checkSleepBound_def wrap64_def)
qed

text \<open>A sleep step of the fixed-duration form that passed validation sleeps at dispatch for
  exactly the configured duration, whatever the run input.\<close>

theorem validated_sleep_resolves:
  assumes "validateSleepStep loadLocation step = Ok ()" "ParseSleepConfig step = Ok cfg"
    and "sc_Cron cfg = []" "sc_UntilInputPath cfg = []" "sd_Type step = StepTypeSleep" "now \<noteq> 0"
  shows "ResolveSleepDuration loadLocation parseRFC3339 cfg input now = Ok (sc_Duration cfg)
    \<and> 0 < sc_Duration cfg"
proof -
  have "formCount cfg = 1" "checkCronZoneFields cfg = Ok ()"
    using assms(2) by (auto simp: ParseSleepConfig_def and_then_eq_Ok split: if_splits)
  moreover have "0 < sc_Duration cfg" "checkSleepBound (sc_Duration cfg) = Ok ()"
    using assms by (auto simp: validateSleepStep_def split: if_splits)
  ultimately show ?thesis using assms(3,4,6) by (simp add: ResolveSleepDuration_def)
qed

theorem validated_sleep_resolves_witness:
  "let step = zero_StepDef\<lparr>sd_ID := ''nap'', sd_Type := StepTypeSleep,
                 sd_Config := RJson (JObj [(''duration'', JStr ''90s'')])\<rparr>
   in \<exists>cfg. ParseSleepConfig step = Ok cfg
        \<and> ResolveSleepDuration (\<lambda>_. None) (\<lambda>_. None) cfg RNil 1 = Ok (90 * Second)"
proof -
  let ?step = "zero_StepDef\<lparr>sd_ID := ''nap'', sd_Type := StepTypeSleep,
                 sd_Config := RJson (JObj [(''duration'', JStr ''90s'')])\<rparr>"
  let ?cfg = "\<lparr>sc_Duration = 90 * Second, sc_Cron = [], sc_UntilInputPath = [],
               sc_CronTimezone = [], sc_CronTimezoneInputPath = []\<rparr>"
  have p: "ParseSleepConfig ?step = Ok ?cfg"
    by (simp add: ParseSleepConfig_def parse_config_def unmarshal_struct_def dec_SleepConfig_def
        dec_field_def to_lower_def to_lower_char_def dec_duration_def ParseDuration_def is_digit_def
        duration_units_def digits_val_def formCount_def checkCronZoneFields_def Let_def)
  have v: "validateSleepStep (\<lambda>_. None) ?step = Ok ()"
    using p by (simp add: validateSleepStep_def checkSleepBound_def maxSleepDuration_def zero_StepDef_def)
  show ?thesis using validated_sleep_resolves [OF v p, of 1 "\<lambda>_. None" RNil] p by auto
qed

end
