(* ===== verification/Dag_Schema.thy ===== *)
theory Dag_Schema
  imports Dag_Config
begin

text \<open>
  The JSON Schema subset of src/dag/schema.go and the check of a run's final output against the
  workflow's output schema (src/dag/output_schema.go).
\<close>

section \<open>Schemas\<close>

datatype schemaNode = SchemaNode (sn_Type: string) (sn_Required: "string list")
  (sn_Properties: "(string \<times> schemaNode) list")

datatype schema_error =
    InvalidSchema
  | InvalidData
  | MissingRequired string string
  | ExpectedType string string string

text \<open>Decoding of a schema: \<open>dec_props\<close> decodes the value of a \<open>properties\<close> member.\<close>

fun dec_schema :: "json \<Rightarrow> schemaNode option"
and dec_props :: "json \<Rightarrow> (string \<times> schemaNode) list option" where
  "dec_schema JNull = Some (SchemaNode [] [] [])"
| "dec_schema (JObj kvs) =
     (let props = map (\<lambda>kv. (fst kv, dec_props (snd kv))) kvs;
          own = filter (\<lambda>kp. to_lower (fst kp) = ''properties'') props
      in Option.bind (dec_field ''type'' dec_str [] kvs) (\<lambda>ty.
         Option.bind (dec_field ''required'' dec_string_list [] kvs) (\<lambda>req.
           if list_ex (\<lambda>kp. snd kp = None) own then None
           else Some (SchemaNode ty req (if own = [] then [] else the (snd (last own)))))))"
| "dec_schema _ = None"
| "dec_props JNull = Some []"
| "dec_props (JObj kvs) =
     (let nodes = map (\<lambda>kv. (fst kv, dec_schema (snd kv))) kvs
      in if list_ex (\<lambda>kn. snd kn = None) nodes then None
         else Some (AList.clearjunk (rev (map (\<lambda>kn. (fst kn, the (snd kn))) nodes))))"
| "dec_props _ = None"

definition jsonType :: "any \<Rightarrow> string" where
  "jsonType v =
     (case v of
        AStr _ \<Rightarrow> ''string'' | AFloat _ \<Rightarrow> ''number'' | ABool _ \<Rightarrow> ''boolean''
      | AMap _ \<Rightarrow> ''object'' | AArr _ \<Rightarrow> ''array'' | ANil \<Rightarrow> ''null'' | _ \<Rightarrow> ''unknown'')"

definition checkType :: "string \<Rightarrow> any \<Rightarrow> string \<Rightarrow> schema_error checked" where
  "checkType expected val path =
     check (jsonType val \<noteq> expected)
       (ExpectedType (if path = [] then ''(root)'' else path) expected (jsonType val))"

fun validateNode :: "schemaNode \<Rightarrow> any \<Rightarrow> string \<Rightarrow> schema_error checked" where
  "validateNode (SchemaNode ty req props) val path =
     chain [if ty \<noteq> [] then checkType ty val path else Ok (),
            (case val of
               AMap obj \<Rightarrow>
                 chain [for_each (\<lambda>key. check (\<not> mhas obj key) (MissingRequired path key)) req,
                        chain (map (\<lambda>kp.
                          (case map_of obj (fst kp) of
                             None \<Rightarrow> Ok ()
                           | Some v \<Rightarrow> validateNode (snd kp) v
                               (if path = [] then fst kp else path @ ''.'' @ fst kp))) props)]
             | _ \<Rightarrow> Ok ())]"

definition ValidateSchema :: "raw \<Rightarrow> raw \<Rightarrow> schema_error checked" where
  "ValidateSchema schema data =
     (case schema of
        RNil \<Rightarrow> Ok ()
      | RBad _ \<Rightarrow> Err InvalidSchema
      | RJson js \<Rightarrow>
        (case dec_schema js of
           None \<Rightarrow> Err InvalidSchema
         | Some s \<Rightarrow>
           (case unmarshal_any data of
              None \<Rightarrow> Err InvalidData
            | Some v \<Rightarrow> validateNode s v [])))"

section \<open>Run output\<close>

definition dependents_of :: "StepDef list \<Rightarrow> bool gomap" where
  "dependents_of steps = fold (\<lambda>step m. fold (\<lambda>dep. mput dep True) (sd_DependsOn step) m) steps []"

fun check_outputs :: "raw \<Rightarrow> bool gomap \<Rightarrow> StepState gomap \<Rightarrow> StepDef list \<Rightarrow> string \<times> schema_error checked" where
  "check_outputs schema hasDependents steps [] = ([], Ok ())"
| "check_outputs schema hasDependents steps (step # rest) =
     (let state = step_of steps (sd_ID step) in
      if bget hasDependents (sd_ID step) \<or> ss_Status state \<noteq> StepStatusCompleted \<or> raw_empty (ss_Output state)
      then check_outputs schema hasDependents steps rest
      else
        (case ValidateSchema schema (ss_Output state) of
           Ok _ \<Rightarrow> check_outputs schema hasDependents steps rest
         | err \<Rightarrow> (sd_ID step, err)))"

definition ValidateRunOutput :: "WorkflowDef \<Rightarrow> StepState gomap \<Rightarrow> string \<times> schema_error checked" where
  "ValidateRunOutput def steps =
     (if raw_empty (wd_OutputSchema def) then ([], Ok ())
      else check_outputs (wd_OutputSchema def) (dependents_of (wd_Steps def)) steps (wd_Steps def))"

section \<open>Conformance\<close>

text \<open>The reference: a value conforms to a schema when its type is the named one, an object has
  every required field, and the fields it has conform to their schemas.\<close>

fun conforms :: "schemaNode \<Rightarrow> any \<Rightarrow> bool" where
  "conforms (SchemaNode ty req props) val =
     ((ty = [] \<or> jsonType val = ty)
      \<and> (case val of
           AMap obj \<Rightarrow> (\<forall>key \<in> set req. mhas obj key)
             \<and> (\<forall>kp \<in> set props. case map_of obj (fst kp) of None \<Rightarrow> True | Some v \<Rightarrow> conforms (snd kp) v)
         | _ \<Rightarrow> True))"

lemma validateNode_conforms: "validateNode s v path = Ok () \<longleftrightarrow> conforms s v"
proof (induction s v path rule: validateNode.induct)
  case (1 ty req props v path)
  show ?case
  proof (cases v)
    case (AMap obj)
    have "(case map_of obj (fst kp) of None \<Rightarrow> Ok () | Some v \<Rightarrow> validateNode (snd kp) v
             (if path = [] then fst kp else path @ ''.'' @ fst kp)) = Ok ()
        \<longleftrightarrow> (case map_of obj (fst kp) of None \<Rightarrow> True | Some v \<Rightarrow> conforms (snd kp) v)"
      if "kp \<in> set props" for kp
      using 1 [OF AMap that] by (cases "map_of obj (fst kp)") auto
    then show ?thesis using AMap by (auto simp: checkType_def)
  qed (auto simp: checkType_def)
qed

lemma validateNode_safe: "safe (validateNode s v path)"
proof (induction s v path rule: validateNode.induct)
  case (1 ty req props v path)
  show ?case
  proof (cases v)
    case (AMap obj)
    have "safe (case map_of obj (fst kp) of None \<Rightarrow> Ok () | Some v \<Rightarrow> validateNode (snd kp) v
             (if path = [] then fst kp else path @ ''.'' @ fst kp))" if "kp \<in> set props" for kp
      using 1 [OF AMap that] by (cases "map_of obj (fst kp)") auto
    then show ?thesis using AMap
      by (auto simp: checkType_def intro!: safe_chain safe_for_each)
  qed (auto simp: checkType_def intro!: safe_chain)
qed

lemma ValidateSchema_safe [safe_intros]: "safe (ValidateSchema schema data)"
  by (simp add: ValidateSchema_def validateNode_safe split: raw.split option.split)

lemma ValidateSchema_Ok:
  "ValidateSchema schema data = Ok () \<longleftrightarrow>
     schema = RNil \<or> (\<exists>js s d. schema = RJson js \<and> dec_schema js = Some s \<and> data = RJson d
                        \<and> conforms s (any_of_json d))"
  by (auto simp: ValidateSchema_def unmarshal_any_def validateNode_conforms split: raw.splits option.splits)

lemma dependents_of_iff: "bget (dependents_of steps) x \<longleftrightarrow> (\<exists>s \<in> set steps. x \<in> set (sd_DependsOn s))"
proof -
  have inner: "bget (fold (\<lambda>dep. mput dep True) ds m) x \<longleftrightarrow> x \<in> set ds \<or> bget m x" for ds m
    by (induction ds arbitrary: m) (auto simp: bget_update)
  have "bget (fold (\<lambda>step m. fold (\<lambda>dep. mput dep True) (sd_DependsOn step) m) steps m) x
      \<longleftrightarrow> (\<exists>s \<in> set steps. x \<in> set (sd_DependsOn s)) \<or> bget m x" for m
    by (induction steps arbitrary: m) (auto simp: inner)
  then show ?thesis by (simp add: dependents_of_def bget_Nil)
qed

text \<open>The steps whose output is part of the run's final output.\<close>

definition final_output_step :: "WorkflowDef \<Rightarrow> StepState gomap \<Rightarrow> StepDef \<Rightarrow> bool" where
  "final_output_step def steps s =
     (s \<in> set (wd_Steps def) \<and> (\<forall>r \<in> set (wd_Steps def). sd_ID s \<notin> set (sd_DependsOn r))
      \<and> ss_Status (step_of steps (sd_ID s)) = StepStatusCompleted
      \<and> \<not> raw_empty (ss_Output (step_of steps (sd_ID s))))"

lemma check_outputs_Ok:
  "snd (check_outputs schema deps steps ss) = Ok () \<longleftrightarrow>
     (\<forall>s \<in> set ss. \<not> bget deps (sd_ID s) \<longrightarrow> ss_Status (step_of steps (sd_ID s)) = StepStatusCompleted \<longrightarrow>
        \<not> raw_empty (ss_Output (step_of steps (sd_ID s))) \<longrightarrow>
        ValidateSchema schema (ss_Output (step_of steps (sd_ID s))) = Ok ())"
  by (induction ss) (auto simp: Let_def split: res.split)

lemma check_outputs_fail:
  "snd (check_outputs schema deps steps ss) \<noteq> Ok () \<Longrightarrow>
     \<exists>s \<in> set ss. \<not> bget deps (sd_ID s) \<and> ss_Status (step_of steps (sd_ID s)) = StepStatusCompleted
       \<and> \<not> raw_empty (ss_Output (step_of steps (sd_ID s)))
       \<and> check_outputs schema deps steps ss
           = (sd_ID s, ValidateSchema schema (ss_Output (step_of steps (sd_ID s))))"
  by (induction ss) (auto simp: Let_def split: res.splits if_splits)

section \<open>Properties\<close>

text \<open>C24: the schema checker decides conformance: it accepts a document exactly when the
  document conforms to the decoded schema, whatever path it reports errors at, and never panics.\<close>

theorem ValidateSchema_decides_conformance:
  "(ValidateSchema (RJson js) (RJson d) = Ok () \<longleftrightarrow> (\<exists>s. dec_schema js = Some s \<and> conforms s (any_of_json d)))
   \<and> \<not> is_panic (ValidateSchema (RJson js) (RJson d))"
  using ValidateSchema_safe by (auto simp: ValidateSchema_Ok safe_iff)

text \<open>A run passes the output check exactly when every step nothing depends on, that
  completed with an output, has an output that passes the schema; when the check fails, the step it
  names is such a step and its output is the one that fails.\<close>

theorem ValidateRunOutput_spec:
  assumes "\<not> raw_empty (wd_OutputSchema def)"
  shows "(snd (ValidateRunOutput def steps) = Ok () \<longleftrightarrow>
      (\<forall>s. final_output_step def steps s \<longrightarrow>
         ValidateSchema (wd_OutputSchema def) (ss_Output (step_of steps (sd_ID s))) = Ok ()))
    \<and> (snd (ValidateRunOutput def steps) \<noteq> Ok () \<longrightarrow>
      (\<exists>s. final_output_step def steps s \<and> ValidateRunOutput def steps
         = (sd_ID s, ValidateSchema (wd_OutputSchema def) (ss_Output (step_of steps (sd_ID s))))))"
proof -
  have eq: "ValidateRunOutput def steps
      = check_outputs (wd_OutputSchema def) (dependents_of (wd_Steps def)) steps (wd_Steps def)"
    using assms by (simp add: ValidateRunOutput_def)
  have fin: "final_output_step def steps s \<longleftrightarrow> s \<in> set (wd_Steps def)
      \<and> \<not> bget (dependents_of (wd_Steps def)) (sd_ID s)
      \<and> ss_Status (step_of steps (sd_ID s)) = StepStatusCompleted
      \<and> \<not> raw_empty (ss_Output (step_of steps (sd_ID s)))" for s
    by (auto simp: final_output_step_def dependents_of_iff)
  show ?thesis
    unfolding eq fin
    using check_outputs_fail [of "wd_OutputSchema def" "dependents_of (wd_Steps def)" steps "wd_Steps def"]
      check_outputs_Ok [of "wd_OutputSchema def" "dependents_of (wd_Steps def)" steps "wd_Steps def"]
    by blast
qed

theorem ValidateRunOutput_spec_witness:
  "let def = zero_WorkflowDef\<lparr>wd_Steps := [zero_StepDef\<lparr>sd_ID := ''a''\<rparr>],
               wd_OutputSchema := RJson (JObj [(''type'', JStr ''object'')])\<rparr>;
       steps = [(''a'', zero_StepState\<lparr>ss_Status := StepStatusCompleted, ss_Output := RJson (JBool True)\<rparr>)]
   in snd (ValidateRunOutput def steps) \<noteq> Ok () \<and> (\<exists>s. final_output_step def steps s)"
proof -
  let ?def = "zero_WorkflowDef\<lparr>wd_Steps := [zero_StepDef\<lparr>sd_ID := ''a''\<rparr>],
               wd_OutputSchema := RJson (JObj [(''type'', JStr ''object'')])\<rparr>"
  let ?steps = "[(''a'', zero_StepState\<lparr>ss_Status := StepStatusCompleted, ss_Output := RJson (JBool True)\<rparr>)]"
  have "\<not> raw_empty (wd_OutputSchema ?def)" by (simp add: raw_empty_def)
  note spec = ValidateRunOutput_spec [OF this, of ?steps]
  have "snd (ValidateRunOutput ?def ?steps) \<noteq> Ok ()"
    by (simp add: ValidateRunOutput_def raw_empty_def dependents_of_def zero_StepDef_def mget_Cons bget_Nil
        ValidateSchema_def dec_field_def to_lower_def to_lower_char_def dec_str_def unmarshal_any_def
        checkType_def jsonType_def check_def)
  with spec show ?thesis by auto
qed

end
