(* ===== verification/Dag_Graph.thy ===== *)
theory Dag_Graph
  imports Dag_Types "HOL-Library.Multiset"
begin

text \<open>
  The graph algorithms of package \<open>dag\<close>: cycle detection by Kahn's algorithm
  (src/dag/validate.go), the longest dependency chain (src/dag/dynamic.go) and the ancestor
  closure (src/dag/validate_respond.go). Each is shown to compute its mathematical counterpart:
  acyclicity, the maximal length of a chain, reachability along dependencies. Go iterates a map in
  an arbitrary order; here it is the order of the association list, and the lemmas on the loops
  assume nothing about it.
\<close>

section \<open>Kahn's algorithm\<close>

text \<open>The first loop of \<open>detectCycle\<close> and \<open>maxChainDepth\<close>: in-degrees and dependents.\<close>

definition add_edges :: "StepDef \<Rightarrow> int gomap \<times> string list gomap \<Rightarrow> int gomap \<times> string list gomap" where
  "add_edges s acc =
     fold (\<lambda>dep (deg, adj).
         (mput (sd_ID s) (mget 0 deg (sd_ID s) + 1) deg,
          mput dep (mget [] adj dep @ [sd_ID s]) adj))
       (sd_DependsOn s)
       (if mhas (fst acc) (sd_ID s) then fst acc else mput (sd_ID s) 0 (fst acc), snd acc)"

definition degrees :: "StepDef list \<Rightarrow> int gomap \<times> string list gomap" where
  "degrees steps = fold add_edges steps ([], [])"

text \<open>The inner loop over the dependents of a visited node.\<close>

fun relax :: "string list \<Rightarrow> int gomap \<Rightarrow> string list \<Rightarrow> int gomap \<times> string list" where
  "relax [] deg queue = (deg, queue)"
| "relax (d # ds) deg queue =
     (let deg' = mput d (mget 0 deg d - 1) deg;
          queue' = (if mget 0 deg' d = 0 then queue @ [d] else queue)
      in relax ds deg' queue')"

definition positive :: "int gomap \<Rightarrow> string set" where
  "positive deg = {k. mget 0 deg k > 0}"

lemma finite_positive [simp]: "finite (positive deg)"
proof (rule finite_subset)
  show "positive deg \<subseteq> mdom deg"
    using mget_absent by (fastforce simp: positive_def)
qed simp

lemma relax_measure:
  "length (snd (relax ds deg queue)) + card (positive (fst (relax ds deg queue)))
     \<le> length queue + card (positive deg)"
proof (induction ds arbitrary: deg queue)
  case (Cons d ds)
  define deg' where "deg' = mput d (mget 0 deg d - 1) deg"
  have sub: "positive deg' \<subseteq> positive deg"
    by (auto simp: positive_def deg'_def mget_update split: if_splits)
  have le: "card (positive deg') \<le> card (positive deg)"
    using sub by (simp add: card_mono)
  have lt: "card (positive deg') < card (positive deg)" if "mget 0 deg' d = 0"
  proof (rule psubset_card_mono)
    have "d \<in> positive deg" "d \<notin> positive deg'"
      using that by (auto simp: positive_def deg'_def mget_update)
    then show "positive deg' \<subset> positive deg" using sub by blast
  qed simp
  show ?case
    using Cons.IH [of deg' "queue @ [d]"] Cons.IH [of deg' queue] le lt
    by (auto simp: deg'_def [symmetric] Let_def)
qed simp

function kahn :: "string list gomap \<Rightarrow> string list \<Rightarrow> int gomap \<Rightarrow> nat \<Rightarrow> nat" where
  "kahn adj [] deg visited = visited"
| "kahn adj (node # queue) deg visited =
     kahn adj (snd (relax (mget [] adj node) deg queue)) (fst (relax (mget [] adj node) deg queue))
       (Suc visited)"
  by pat_completeness auto
termination
proof (relation "measure (\<lambda>(adj, queue, deg, visited). length queue + card (positive deg))", goal_cases)
  case (2 adj node queue deg visited)
  then show ?case using relax_measure [of "mget [] adj node" deg queue] by simp
qed simp

definition zero_nodes :: "int gomap \<Rightarrow> string list" where
  "zero_nodes deg = map fst (filter (\<lambda>(k, d). d = 0) deg)"

datatype cycle_error = ContainsCycle nat nat

definition detectCycle :: "StepDef list \<Rightarrow> cycle_error checked" where
  "detectCycle steps =
     (let (deg, adj) = degrees steps;
          visited = kahn adj (zero_nodes deg) deg 0
      in check (visited \<noteq> length steps) (ContainsCycle visited (length steps)))"

section \<open>Longest chain\<close>

text \<open>\<open>maxChainDepth\<close> runs the same loop and carries the depth of each node.\<close>

fun relax_depth :: "string \<Rightarrow> string list \<Rightarrow> int gomap \<Rightarrow> int gomap \<Rightarrow> string list \<Rightarrow>
    int gomap \<times> int gomap \<times> string list" where
  "relax_depth node [] deg depth queue = (deg, depth, queue)"
| "relax_depth node (c # cs) deg depth queue =
     (let deg' = mput c (mget 0 deg c - 1) deg;
          childDepth = mget 0 depth node + 1;
          depth' = (if childDepth > mget 0 depth c then mput c childDepth depth else depth);
          queue' = (if mget 0 deg' c = 0 then queue @ [c] else queue)
      in relax_depth node cs deg' depth' queue')"

definition raise_depth :: "string \<Rightarrow> string list \<Rightarrow> int gomap \<Rightarrow> int gomap" where
  "raise_depth node cs depth =
     fold (\<lambda>c depth. if mget 0 depth node + 1 > mget 0 depth c
                     then mput c (mget 0 depth node + 1) depth else depth) cs depth"

lemma relax_depth_eq:
  "relax_depth node cs deg depth queue
     = (fst (relax cs deg queue), raise_depth node cs depth, snd (relax cs deg queue))"
  by (induction cs arbitrary: deg depth queue) (simp_all add: raise_depth_def Let_def)

function chain_loop :: "string list gomap \<Rightarrow> string list \<Rightarrow> int gomap \<Rightarrow> int gomap \<Rightarrow> int \<Rightarrow> int" where
  "chain_loop adj [] deg depth maxDepth = maxDepth"
| "chain_loop adj (node # queue) deg depth maxDepth =
     (let maxDepth' = (if mget 0 depth node > maxDepth then mget 0 depth node else maxDepth);
          st = relax_depth node (mget [] adj node) deg depth queue
      in chain_loop adj (snd (snd st)) (fst st) (fst (snd st)) maxDepth')"
  by pat_completeness auto
termination
proof (relation "measure (\<lambda>(adj, queue, deg, depth, m). length queue + card (positive deg))", goal_cases)
  case (2 adj node queue deg depth m x xa)
  then show ?case using relax_measure [of "mget [] adj node" deg queue] by (simp add: relax_depth_eq)
qed simp

definition maxChainDepth :: "StepDef list \<Rightarrow> ('e, int) res" where
  "maxChainDepth steps =
     (if steps = [] then Panic ''maxChainDepth''
      else if length steps > 10000 then Panic ''maxChainDepth''
      else let (deg, adj) = degrees steps;
               queue = zero_nodes deg
           in Ok (chain_loop adj queue deg (map (\<lambda>k. (k, 1)) queue) 0))"

section \<open>Ancestors\<close>

definition indexSteps :: "StepDef list \<Rightarrow> StepDef gomap" where
  "indexSteps steps = fold (\<lambda>s m. mput (sd_ID s) s m) steps []"

definition unvisited :: "StepDef gomap \<Rightarrow> bool gomap \<Rightarrow> string set" where
  "unvisited steps visited = {k \<in> mdom steps. \<not> bget visited k}"

function closure_loop :: "StepDef gomap \<Rightarrow> bool gomap \<Rightarrow> string list \<Rightarrow> bool gomap" where
  "closure_loop steps visited [] = visited"
| "closure_loop steps visited (x # queue) =
     (if bget visited x then closure_loop steps visited queue
      else let visited' = mput x True visited in
        case map_of steps x of
          None \<Rightarrow> closure_loop steps visited' queue
        | Some step \<Rightarrow>
            closure_loop steps visited' (queue @ filter (\<lambda>dep. \<not> bget visited' dep) (sd_DependsOn step)))"
  by pat_completeness auto

lemma unvisited_mono:
  "finite (unvisited steps visited)"
  "card (unvisited steps (mput x True visited)) \<le> card (unvisited steps visited)"
  "map_of steps x = Some s \<Longrightarrow> \<not> bget visited x \<Longrightarrow>
     card (unvisited steps (mput x True visited)) < card (unvisited steps visited)"
proof -
  show fin: "finite (unvisited steps visited)" by (simp add: unvisited_def)
  have sub: "unvisited steps (mput x True visited) \<subseteq> unvisited steps visited"
    by (auto simp: unvisited_def bget_update split: if_splits)
  then show "card (unvisited steps (mput x True visited)) \<le> card (unvisited steps visited)"
    by (rule card_mono [OF fin])
  assume "map_of steps x = Some s" "\<not> bget visited x"
  then have "x \<in> unvisited steps visited" "x \<notin> unvisited steps (mput x True visited)"
    by (auto simp: unvisited_def bget_update dest: map_of_SomeD intro: rev_image_eqI)
  then show "card (unvisited steps (mput x True visited)) < card (unvisited steps visited)"
    using sub fin by (blast intro: psubset_card_mono)
qed

termination closure_loop
proof (relation "measures [\<lambda>(steps, visited, queue). card (unvisited steps visited),
    \<lambda>(steps, visited, queue). length queue]", goal_cases)
  case (3 steps visited x queue y)
  then show ?case using unvisited_mono(2) [of steps x visited] by auto
next
  case (4 steps visited x queue y s)
  then show ?case using unvisited_mono(3) [of steps x s visited] by auto
qed auto

declare closure_loop.simps(2) [simp del]

definition ancestorClosure :: "StepDef gomap \<Rightarrow> string \<Rightarrow> bool gomap" where
  "ancestorClosure steps startID = closure_loop steps [] [startID]"

section \<open>The dependency relation\<close>

abbreviation step_ids :: "StepDef list \<Rightarrow> string list" where
  "step_ids steps \<equiv> map sd_ID steps"

definition deps_of :: "StepDef list \<Rightarrow> string \<Rightarrow> string list" where
  "deps_of steps x = mget [] (map (\<lambda>s. (sd_ID s, sd_DependsOn s)) steps) x"

definition dep_rel :: "StepDef list \<Rightarrow> (string \<times> string) set" where
  "dep_rel steps = {(d, v). d \<in> set (deps_of steps v)}"

definition closed_deps :: "StepDef list \<Rightarrow> bool" where
  "closed_deps steps = (\<forall>s \<in> set steps. set (sd_DependsOn s) \<subseteq> set (step_ids steps))"

lemma deps_of_simps [simp]:
  "deps_of [] x = []"
  "deps_of (s # steps) x = (if x = sd_ID s then sd_DependsOn s else deps_of steps x)"
  by (simp_all add: deps_of_def map_simps)

lemma deps_of_outside: "v \<notin> set (step_ids steps) \<Longrightarrow> deps_of steps v = []"
  by (induction steps) auto

lemma deps_of_step:
  "distinct (step_ids steps) \<Longrightarrow> s \<in> set steps \<Longrightarrow> deps_of steps (sd_ID s) = sd_DependsOn s"
  by (induction steps) (auto intro: rev_image_eqI)

lemma deps_of_cases: "deps_of steps v = [] \<or> (\<exists>s \<in> set steps. sd_ID s = v \<and> deps_of steps v = sd_DependsOn s)"
  by (induction steps) auto

lemma deps_of_snoc:
  "deps_of (steps @ [s]) x =
     (if x \<in> set (step_ids steps) then deps_of steps x
      else if x = sd_ID s then sd_DependsOn s else [])"
  by (induction steps) auto

lemma dep_rel_step:
  assumes "distinct (step_ids steps)"
  shows "(d, v) \<in> dep_rel steps \<longleftrightarrow> (\<exists>s \<in> set steps. sd_ID s = v \<and> d \<in> set (sd_DependsOn s))"
  using deps_of_step [OF assms] deps_of_cases [of steps v] unfolding dep_rel_def by force

lemma dep_rel_closed:
  assumes "closed_deps steps"
  shows "dep_rel steps \<subseteq> set (step_ids steps) \<times> set (step_ids steps)"
proof
  fix e assume "e \<in> dep_rel steps"
  then obtain d v where e: "e = (d, v)" "d \<in> set (deps_of steps v)" by (auto simp: dep_rel_def)
  then obtain s where "s \<in> set steps" "sd_ID s = v" "d \<in> set (sd_DependsOn s)"
    using deps_of_cases [of steps v] by auto
  then show "e \<in> set (step_ids steps) \<times> set (step_ids steps)"
    using assms e by (auto simp: closed_deps_def)
qed

lemma finite_dep_rel:
  assumes "closed_deps steps"
  shows "finite (dep_rel steps)"
  by (rule finite_subset [OF dep_rel_closed [OF assms]]) simp

section \<open>Degrees\<close>

lemma add_edges_fold:
  "mget 0 (fst (fold (\<lambda>dep (deg, adj). (mput i (mget 0 deg i + 1) deg, mput dep (mget [] adj dep @ [i]) adj)) ds (deg, adj))) x
     = mget 0 deg x + (if x = i then int (length ds) else 0)"
  "count_list (mget [] (snd (fold (\<lambda>dep (deg, adj). (mput i (mget 0 deg i + 1) deg, mput dep (mget [] adj dep @ [i]) adj)) ds (deg, adj))) u) v
     = count_list (mget [] adj u) v + (if v = i then count_list ds u else 0)"
  "i \<in> mdom deg \<Longrightarrow>
     mdom (fst (fold (\<lambda>dep (deg, adj). (mput i (mget 0 deg i + 1) deg, mput dep (mget [] adj dep @ [i]) adj)) ds (deg, adj))) = mdom deg"
  "distinct (map fst deg) \<Longrightarrow>
     distinct (map fst (fst (fold (\<lambda>dep (deg, adj). (mput i (mget 0 deg i + 1) deg, mput dep (mget [] adj dep @ [i]) adj)) ds (deg, adj))))"
proof (induction ds arbitrary: deg adj)
  case (Cons d ds)
  { case 1 show ?case using Cons(1) by (simp add: mget_update) }
  { case 2 show ?case using Cons(2) by (simp add: mget_update) }
  { case 3 then show ?case using Cons(3) by (simp add: mdom_update insert_absorb) }
  { case 4 then show ?case using Cons(4) by (simp add: distinct_update) }
qed simp_all

lemma add_edges_spec:
  "mget 0 (fst (add_edges s acc)) x = mget 0 (fst acc) x + (if x = sd_ID s then int (length (sd_DependsOn s)) else 0)"
  "count_list (mget [] (snd (add_edges s acc)) u) v
     = count_list (mget [] (snd acc) u) v + (if v = sd_ID s then count_list (sd_DependsOn s) u else 0)"
  "mdom (fst (add_edges s acc)) = insert (sd_ID s) (mdom (fst acc))"
  "distinct (map fst (fst acc)) \<Longrightarrow> distinct (map fst (fst (add_edges s acc)))"
proof -
  let ?d = "if mhas (fst acc) (sd_ID s) then fst acc else mput (sd_ID s) 0 (fst acc)"
  have g: "mget 0 ?d x = mget 0 (fst acc) x"
    by (simp add: mget_update) (simp add: mget_def)
  have dm: "mdom ?d = insert (sd_ID s) (mdom (fst acc))" "sd_ID s \<in> mdom ?d"
    using mhas_iff [of "fst acc" "sd_ID s"] by (auto simp: mdom_update)
  have ds: "distinct (map fst ?d)" if "distinct (map fst (fst acc))"
    using that by (simp add: distinct_update)
  show "mget 0 (fst (add_edges s acc)) x = mget 0 (fst acc) x + (if x = sd_ID s then int (length (sd_DependsOn s)) else 0)"
    unfolding add_edges_def add_edges_fold(1) g ..
  show "count_list (mget [] (snd (add_edges s acc)) u) v
      = count_list (mget [] (snd acc) u) v + (if v = sd_ID s then count_list (sd_DependsOn s) u else 0)"
    unfolding add_edges_def add_edges_fold(2) ..
  show "mdom (fst (add_edges s acc)) = insert (sd_ID s) (mdom (fst acc))"
    unfolding add_edges_def add_edges_fold(3) [OF dm(2)] by (rule dm(1))
  show "distinct (map fst (fst (add_edges s acc)))" if "distinct (map fst (fst acc))"
    unfolding add_edges_def by (rule add_edges_fold(4)) (rule ds [OF that])
qed

lemma degrees_snoc: "degrees (steps @ [s]) = add_edges s (degrees steps)"
  by (simp add: degrees_def)

lemma degrees_dom:
  "mdom (fst (degrees steps)) = set (step_ids steps)" "distinct (map fst (fst (degrees steps)))"
  by (induction steps rule: rev_induct) (auto simp: degrees_snoc add_edges_spec degrees_def [of "[]"])

lemma degrees_spec:
  assumes "distinct (step_ids steps)"
  shows "mget 0 (fst (degrees steps)) x = int (length (deps_of steps x))"
    and "count_list (mget [] (snd (degrees steps)) u) v = count_list (deps_of steps v) u"
  using assms
proof (induction steps rule: rev_induct)
  case Nil
  { case 1 show ?case by (simp add: degrees_def deps_of_def mget_Nil) }
  { case 2 show ?case by (simp add: degrees_def deps_of_def mget_Nil) }
next
  case (snoc s steps)
  { case 1 then show ?case
      using snoc(1) deps_of_outside [of x steps]
      by (auto simp: degrees_snoc add_edges_spec deps_of_snoc) }
  { case 2 then show ?case
      using snoc(2) deps_of_outside [of v steps]
      by (auto simp: degrees_snoc add_edges_spec deps_of_snoc) }
qed

lemma zero_nodes_spec:
  "distinct (map fst deg) \<Longrightarrow> set (zero_nodes deg) = {k \<in> mdom deg. mget 0 deg k = 0}"
  "distinct (map fst deg) \<Longrightarrow> distinct (zero_nodes deg)"
proof -
  assume d: "distinct (map fst deg)"
  then show "set (zero_nodes deg) = {k \<in> mdom deg. mget 0 deg k = 0}"
    by (auto simp: zero_nodes_def mget_def intro: rev_image_eqI)
  show "distinct (zero_nodes deg)"
    using d unfolding zero_nodes_def by (rule distinct_map_filter)
qed

section \<open>The loop of Kahn's algorithm\<close>

lemma relax_degrees: "mget 0 (fst (relax ds deg queue)) v = mget 0 deg v - int (count_list ds v)"
  by (induction ds arbitrary: deg queue) (auto simp: Let_def mget_update)

lemma relax_queue:
  assumes "\<And>v. int (count_list ds v) \<le> mget 0 deg v"
  shows "\<exists>qs. snd (relax ds deg queue) = queue @ qs \<and> distinct qs
           \<and> set qs = {v \<in> set ds. mget 0 deg v = int (count_list ds v)}"
  using assms
proof (induction ds arbitrary: deg queue)
  case (Cons d ds)
  define deg' where "deg' = mput d (mget 0 deg d - 1) deg"
  define queue' where "queue' = (if mget 0 deg' d = 0 then queue @ [d] else queue)"
  have g: "mget 0 deg' v = (if v = d then mget 0 deg d - 1 else mget 0 deg v)" for v
    by (simp add: deg'_def mget_update)
  have "int (count_list ds v) \<le> mget 0 deg' v" for v
    using Cons.prems [of v] by (auto simp: g)
  from Cons.IH [OF this, of queue'] obtain qs where
    qs: "snd (relax ds deg' queue') = queue' @ qs" "distinct qs"
      "set qs = {v \<in> set ds. mget 0 deg' v = int (count_list ds v)}" by blast
  have sel: "snd (relax (d # ds) deg queue) = queue' @ qs"
    using qs(1) by (simp add: Let_def deg'_def queue'_def)
  have tail: "v \<in> set qs \<longleftrightarrow> v \<in> set (d # ds) \<and> mget 0 deg v = int (count_list (d # ds) v)" if "v \<noteq> d" for v
    using that qs(3) by (simp add: g)
  have "\<exists>rs. queue' @ qs = queue @ rs \<and> distinct rs
      \<and> (\<forall>v. v \<in> set rs \<longleftrightarrow> v \<in> set (d # ds) \<and> mget 0 deg v = int (count_list (d # ds) v))"
  proof (cases "mget 0 deg d = 1")
    case True
    then have z: "count_list ds d = 0" using Cons.prems [of d] by simp
    then have "d \<notin> set ds" by (simp add: count_list_0_iff)
    then have "d \<notin> set qs" using qs(3) by simp
    moreover have "v \<in> set (d # qs) \<longleftrightarrow> v \<in> set (d # ds) \<and> mget 0 deg v = int (count_list (d # ds) v)" for v
      using True z tail [of v] by (cases "v = d") simp_all
    ultimately show ?thesis
      using True qs(2) by (intro exI [of _ "d # qs"]) (simp add: queue'_def g)
  next
    case False
    have "d \<in> set qs \<longleftrightarrow> mget 0 deg d = int (count_list (d # ds) d)"
      using False qs(3) count_list_0_iff [of ds d] by (cases "d \<in> set ds") (auto simp: g)
    then have "v \<in> set qs \<longleftrightarrow> v \<in> set (d # ds) \<and> mget 0 deg v = int (count_list (d # ds) v)" for v
      using tail [of v] by (cases "v = d") simp_all
    then show ?thesis
      using False qs(2) by (intro exI [of _ qs]) (simp add: queue'_def g)
  qed
  then show ?case unfolding sel by blast
qed simp

text \<open>The invariant: \<open>P\<close> lists the visited nodes in their order; what remains of a node's degree
  are its dependencies not yet visited; visited and queued are exactly the nodes without any.\<close>

definition topo :: "StepDef list \<Rightarrow> string list \<Rightarrow> bool" where
  "topo steps P = (\<forall>i < length P. set (deps_of steps (P ! i)) \<subseteq> set (take i P))"

definition kahn_inv :: "StepDef list \<Rightarrow> string list \<Rightarrow> string list \<Rightarrow> int gomap \<Rightarrow> bool" where
  "kahn_inv steps P queue deg =
     (distinct (P @ queue) \<and> topo steps P
      \<and> (\<forall>v. mget 0 deg v = int (length (filter (\<lambda>d. d \<notin> set P) (deps_of steps v))))
      \<and> (\<forall>v. v \<in> set (P @ queue) \<longleftrightarrow> v \<in> set (step_ids steps) \<and> mget 0 deg v = 0))"

lemma kahn_invD:
  assumes "kahn_inv steps P queue deg"
  shows "distinct (P @ queue)" "topo steps P"
    "mget 0 deg v = int (length (filter (\<lambda>d. d \<notin> set P) (deps_of steps v)))"
    "v \<in> set (P @ queue) \<longleftrightarrow> v \<in> set (step_ids steps) \<and> mget 0 deg v = 0"
  using assms unfolding kahn_inv_def by (blast, blast, blast, blast)

lemma kahn_inv_init:
  assumes "distinct (step_ids steps)"
  shows "kahn_inv steps [] (zero_nodes (fst (degrees steps))) (fst (degrees steps))"
  unfolding kahn_inv_def
  using zero_nodes_spec [OF degrees_dom(2), of steps] degrees_dom(1) [of steps] degrees_spec(1) [OF assms]
  by (auto simp: topo_def)

lemma length_filter_insert:
  "x \<notin> S \<Longrightarrow> length (filter (\<lambda>d. d \<notin> S) ds)
     = length (filter (\<lambda>d. d \<notin> insert x S) ds) + count_list ds x"
  by (induction ds) auto

lemma kahn_inv_deps: "kahn_inv steps P queue deg \<Longrightarrow> v \<in> set (P @ queue) \<Longrightarrow> set (deps_of steps v) \<subseteq> set P"
  unfolding kahn_inv_def by (fastforce simp: filter_empty_conv)

lemma topo_snoc: "topo steps P \<Longrightarrow> set (deps_of steps v) \<subseteq> set P \<Longrightarrow> topo steps (P @ [v])"
  by (auto simp: topo_def nth_append less_Suc_eq)

lemma kahn_inv_step:
  assumes dist: "distinct (step_ids steps)" and inv: "kahn_inv steps P (node # queue) deg"
    and adj: "adj = snd (degrees steps)"
  shows "kahn_inv steps (P @ [node]) (snd (relax (mget [] adj node) deg queue))
           (fst (relax (mget [] adj node) deg queue))"
proof -
  let ?ds = "mget [] adj node"
  have cnt: "count_list ?ds v = count_list (deps_of steps v) node" for v
    using degrees_spec(2) [OF dist] adj by simp
  have node: "node \<notin> set P" "node \<notin> set queue" and dq: "distinct (P @ queue)"
    and deg: "\<And>v. mget 0 deg v = int (length (filter (\<lambda>d. d \<notin> set P) (deps_of steps v)))"
    and zero: "\<And>v. v \<in> set (P @ node # queue) \<longleftrightarrow> v \<in> set (step_ids steps) \<and> mget 0 deg v = 0"
    and tp: "topo steps P"
    using inv unfolding kahn_inv_def by auto
  have split: "mget 0 deg v = int (length (filter (\<lambda>d. d \<notin> insert node (set P)) (deps_of steps v)))
      + int (count_list ?ds v)" for v
    unfolding deg cnt length_filter_insert [OF node(1)] by simp
  obtain qs where qs: "snd (relax ?ds deg queue) = queue @ qs" "distinct qs"
      "set qs = {v \<in> set ?ds. mget 0 deg v = int (count_list ?ds v)}"
    using relax_queue [of ?ds deg queue] split by auto
  have deg': "mget 0 (fst (relax ?ds deg queue)) v
      = int (length (filter (\<lambda>d. d \<notin> set (P @ [node])) (deps_of steps v)))" for v
    unfolding relax_degrees using split [of v] by (simp add: insert_commute)
  have ids: "v \<in> set (step_ids steps)" if "v \<in> set ?ds" for v
    using that cnt [of v] deps_of_outside [of v steps] by (metis count_list_0_iff count_list.simps(1))
  have new: "v \<in> set qs \<longleftrightarrow> v \<in> set (step_ids steps) \<and> mget 0 deg v \<noteq> 0
      \<and> mget 0 (fst (relax ?ds deg queue)) v = 0" for v
    unfolding qs(3) relax_degrees using ids by (auto simp: count_list_0_iff)
  have old: "mget 0 (fst (relax ?ds deg queue)) v = 0" if "mget 0 deg v = 0" for v
    unfolding relax_degrees using that split [of v] by linarith
  have "topo steps (P @ [node])"
    using topo_snoc [OF tp] kahn_inv_deps [OF inv, of node] by simp
  moreover have "distinct ((P @ [node]) @ queue @ qs)"
    using dq node qs(2) new zero by auto
  moreover have "v \<in> set ((P @ [node]) @ queue @ qs) \<longleftrightarrow>
      v \<in> set (step_ids steps) \<and> mget 0 (fst (relax ?ds deg queue)) v = 0" for v
    using new [of v] zero [of v] old [of v] by auto
  ultimately show ?thesis unfolding kahn_inv_def qs(1) using deg' by blast
qed

lemma kahn_result:
  assumes "distinct (step_ids steps)" "kahn_inv steps P queue deg" "adj = snd (degrees steps)"
  shows "\<exists>P' deg'. kahn_inv steps P' [] deg' \<and> kahn adj queue deg (length P) = length P'"
  using assms(2,3)
proof (induction adj queue deg "length P" arbitrary: P rule: kahn.induct)
  case (2 adj node queue deg)
  show ?case
    using 2(1) [of "P @ [node]"] kahn_inv_step [OF assms(1) 2(2,3)] 2(3) by simp
qed auto

lemma topo_acyclic:
  assumes tp: "topo steps P" and dP: "distinct P" and all: "set (step_ids steps) \<subseteq> set P"
  shows "acyclic (dep_rel steps)"
proof -
  define pos where "pos v = length (takeWhile (\<lambda>x. x \<noteq> v) P)" for v
  have pos: "pos (P ! i) = i" if "i < length P" for i
  proof -
    have "takeWhile (\<lambda>x. x \<noteq> P ! i) P = take i P"
      using that dP by (intro takeWhile_eq_take_P_nth) (auto simp: nth_eq_iff_index_eq)
    then show ?thesis using that by (simp add: pos_def)
  qed
  have "dep_rel steps \<subseteq> measure pos"
  proof
    fix e assume "e \<in> dep_rel steps"
    then obtain d v where e: "e = (d, v)" "d \<in> set (deps_of steps v)" by (auto simp: dep_rel_def)
    then have "v \<in> set P" using deps_of_outside [of v steps] all by fastforce
    then obtain i where i: "i < length P" "v = P ! i" by (auto simp: in_set_conv_nth)
    then have "d \<in> set (take i P)" using tp e by (auto simp: topo_def)
    then obtain j where "j < i" "d = P ! j" by (auto simp: in_set_conv_nth)
    then show "e \<in> measure pos" using pos i e by simp
  qed
  then show ?thesis by (blast intro: wf_acyclic wf_subset wf_measure)
qed

lemma acyclic_all_visited:
  assumes ac: "acyclic (dep_rel steps)" and cl: "closed_deps steps" and inv: "kahn_inv steps P [] deg"
  shows "set P = set (step_ids steps)"
proof
  show "set P \<subseteq> set (step_ids steps)" using kahn_invD(4) [OF inv] by auto
  have "wf (dep_rel steps)" using finite_dep_rel [OF cl] ac by (rule finite_acyclic_wf)
  then have "v \<in> set (step_ids steps) \<longrightarrow> v \<in> set P" for v
  proof (induction v rule: wf_induct_rule)
    case (less v)
    have "d \<in> set P" if "d \<in> set (deps_of steps v)" for d
    proof -
      have e: "(d, v) \<in> dep_rel steps" using that by (simp add: dep_rel_def)
      have "d \<in> set (step_ids steps)" by (rule SigmaD1 [OF subsetD [OF dep_rel_closed [OF cl] e]])
      then show ?thesis using less [OF e] by (rule rev_mp)
    qed
    then have "filter (\<lambda>d. d \<notin> set P) (deps_of steps v) = []" by (simp add: filter_empty_conv)
    then have "mget 0 deg v = 0" using kahn_invD(3) [OF inv, of v] by simp
    then show ?case using kahn_invD(4) [OF inv, of v] by simp
  qed
  then show "set (step_ids steps) \<subseteq> set P" by blast
qed

lemma kahn_final:
  assumes dist: "distinct (step_ids steps)" and cl: "closed_deps steps" and inv: "kahn_inv steps P [] deg"
  shows "length P = length steps \<longleftrightarrow> acyclic (dep_rel steps)"
proof
  have dP: "distinct P" and sub: "set P \<subseteq> set (step_ids steps)" and tp: "topo steps P"
    using kahn_invD(1,2,4) [OF inv] by auto
  show "acyclic (dep_rel steps)" if "length P = length steps"
  proof (rule topo_acyclic [OF tp dP])
    have "card (set P) = card (set (step_ids steps))"
      using that dP dist by (simp add: distinct_card del: set_map)
    then show "set (step_ids steps) \<subseteq> set P"
      using card_subset_eq [OF List.finite_set sub] by blast
  qed
  show "length P = length steps" if "acyclic (dep_rel steps)"
    using acyclic_all_visited [OF that cl inv] distinct_card [OF dP] distinct_card [OF dist]
    by (simp del: set_map)
qed

lemma detectCycle_acyclic:
  assumes dist: "distinct (step_ids steps)" and cl: "closed_deps steps"
  shows "detectCycle steps = Ok () \<longleftrightarrow> acyclic (dep_rel steps)"
proof -
  obtain P deg where "kahn_inv steps P [] deg"
    "kahn (snd (degrees steps)) (zero_nodes (fst (degrees steps))) (fst (degrees steps)) 0 = length P"
    using kahn_result [OF dist kahn_inv_init [OF dist] refl] by auto
  then show ?thesis
    using kahn_final [OF dist cl] by (simp add: detectCycle_def case_prod_beta Let_def)
qed

text \<open>An acyclic set of steps can be listed so that every step comes after what it depends on.\<close>

lemma topological_order:
  assumes "distinct (step_ids steps)" "closed_deps steps" "acyclic (dep_rel steps)"
  shows "\<exists>P. distinct P \<and> set P = set (step_ids steps) \<and> topo steps P"
proof -
  obtain P deg where P: "kahn_inv steps P [] deg"
    using kahn_result [OF assms(1) kahn_inv_init [OF assms(1)] refl] by auto
  then show ?thesis
    using kahn_invD(1,2) [OF P] acyclic_all_visited [OF assms(3,2) P] by auto
qed

lemma detectCycle_safe [safe_intros]: "safe (detectCycle steps)"
  by (simp add: detectCycle_def case_prod_beta Let_def)

section \<open>Ancestors are the reachable steps\<close>

definition index_rel :: "StepDef gomap \<Rightarrow> (string \<times> string) set" where
  "index_rel steps = {(a, b). \<exists>s. map_of steps a = Some s \<and> b \<in> set (sd_DependsOn s)}"

text \<open>Visited nodes are reachable, and whatever a visited node depends on is visited or queued.\<close>

lemma closure_loop_sound:
  assumes "\<forall>x. bget visited x \<longrightarrow> (start, x) \<in> (index_rel steps)\<^sup>*"
    and "\<forall>x \<in> set queue. (start, x) \<in> (index_rel steps)\<^sup>*"
    and "bget (closure_loop steps visited queue) y"
  shows "(start, y) \<in> (index_rel steps)\<^sup>*"
  using assms
proof (induction steps visited queue rule: closure_loop.induct)
  case (2 steps visited x queue)
  show ?case
  proof (cases "bget visited x")
    case True
    then show ?thesis using 2 by (simp add: closure_loop.simps(2))
  next
    case False
    have v': "\<forall>z. bget (mput x True visited) z \<longrightarrow> (start, z) \<in> (index_rel steps)\<^sup>*"
      using 2(4,5) by (simp add: bget_update)
    show ?thesis
    proof (cases "map_of steps x")
      case None
      then show ?thesis using 2(2) [OF False refl None] v' 2(5,6) False by (simp add: closure_loop.simps(2) [of steps visited] Let_def)
    next
      case (Some s)
      have "(start, d) \<in> (index_rel steps)\<^sup>*" if "d \<in> set (sd_DependsOn s)" for d
        using that Some 2(5) rtrancl_into_rtrancl [of start x "index_rel steps" d]
        by (simp add: index_rel_def)
      then show ?thesis using 2(3) [OF False refl Some] v' 2(5,6) False Some
        by (auto simp: closure_loop.simps(2) [of steps visited] Let_def)
    qed
  qed
qed simp

definition closure_inv :: "StepDef gomap \<Rightarrow> bool gomap \<Rightarrow> string list \<Rightarrow> bool" where
  "closure_inv steps visited queue =
     (\<forall>x y. bget visited x \<longrightarrow> (x, y) \<in> index_rel steps \<longrightarrow> bget visited y \<or> y \<in> set queue)"

definition closure_done :: "StepDef gomap \<Rightarrow> bool gomap \<Rightarrow> string list \<Rightarrow> bool" where
  "closure_done steps visited queue =
     ((\<forall>z. bget visited z \<or> z \<in> set queue \<longrightarrow> bget (closure_loop steps visited queue) z)
      \<and> closure_inv steps (closure_loop steps visited queue) [])"

lemma closure_done_step:
  assumes "closure_loop steps visited queue = closure_loop steps visited' queue'"
    and "\<forall>z. bget visited z \<or> z \<in> set queue \<longrightarrow> bget visited' z \<or> z \<in> set queue'"
    and "closure_done steps visited' queue'"
  shows "closure_done steps visited queue"
  using assms unfolding closure_done_def by metis

lemma closure_loop_complete: "closure_inv steps visited queue \<Longrightarrow> closure_done steps visited queue"
proof (induction steps visited queue rule: closure_loop.induct)
  case (2 steps visited a queue)
  let ?v = "mput a True visited"
  consider (seen) "bget visited a" | (absent) "\<not> bget visited a" "map_of steps a = None"
    | (found) s where "\<not> bget visited a" "map_of steps a = Some s" by blast
  then show ?case
  proof cases
    case seen
    then have "closure_inv steps visited queue"
      using 2(4) by (auto simp: closure_inv_def)
    then show ?thesis using 2(1) [OF seen] seen by (intro closure_done_step [of steps visited "a # queue" visited queue]) (auto simp: closure_loop.simps(2))
  next
    case absent
    then have "closure_inv steps ?v queue"
      using 2(4) by (auto simp: closure_inv_def bget_update index_rel_def)
    then have "closure_done steps ?v queue" using 2(2) absent by simp
    then show ?thesis using absent
      by (intro closure_done_step [of steps visited "a # queue" ?v queue])
        (auto simp: bget_update closure_loop.simps(2) [of steps visited] Let_def)
  next
    case found
    let ?q = "queue @ filter (\<lambda>dep. \<not> bget ?v dep) (sd_DependsOn s)"
    have "closure_inv steps ?v ?q"
      using 2(4) found by (auto simp: closure_inv_def bget_update index_rel_def)
    then have "closure_done steps ?v ?q" using 2(3) found by simp
    moreover have "closure_loop steps visited (a # queue) = closure_loop steps ?v ?q"
      using found by (simp add: closure_loop.simps(2) [of steps visited] Let_def)
    ultimately show ?thesis
      by (intro closure_done_step [of steps visited "a # queue" ?v ?q]) (auto simp: bget_update)
  qed
qed (simp add: closure_done_def)

lemma ancestorClosure_reach: "bget (ancestorClosure steps start) x \<longleftrightarrow> (start, x) \<in> (index_rel steps)\<^sup>*"
proof
  show "(start, x) \<in> (index_rel steps)\<^sup>*" if "bget (ancestorClosure steps start) x"
    using closure_loop_sound [of "[]" start steps "[start]" x] that
    by (simp add: ancestorClosure_def bget_Nil)
  have fin: "closure_done steps [] [start]"
    by (rule closure_loop_complete) (simp add: closure_inv_def bget_Nil)
  show "bget (ancestorClosure steps start) x" if "(start, x) \<in> (index_rel steps)\<^sup>*"
    using that unfolding ancestorClosure_def
  proof (induction rule: rtrancl_induct)
    case base
    show ?case using fin by (simp add: closure_done_def)
  next
    case (step y z)
    then show ?case using fin by (auto simp: closure_done_def closure_inv_def)
  qed
qed

section \<open>The longest chain\<close>

definition dep_chain :: "StepDef list \<Rightarrow> string list \<Rightarrow> bool" where
  "dep_chain steps c =
     (c \<noteq> [] \<and> set c \<subseteq> set (step_ids steps) \<and> successively (\<lambda>a b. a \<in> set (deps_of steps b)) c)"

lemma dep_chain_snoc:
  "dep_chain steps (c @ [v]) \<longleftrightarrow>
     v \<in> set (step_ids steps) \<and> (c = [] \<or> dep_chain steps c \<and> last c \<in> set (deps_of steps v))"
  by (auto simp: dep_chain_def successively_append_iff)

lemma raise_depth_spec:
  "node \<notin> set cs \<Longrightarrow>
     mget 0 (raise_depth node cs depth) v
       = (if v \<in> set cs then max (mget 0 depth v) (mget 0 depth node + 1) else mget 0 depth v)"
proof (induction cs arbitrary: depth)
  case (Cons c cs)
  let ?d = "if mget 0 depth node + 1 > mget 0 depth c then mput c (mget 0 depth node + 1) depth else depth"
  have g: "mget 0 ?d w = (if w = c then max (mget 0 depth c) (mget 0 depth node + 1) else mget 0 depth w)" for w
    by (simp add: mget_update)
  have "mget 0 (raise_depth node (c # cs) depth) v = mget 0 (raise_depth node cs ?d) v"
    by (simp add: raise_depth_def)
  also have "\<dots> = (if v \<in> set cs then max (mget 0 ?d v) (mget 0 ?d node + 1) else mget 0 ?d v)"
    using Cons.prems by (intro Cons.IH) simp
  finally show ?case using Cons.prems unfolding g by auto
qed (simp add: raise_depth_def)

lemma relax_queue_subset: "set (snd (relax ds deg queue)) \<subseteq> set queue \<union> set ds"
proof (induction ds arbitrary: deg queue)
  case (Cons d ds)
  show ?case
    using Cons [of "mput d (mget 0 deg d - 1) deg" "queue @ [d]"]
      Cons [of "mput d (mget 0 deg d - 1) deg" queue]
    by (auto simp: Let_def)
qed simp

definition depth_inv :: "StepDef list \<Rightarrow> string list \<Rightarrow> string list \<Rightarrow> int gomap \<Rightarrow> int \<Rightarrow> bool" where
  "depth_inv steps P queue depth m =
     ((\<forall>v. mget 0 depth v \<ge> 1 \<longrightarrow> (\<exists>c. dep_chain steps c \<and> last c = v \<and> int (length c) = mget 0 depth v))
      \<and> (\<forall>v. \<forall>u \<in> set (deps_of steps v) \<inter> set P. mget 0 depth u + 1 \<le> mget 0 depth v)
      \<and> (\<forall>v \<in> set (P @ queue). mget 0 depth v \<ge> 1)
      \<and> (\<forall>v \<in> set P. mget 0 depth v \<le> m)
      \<and> (if P = [] then m = 0 else \<exists>v \<in> set P. mget 0 depth v = m))"

lemma depth_inv_init:
  assumes "set queue \<subseteq> set (step_ids steps)"
  shows "depth_inv steps [] queue (map (\<lambda>k. (k, 1)) queue) 0"
proof -
  have g: "mget 0 (map (\<lambda>k. (k, 1)) queue) v = (if v \<in> set queue then 1 else 0)" for v
    by (induction queue) (auto simp: map_simps)
  have "\<exists>c. dep_chain steps c \<and> last c = v \<and> int (length c) = 1" if "v \<in> set queue" for v
    using that assms by (intro exI [of _ "[v]"]) (auto simp: dep_chain_def)
  then show ?thesis unfolding depth_inv_def g by auto
qed

lemma depth_inv_step:
  assumes dist: "distinct (step_ids steps)" and inv: "kahn_inv steps P (node # queue) deg"
    and dinv: "depth_inv steps P (node # queue) depth m" and adj: "adj = snd (degrees steps)"
  defines "cs \<equiv> mget [] adj node"
  shows "depth_inv steps (P @ [node]) (snd (relax cs deg queue)) (raise_depth node cs depth)
           (if mget 0 depth node > m then mget 0 depth node else m)"
proof -
  have cs: "v \<in> set cs \<longleftrightarrow> node \<in> set (deps_of steps v)" for v
    using degrees_spec(2) [OF dist, of node v] adj unfolding cs_def by (metis count_list_0_iff)
  have nP: "node \<notin> set P" using kahn_invD(1) [OF inv] by simp
  have old: "v \<notin> set cs" if "v \<in> set (P @ node # queue)" for v
    using kahn_inv_deps [OF inv that] nP cs by blast
  have d1: "\<And>v. mget 0 depth v \<ge> 1 \<Longrightarrow> \<exists>c. dep_chain steps c \<and> last c = v \<and> int (length c) = mget 0 depth v"
    and d2: "\<And>v u. u \<in> set (deps_of steps v) \<Longrightarrow> u \<in> set P \<Longrightarrow> mget 0 depth u + 1 \<le> mget 0 depth v"
    and d3: "\<And>v. v \<in> set (P @ node # queue) \<Longrightarrow> mget 0 depth v \<ge> 1"
    and d4: "\<And>v. v \<in> set P \<Longrightarrow> mget 0 depth v \<le> m"
    and d5: "if P = [] then m = 0 else \<exists>v \<in> set P. mget 0 depth v = m"
    using dinv unfolding depth_inv_def by auto
  let ?D = "raise_depth node cs depth"
  have D: "mget 0 ?D v = (if v \<in> set cs then max (mget 0 depth v) (mget 0 depth node + 1) else mget 0 depth v)" for v
    using old [of node] by (intro raise_depth_spec) simp
  have Dold: "mget 0 ?D v = mget 0 depth v" if "v \<in> set (P @ node # queue)" for v
    using old [OF that] D by simp
  have n1: "mget 0 depth node \<ge> 1" using d3 by simp
  have e1: "\<exists>c. dep_chain steps c \<and> last c = v \<and> int (length c) = mget 0 ?D v" if "mget 0 ?D v \<ge> 1" for v
  proof (cases "v \<in> set cs \<and> mget 0 depth node + 1 > mget 0 depth v")
    case True
    obtain c where c: "dep_chain steps c" "last c = node" "int (length c) = mget 0 depth node"
      using d1 [OF n1] by blast
    have "v \<in> set (step_ids steps)"
      using True cs [of v] deps_of_outside [of v steps] by fastforce
    then have "dep_chain steps (c @ [v])" using c True cs by (simp add: dep_chain_snoc)
    then show ?thesis using c True D [of v] by (intro exI [of _ "c @ [v]"]) simp
  next
    case False
    then have "mget 0 ?D v = mget 0 depth v" using D [of v] by auto
    then show ?thesis using d1 that by simp
  qed
  have e2: "mget 0 ?D u + 1 \<le> mget 0 ?D v" if "u \<in> set (deps_of steps v)" "u \<in> set (P @ [node])" for u v
    using that d2 [of u v] Dold [of u] D [of v] cs [of v] by (cases "u = node") auto
  have e3: "mget 0 ?D v \<ge> 1" if "v \<in> set ((P @ [node]) @ snd (relax cs deg queue))" for v
    using that relax_queue_subset [of cs deg queue] d3 [of v] D [of v] n1 by auto
  have e4: "\<forall>v \<in> set (P @ [node]). mget 0 ?D v \<le> (if mget 0 depth node > m then mget 0 depth node else m)"
    using d4 Dold by fastforce
  have "\<exists>v \<in> set (P @ [node]). mget 0 ?D v = (if mget 0 depth node > m then mget 0 depth node else m)"
  proof (cases "mget 0 depth node > m")
    case True
    then show ?thesis using Dold [of node] by auto
  next
    case False
    then have "P \<noteq> []" using d5 n1 by auto
    then show ?thesis using d5 Dold False by auto
  qed
  then show ?thesis unfolding depth_inv_def using e1 e2 e3 e4 by auto
qed

lemma chain_loop_result:
  assumes "distinct (step_ids steps)" "kahn_inv steps P queue deg" "depth_inv steps P queue depth m"
    "adj = snd (degrees steps)"
  shows "\<exists>P' deg' depth'. kahn_inv steps P' [] deg' \<and> depth_inv steps P' [] depth' (chain_loop adj queue deg depth m)"
  using assms(2-4)
proof (induction adj queue deg depth m arbitrary: P rule: chain_loop.induct)
  case (2 adj node queue deg depth m)
  show ?case
    using 2(1) [OF refl refl, of "P @ [node]"] kahn_inv_step [OF assms(1) 2(2,4)]
      depth_inv_step [OF assms(1) 2(2,3,4)] 2(4)
    by (simp add: relax_depth_eq Let_def)
qed auto

lemma chain_bounded:
  assumes "set (step_ids steps) \<subseteq> set P" "depth_inv steps P [] depth m" "dep_chain steps c"
  shows "int (length c) \<le> mget 0 depth (last c)"
  using assms(3)
proof (induction c rule: rev_induct)
  case (snoc v c)
  show ?case
  proof (cases "c = []")
    case True
    then have "v \<in> set P" using snoc.prems assms(1) by (auto simp: dep_chain_def)
    then show ?thesis using True assms(2) by (simp add: depth_inv_def)
  next
    case False
    then have c: "dep_chain steps c" "last c \<in> set (deps_of steps v)"
      using snoc.prems by (auto simp: dep_chain_snoc)
    have "last c \<in> set P" using c(1) False assms(1) unfolding dep_chain_def by (meson last_in_set subsetD)
    then have "mget 0 depth (last c) + 1 \<le> mget 0 depth v" using c(2) assms(2) by (auto simp: depth_inv_def)
    then show ?thesis using snoc.IH [OF c(1)] by simp
  qed
qed (simp add: dep_chain_def)

lemma maxChainDepth_longest:
  assumes dist: "distinct (step_ids steps)" and cl: "closed_deps steps" and ac: "acyclic (dep_rel steps)"
    and ne: "steps \<noteq> []" and le: "length steps \<le> 10000"
  shows "\<exists>d. maxChainDepth steps = Ok (int d) \<and> (\<exists>c. dep_chain steps c \<and> length c = d)
           \<and> (\<forall>c. dep_chain steps c \<longrightarrow> length c \<le> d)"
proof -
  let ?deg = "fst (degrees steps)" and ?adj = "snd (degrees steps)"
  let ?m = "chain_loop ?adj (zero_nodes ?deg) ?deg (map (\<lambda>k. (k, 1)) (zero_nodes ?deg)) 0"
  have sub: "set (zero_nodes ?deg) \<subseteq> set (step_ids steps)"
    using zero_nodes_spec(1) [OF degrees_dom(2)] degrees_dom(1) by blast
  obtain P deg depth where P: "kahn_inv steps P [] deg" "depth_inv steps P [] depth ?m"
    using chain_loop_result [OF dist kahn_inv_init [OF dist] depth_inv_init [OF sub] refl] by blast
  have all: "set P = set (step_ids steps)" by (rule acyclic_all_visited [OF ac cl P(1)])
  then have "P \<noteq> []" using ne by auto
  then obtain v where v: "v \<in> set P" "mget 0 depth v = ?m" "mget 0 depth v \<ge> 1"
    using P(2) by (auto simp: depth_inv_def)
  then obtain c where c: "dep_chain steps c" "int (length c) = ?m"
    using P(2) by (auto simp: depth_inv_def)
  have "length c' \<le> length c" if "dep_chain steps c'" for c'
  proof -
    have "last c' \<in> set P" using that all by (auto simp: dep_chain_def)
    then show ?thesis
      using chain_bounded [OF _ P(2) that] all c(2) P(2) by (fastforce simp: depth_inv_def)
  qed
  moreover have "maxChainDepth steps = Ok (int (length c))"
    using ne le c(2) by (simp add: maxChainDepth_def case_prod_beta Let_def)
  ultimately show ?thesis using c(1) by blast
qed

section \<open>Properties\<close>

definition diamond :: "StepDef list" where
  "diamond = [zero_StepDef\<lparr>sd_ID := ''a''\<rparr>, zero_StepDef\<lparr>sd_ID := ''b'', sd_DependsOn := [''a'']\<rparr>,
     zero_StepDef\<lparr>sd_ID := ''c'', sd_DependsOn := [''a'']\<rparr>,
     zero_StepDef\<lparr>sd_ID := ''d'', sd_DependsOn := [''b'', ''c'']\<rparr>]"

lemma diamond_wf: "distinct (step_ids diamond)" "closed_deps diamond"
  by (simp_all add: diamond_def closed_deps_def zero_StepDef_def)

lemmas graph_eval = degrees_def add_edges_def zero_nodes_def zero_StepDef_def map_simps Let_def

lemma diamond_no_cycle: "detectCycle diamond = Ok ()"
  by (simp add: detectCycle_def diamond_def graph_eval check_def)

lemma diamond_acyclic: "acyclic (dep_rel diamond)"
  using detectCycle_acyclic [OF diamond_wf] diamond_no_cycle by blast

text \<open>C22: on steps with unique identifiers and existing dependencies, the cycle check of the
  validator terminates and decides acyclicity of the dependency relation. When it reports a cycle,
  the count in the message is that of a proper part of the steps.\<close>

theorem detectCycle_decides_acyclicity:
  assumes "distinct (step_ids steps)" "closed_deps steps"
  shows "(detectCycle steps = Ok () \<longleftrightarrow> acyclic (dep_rel steps))
    \<and> (\<not> acyclic (dep_rel steps) \<longrightarrow>
         (\<exists>n < length steps. detectCycle steps = Err (ContainsCycle n (length steps))))"
proof -
  obtain P deg where P: "kahn_inv steps P [] deg"
    "kahn (snd (degrees steps)) (zero_nodes (fst (degrees steps))) (fst (degrees steps)) 0 = length P"
    using kahn_result [OF assms(1) kahn_inv_init [OF assms(1)] refl] by auto
  have "set P \<subseteq> set (step_ids steps)" using kahn_invD(4) [OF P(1)] by auto
  then have "length P \<le> length steps"
    using kahn_invD(1) [OF P(1)] by (metis append_Nil2 card_mono distinct_card assms(1) finite_set length_map)
  then show ?thesis
    using detectCycle_acyclic [OF assms] P(2)
    by (auto simp: detectCycle_def case_prod_beta Let_def check_def split: if_splits)
qed

theorem detectCycle_decides_acyclicity_witness: "acyclic (dep_rel diamond)"
  using detectCycle_decides_acyclicity [OF diamond_wf] diamond_no_cycle by blast

text \<open>C23: on an acyclic set of one to 10000 steps the depth computed for a planner fragment is the
  number of steps on a longest dependency chain.\<close>

theorem maxChainDepth_is_longest_chain:
  assumes "distinct (step_ids steps)" "closed_deps steps" "detectCycle steps = Ok ()"
    and "steps \<noteq> []" "length steps \<le> 10000"
  shows "\<exists>d. maxChainDepth steps = Ok (int d) \<and> (\<exists>c. dep_chain steps c \<and> length c = d)
           \<and> (\<forall>c. dep_chain steps c \<longrightarrow> length c \<le> d)"
  using maxChainDepth_longest [OF assms(1,2) _ assms(4,5)] detectCycle_acyclic [OF assms(1,2)] assms(3)
  by blast

theorem maxChainDepth_is_longest_chain_witness:
  "(maxChainDepth diamond :: (unit, int) res) = Ok 3 \<and> (\<exists>c. dep_chain diamond c \<and> length c = 3)"
proof -
  have d: "(maxChainDepth diamond :: (unit, int) res) = Ok 3"
    by (simp add: maxChainDepth_def diamond_def graph_eval)
  have len: "diamond \<noteq> []" "length diamond \<le> 10000" by (simp_all add: diamond_def)
  show ?thesis
    using maxChainDepth_is_longest_chain [OF diamond_wf diamond_no_cycle len, where 'a = unit] d by auto
qed

end
