(* ===== verification/Dag_Validate.thy ===== *)
theory Dag_Validate
  imports Dag_Schema Dag_Graph
begin

text \<open>
  Validation of workflow definitions (src/dag/validate.go, task_type.go, ratelimit.go): every
  check in the order of the code, each error a value, each assertion a panic. The theorems say
  what a definition that passes \<open>Validate\<close> guarantees to the engine, and which assertions a
  definition read from user JSON can still trip.
\<close>

section \<open>Task types\<close>

datatype task_error =
    TaskEmpty
  | TaskTooLong nat
  | TaskDotEdge
  | TaskEmptyToken
  | TaskBadByte char
  | GroupHasDot

definition task_char :: "char \<Rightarrow> bool" where
  "task_char c =
     (let n = (of_char c :: nat) in
      65 \<le> n \<and> n \<le> 90 \<or> 97 \<le> n \<and> n \<le> 122 \<or> 48 \<le> n \<and> n \<le> 57 \<or> n = 95 \<or> n = 45)"

text \<open>The loop over the bytes; \<open>prev\<close> is the byte before.\<close>

fun task_bytes :: "char option \<Rightarrow> string \<Rightarrow> task_error checked" where
  "task_bytes prev [] = Ok ()"
| "task_bytes prev (c # cs) =
     (if task_char c then task_bytes (Some c) cs
      else if c = CHR ''.'' then
        (case prev of
           None \<Rightarrow> Panic ''ValidTaskType''
         | Some p \<Rightarrow> if p = CHR ''.'' then Err TaskEmptyToken else task_bytes (Some c) cs)
      else Err (TaskBadByte c))"

definition ValidTaskType :: "string \<Rightarrow> task_error checked" where
  "ValidTaskType s =
     (if s = [] then Err TaskEmpty
      else if length s > 128 then Err (TaskTooLong (length s))
      else if hd s = CHR ''.'' \<or> last s = CHR ''.'' then Err TaskDotEdge
      else task_bytes None s)"

definition ValidWorkerGroup :: "string \<Rightarrow> task_error checked" where
  "ValidWorkerGroup s =
     and_then (ValidTaskType s) (\<lambda>_. check (CHR ''.'' \<in> set s) GroupHasDot)"

section \<open>Errors\<close>

datatype (plugins only: code size) validate_error =
    NoSteps string
  | NoName
  | StepNoID nat
  | StepNeedsTask string StepType
  | DuplicateStepID string
  | NegativeRetries string int
  | UnknownDependency string string
  | LoopConfigInvalid string config_error
  | LoopMaxIterations string int
  | MapConfigInvalid config_error
  | MapDependencies string nat
  | MapMaxItems string int
  | MapNested string string
  | SkipIfOperator string string
  | SkipIfNoStep string
  | SkipIfNotDependency string string
  | StepInvalid string step_error
  | RateLimitInvalid string
  | OnFailureUnknown string string
  | CompensateUnknown string string
  | TaskConcurrency string int
  | InvalidTask string task_error
  | InvalidWorkerGroup string task_error
  | AuxSelfReference string
  | AuxTargetHasDeps string string
  | ConcurrencyMaxSteps int
  | RetryMaxAttempts string int
  | RetryMultiplier string rat
  | IdempotencyKeyDots string
  | IdempotencyKeyEmptySegment string
  | StickyInvalid string
  | StickyHardNeedsTimeout
  | StickyWithWorkerGroup string
  | PriorityInvalid
  | CancelOnTooMany
  | CancelOnInvalid
  | SingletonMode
  | OutputSchemaInvalid
  | CycleFound cycle_error

section \<open>Steps\<close>

fun stepRequiresTask :: "StepType \<Rightarrow> bool" where
  "stepRequiresTask StepTypeNormal = True"
| "stepRequiresTask StepTypeAgentLoop = True"
| "stepRequiresTask StepTypeAgent = True"
| "stepRequiresTask StepTypeMap = True"
| "stepRequiresTask StepTypePlanner = True"
| "stepRequiresTask _ = False"

text \<open>The assertions three of the step validators open with.\<close>

definition assert_step :: "string \<Rightarrow> StepDef \<Rightarrow> 'e checked" where
  "assert_step who step =
     chain [panic_if (sd_ID step = []) who,
            panic_if (sd_Task step = [] \<and> stepRequiresTask (sd_Type step)) who]"

definition validateRequiredFields :: "WorkflowDef \<Rightarrow> validate_error checked" where
  "validateRequiredFields def =
     chain [panic_if (wd_Steps def = []) ''validateRequiredFields'',
            check (wd_Name def = []) NoName,
            for_each (\<lambda>(i, step).
                chain [check (sd_ID step = []) (StepNoID i),
                       check (sd_Task step = [] \<and> stepRequiresTask (sd_Type step))
                         (StepNeedsTask (sd_ID step) (sd_Type step))])
              (enumerate 0 (wd_Steps def))]"

fun collect_ids :: "bool gomap \<Rightarrow> StepDef list \<Rightarrow> (validate_error, bool gomap) res" where
  "collect_ids ids [] = Ok ids"
| "collect_ids ids (step # steps) =
     (if bget ids (sd_ID step) then Err (DuplicateStepID (sd_ID step))
      else collect_ids (mput (sd_ID step) True ids) steps)"

definition validateStepIDs :: "WorkflowDef \<Rightarrow> (validate_error, bool gomap) res" where
  "validateStepIDs def =
     (if wd_Steps def = [] then Panic ''validateStepIDs''
      else if wd_Name def = [] then Panic ''validateStepIDs''
      else collect_ids [] (wd_Steps def))"

definition validateLoopConfig :: "StepDef \<Rightarrow> validate_error checked" where
  "validateLoopConfig step =
     and_then (assert_step ''validateLoopConfig'' step) (\<lambda>_.
       if sd_Task step = [] then Ok ()
       else if sd_Type step = StepTypeAgentLoop then
         and_then (map_err (LoopConfigInvalid (sd_ID step)) (ParseAgentLoopConfig step)) (\<lambda>cfg.
           check (al_MaxIterations cfg \<le> 0) (LoopMaxIterations (sd_ID step) (al_MaxIterations cfg)))
       else Ok ())"

definition validateMapConfig :: "StepDef \<Rightarrow> validate_error checked" where
  "validateMapConfig step =
     and_then (assert_step ''validateMapConfig'' step) (\<lambda>_.
       if sd_Task step = [] then Ok ()
       else if sd_Type step \<noteq> StepTypeMap then Ok ()
       else and_then (map_err MapConfigInvalid (ParseMapConfig step)) (\<lambda>cfg.
         chain [check (length (sd_DependsOn step) \<noteq> 1)
                  (MapDependencies (sd_ID step) (length (sd_DependsOn step))),
                check (mc_MaxItems cfg \<le> 0) (MapMaxItems (sd_ID step) (mc_MaxItems cfg)),
                check (mc_MaxItems cfg > 10000) (MapMaxItems (sd_ID step) (mc_MaxItems cfg))]))"

definition validateMapNesting :: "StepDef \<Rightarrow> StepType gomap \<Rightarrow> validate_error checked" where
  "validateMapNesting step types =
     chain [panic_if (sd_ID step = []) ''validateMapNesting'',
            panic_if (sd_Type step \<noteq> StepTypeMap) ''validateMapNesting'',
            for_each (\<lambda>dep. check (mget StepTypeNormal types dep = StepTypeMap) (MapNested (sd_ID step) dep))
              (sd_DependsOn step)]"

definition validateSkipIf :: "StepDef \<Rightarrow> validate_error checked" where
  "validateSkipIf step =
     and_then (assert_step ''validateSkipIf'' step) (\<lambda>_.
       if sd_Task step = [] then Ok ()
       else when_some (sd_SkipIf step) (\<lambda>c.
         chain [check (\<not> bget validOps (pc_Op c)) (SkipIfOperator (sd_ID step) (pc_Op c)),
                check (pc_StepID c = []) (SkipIfNoStep (sd_ID step)),
                check (pc_StepID c \<notin> set (sd_DependsOn step))
                  (SkipIfNotDependency (sd_ID step) (pc_StepID c))]))"

definition validateRateLimit :: "StepDef \<Rightarrow> validate_error checked" where
  "validateRateLimit step =
     (let bad = (\<lambda>b. check b (RateLimitInvalid (sd_ID step))) in
      chain [panic_if (sd_ID step = []) ''validateRateLimit'',
             panic_if (sd_RateLimit step \<noteq> None \<and> sd_KeyedRateLimit step \<noteq> None) ''validateRateLimit'',
             when_some (sd_RateLimit step) (\<lambda>rl. chain [bad (rl_Limit rl \<le> 0), bad (rl_Period rl \<le> 0)]),
             when_some (sd_KeyedRateLimit step) (\<lambda>kl.
               chain [bad (kl_Key kl = []), bad (kl_Limit kl \<le> 0), bad (kl_Period kl \<le> 0),
                      bad (kl_Units kl \<le> 0)])])"

definition validateStepDispatch :: "StepDef \<Rightarrow> validate_error checked" where
  "validateStepDispatch step =
     and_then (assert_step ''validateStepDispatch'' step) (\<lambda>_.
       if sd_Task step = [] then Ok ()
       else and_then (map_err (InvalidTask (sd_ID step)) (ValidTaskType (sd_Task step))) (\<lambda>_.
         if sd_WorkerGroup step = [] then Ok ()
         else map_err (InvalidWorkerGroup (sd_ID step)) (ValidWorkerGroup (sd_WorkerGroup step))))"

definition validateSingleStep ::
    "(string \<Rightarrow> (gotime \<Rightarrow> Civil) option) \<Rightarrow> StepDef \<Rightarrow> bool gomap \<Rightarrow> validate_error checked" where
  "validateSingleStep loadLocation step ids =
     (let i = sd_ID step; wrap = map_err (StepInvalid i) in
      chain [panic_if (i = []) ''validateSingleStep'',
             check (sd_Retries step < 0) (NegativeRetries i (sd_Retries step)),
             for_each (\<lambda>dep. check (\<not> bget ids dep) (UnknownDependency i dep)) (sd_DependsOn step),
             validateLoopConfig step,
             validateMapConfig step,
             validateSkipIf step,
             wrap (validateSubWorkflowConfig step),
             wrap (validateSleepStep loadLocation step),
             wrap (validateApprovalStep step),
             wrap (validatePlannerConfig step),
             validateRateLimit step,
             check (sd_OnFailure step \<noteq> [] \<and> \<not> bget ids (sd_OnFailure step))
               (OnFailureUnknown i (sd_OnFailure step)),
             check (sd_Compensate step \<noteq> [] \<and> \<not> bget ids (sd_Compensate step))
               (CompensateUnknown i (sd_Compensate step)),
             check (sd_MaxTaskConcurrency step < 0 \<or> sd_MaxTaskConcurrency step > 1000)
               (TaskConcurrency i (sd_MaxTaskConcurrency step))])"

text \<open>One target of \<open>OnFailure\<close> or \<open>Compensate\<close>.\<close>

definition validate_aux_target :: "StepDef gomap \<Rightarrow> string \<Rightarrow> string \<Rightarrow> validate_error checked" where
  "validate_aux_target byID i target =
     (if target = [] then Ok ()
      else chain [check (target = i) (AuxSelfReference i),
                  check (sd_DependsOn (mget zero_StepDef byID target) \<noteq> []) (AuxTargetHasDeps i target)])"

definition validateAuxTargets :: "WorkflowDef \<Rightarrow> validate_error checked" where
  "validateAuxTargets def =
     (let byID = indexSteps (wd_Steps def) in
      for_each (\<lambda>step.
          chain [validate_aux_target byID (sd_ID step) (sd_OnFailure step),
                 validate_aux_target byID (sd_ID step) (sd_Compensate step)])
        (wd_Steps def))"

definition validateStepReferences ::
    "(string \<Rightarrow> (gotime \<Rightarrow> Civil) option) \<Rightarrow> WorkflowDef \<Rightarrow> bool gomap \<Rightarrow> validate_error checked" where
  "validateStepReferences loadLocation def ids =
     (let types = fold (\<lambda>step m. mput (sd_ID step) (sd_Type step) m) (wd_Steps def) [] in
      chain [panic_if (wd_Steps def = []) ''validateStepReferences'',
             for_each (\<lambda>step.
                 chain [validateSingleStep loadLocation step ids,
                        validateStepDispatch step,
                        map_err (StepInvalid (sd_ID step)) (validateWaitForEventStep step ids),
                        if sd_Type step = StepTypeMap then validateMapNesting step types else Ok ()])
               (wd_Steps def),
             validateAuxTargets def])"

section \<open>Workflows\<close>

definition validateConcurrency :: "WorkflowDef \<Rightarrow> validate_error checked" where
  "validateConcurrency def =
     chain [panic_if (wd_Name def = []) ''validateConcurrency'',
            panic_if (wd_Steps def = []) ''validateConcurrency'',
            when_some (wd_Concurrency def) (\<lambda>cl.
              check (cl_MaxSteps cl < 0 \<or> cl_MaxSteps cl > 1000) (ConcurrencyMaxSteps (cl_MaxSteps cl)))]"

definition RetryAttemptCountMax :: int where
  "RetryAttemptCountMax = 100000"

definition RetryMultiplierMax :: rat where
  "RetryMultiplierMax = 100"

definition bad_multiplier :: "RetryPolicy \<Rightarrow> bool" where
  "bad_multiplier rp =
     (rp_Multiplier rp \<noteq> 0 \<and> (rp_Multiplier rp < 1 \<or> rp_Multiplier rp > RetryMultiplierMax))"

definition validateRetryPolicies :: "WorkflowDef \<Rightarrow> validate_error checked" where
  "validateRetryPolicies def =
     chain [panic_if (wd_Steps def = []) ''validateRetryPolicies'',
            panic_if (wd_Name def = []) ''validateRetryPolicies'',
            when_some (wd_DefaultRetry def) (\<lambda>rp.
              check (rp_MaxAttempts rp > RetryAttemptCountMax) (RetryMaxAttempts (wd_Name def) (rp_MaxAttempts rp))),
            when_some (wd_DefaultRetry def) (\<lambda>rp.
              check (bad_multiplier rp) (RetryMultiplier (wd_Name def) (rp_Multiplier rp))),
            for_each (\<lambda>step.
                chain [when_some (sd_Retry step) (\<lambda>rp.
                         check (rp_MaxAttempts rp > RetryAttemptCountMax)
                           (RetryMaxAttempts (sd_ID step) (rp_MaxAttempts rp))),
                       check (sd_Retries step > RetryAttemptCountMax)
                         (RetryMaxAttempts (sd_ID step) (sd_Retries step)),
                       when_some (sd_Retry step) (\<lambda>rp.
                         check (bad_multiplier rp) (RetryMultiplier (sd_ID step) (rp_Multiplier rp)))])
              (wd_Steps def)]"

fun has_double_dot :: "string \<Rightarrow> bool" where
  "has_double_dot (a # b # s) = (a = CHR ''.'' \<and> b = CHR ''.'' \<or> has_double_dot (b # s))"
| "has_double_dot _ = False"

definition validateIdempotencyKey :: "string \<Rightarrow> validate_error checked" where
  "validateIdempotencyKey key =
     (if key = [] then Ok ()
      else chain [check (hd key = CHR ''.'' \<or> last key = CHR ''.'') (IdempotencyKeyDots key),
                  check (has_double_dot key) (IdempotencyKeyEmptySegment key)])"

definition validateSticky :: "WorkflowDef \<Rightarrow> validate_error checked" where
  "validateSticky def =
     (if wd_Sticky def = [] then Ok ()
      else chain [check (wd_Sticky def \<noteq> ''soft'' \<and> wd_Sticky def \<noteq> ''hard'') (StickyInvalid (wd_Sticky def)),
                  check (wd_Sticky def = ''hard'' \<and> wd_Timeout def = 0) StickyHardNeedsTimeout,
                  for_each (\<lambda>step. check (sd_WorkerGroup step \<noteq> []) (StickyWithWorkerGroup (sd_ID step)))
                    (wd_Steps def)])"

definition out_of_priority_range :: "int \<Rightarrow> bool" where
  "out_of_priority_range offset = (offset < - 600 \<or> offset > 600)"

definition validatePriority :: "WorkflowDef \<Rightarrow> validate_error checked" where
  "validatePriority def =
     when_some (wd_Priority def) (\<lambda>cfg.
       chain [check (pr_Key cfg = []) PriorityInvalid,
              check (pr_Rules cfg = []) PriorityInvalid,
              check (length (pr_Rules cfg) > 20) PriorityInvalid,
              for_each (\<lambda>kv. check (out_of_priority_range (snd kv)) PriorityInvalid) (pr_Rules cfg),
              check (out_of_priority_range (pr_DefaultOffset cfg)) PriorityInvalid])"

definition validateCancelOnEntry :: "CancelOn \<Rightarrow> validate_error checked" where
  "validateCancelOnEntry co =
     chain [check (co_Event co = []) CancelOnInvalid,
            check (mt_Left (co_Match co) = []) CancelOnInvalid,
            check (mt_Op (co_Match co) \<noteq> ''eq'') CancelOnInvalid,
            check (mt_Right (co_Match co) = []) CancelOnInvalid,
            check (\<not> has_prefix (mt_Right (co_Match co)) ''input.'') CancelOnInvalid]"

definition validateCancelOn :: "WorkflowDef \<Rightarrow> validate_error checked" where
  "validateCancelOn def =
     chain [check (length (wd_CancelOn def) > 5) CancelOnTooMany,
            for_each validateCancelOnEntry (wd_CancelOn def)]"

definition validateSingleton :: "WorkflowDef \<Rightarrow> validate_error checked" where
  "validateSingleton def =
     when_some (wd_Singleton def) (\<lambda>cfg.
       check (sg_Mode cfg \<noteq> ''skip'' \<and> sg_Mode cfg \<noteq> ''cancel'') SingletonMode)"

definition validateOutputSchema :: "WorkflowDef \<Rightarrow> validate_error checked" where
  "validateOutputSchema def =
     chain [panic_if (wd_Name def = []) ''validateOutputSchema'',
            panic_if (wd_Steps def = []) ''validateOutputSchema'',
            if raw_empty (wd_OutputSchema def) then Ok ()
            else check (case wd_OutputSchema def of RJson js \<Rightarrow> dec_schema js = None | _ \<Rightarrow> True)
                   OutputSchemaInvalid]"

definition Validate :: "(string \<Rightarrow> (gotime \<Rightarrow> Civil) option) \<Rightarrow> WorkflowDef \<Rightarrow> validate_error checked" where
  "Validate loadLocation def =
     (if wd_Steps def = [] then Err (NoSteps (wd_Name def))
      else and_then (validateRequiredFields def) (\<lambda>_.
        and_then (validateStepIDs def) (\<lambda>ids.
          chain [validateStepReferences loadLocation def ids,
                 validateConcurrency def,
                 validateRetryPolicies def,
                 validateIdempotencyKey (wd_IdempotencyKey def),
                 validateSticky def,
                 validatePriority def,
                 validateCancelOn def,
                 validateSingleton def,
                 validateOutputSchema def,
                 map_err CycleFound (detectCycle (wd_Steps def))])))"

end
