(* ===== verification/Dag_Validated.thy ===== *)
theory Dag_Validated
  imports Dag_Validate
begin

text \<open>
  What a definition that passes \<open>Validate\<close> guarantees: task types are safe subject tokens, the
  dependencies form a finite acyclic graph over existing steps, failure and compensation targets
  are steps without dependencies, retry counts are bounded. It also settles which definitions can
  make the validator itself panic.
\<close>

section \<open>Task types\<close>

lemma task_bytes_spec:
  "task_bytes (Some p) s = Ok () \<longleftrightarrow>
     (\<forall>c \<in> set s. task_char c \<or> c = CHR ''.'') \<and> \<not> has_double_dot (p # s)"
proof (induction s arbitrary: p)
  case (Cons c s)
  have "\<not> task_char (CHR ''.'')" by (simp add: task_char_def)
  then show ?case using Cons by auto
qed simp

lemma task_bytes_safe: "p \<noteq> None \<or> s = [] \<or> hd s \<noteq> CHR ''.'' \<Longrightarrow> safe (task_bytes p s)"
  by (induction p s rule: task_bytes.induct) (auto split: option.splits)

lemma ValidTaskType_safe [safe_intros]: "safe (ValidTaskType s)"
  by (simp add: ValidTaskType_def task_bytes_safe)

text \<open>A valid task type is a sequence of non-empty subject tokens.\<close>

definition subject_safe :: "string \<Rightarrow> bool" where
  "subject_safe s =
     (s \<noteq> [] \<and> length s \<le> 128 \<and> (\<forall>c \<in> set s. task_char c \<or> c = CHR ''.'')
      \<and> [] \<notin> set (split_on (CHR ''.'') s))"

lemma hd_split_on: "s \<noteq> [] \<Longrightarrow> hd (split_on c s) = [] \<longleftrightarrow> hd s = c"
  by (cases s) (auto split: list.splits)

lemma tl_split_on:
  "s \<noteq> [] \<Longrightarrow> [] \<in> set (tl (split_on (CHR ''.'') s)) \<longleftrightarrow> last s = CHR ''.'' \<or> has_double_dot s"
proof (induction s)
  case (Cons x s)
  obtain w ws where w: "split_on (CHR ''.'') s = w # ws"
    using split_on_ne by (cases "split_on (CHR ''.'') s") auto
  show ?case
  proof (cases s)
    case (Cons y s')
    then show ?thesis
      using Cons.IH hd_split_on [of s "CHR ''.''"] w by (cases "x = CHR ''.''") auto
  qed simp
qed simp

lemma empty_token_iff:
  assumes "s \<noteq> []"
  shows "[] \<in> set (split_on (CHR ''.'') s) \<longleftrightarrow> hd s = CHR ''.'' \<or> last s = CHR ''.'' \<or> has_double_dot s"
proof -
  obtain w ws where w: "split_on (CHR ''.'') s = w # ws"
    using split_on_ne by (cases "split_on (CHR ''.'') s") auto
  then show ?thesis
    using hd_split_on [OF assms, of "CHR ''.''"] tl_split_on [OF assms] by auto
qed

lemma ValidTaskType_Ok: "ValidTaskType s = Ok () \<longleftrightarrow> subject_safe s"
proof (cases s)
  case (Cons c cs)
  have "task_bytes None s = Ok () \<longleftrightarrow> (\<forall>c \<in> set s. task_char c \<or> c = CHR ''.'') \<and> \<not> has_double_dot s"
    if "hd s \<noteq> CHR ''.''"
    using that task_bytes_spec [of c cs] Cons by auto
  then show ?thesis
    using empty_token_iff [of s] Cons unfolding ValidTaskType_def subject_safe_def by auto
qed (simp add: ValidTaskType_def subject_safe_def)

lemma ValidWorkerGroup_safe [safe_intros]: "safe (ValidWorkerGroup s)"
  unfolding ValidWorkerGroup_def by (intro safe_intros)

lemma ValidWorkerGroup_Ok: "ValidWorkerGroup s = Ok () \<longleftrightarrow> subject_safe s \<and> CHR ''.'' \<notin> set s"
  by (auto simp: ValidWorkerGroup_def and_then_eq_Ok ValidTaskType_Ok)

section \<open>What Validate guarantees\<close>

lemma assert_step_Ok [simp]:
  "assert_step who step = Ok () \<longleftrightarrow>
     sd_ID step \<noteq> [] \<and> (sd_Task step = [] \<longrightarrow> \<not> stepRequiresTask (sd_Type step))"
  by (auto simp: assert_step_def)

lemma collect_ids_Ok:
  "collect_ids ids steps = Ok ids' \<Longrightarrow>
     distinct (step_ids steps) \<and> (\<forall>s \<in> set steps. \<not> bget ids (sd_ID s))
     \<and> (\<forall>x. bget ids' x \<longleftrightarrow> bget ids x \<or> x \<in> set (step_ids steps))"
proof (induction steps arbitrary: ids)
  case (Cons s steps)
  then show ?case by (fastforce simp: bget_update split: if_splits)
qed simp

lemma collect_ids_safe [safe_intros]: "safe (collect_ids ids steps)"
  by (induction steps arbitrary: ids) auto

lemma validateStepIDs_Ok:
  assumes "validateStepIDs def = Ok ids"
  shows "distinct (step_ids (wd_Steps def))" "bget ids x \<longleftrightarrow> x \<in> set (step_ids (wd_Steps def))"
  using assms collect_ids_Ok [of "[]" "wd_Steps def" ids]
  by (auto simp: validateStepIDs_def bget_Nil split: if_splits)

lemma validateSingleStepD:
  assumes "validateSingleStep zones s ids = Ok ()"
  shows "0 \<le> sd_Retries s" "\<And>dep. dep \<in> set (sd_DependsOn s) \<Longrightarrow> bget ids dep"
    "validateLoopConfig s = Ok ()" "validateMapConfig s = Ok ()" "validateSkipIf s = Ok ()"
    "sd_OnFailure s = [] \<or> bget ids (sd_OnFailure s)" "sd_Compensate s = [] \<or> bget ids (sd_Compensate s)"
    "0 \<le> sd_MaxTaskConcurrency s" "sd_MaxTaskConcurrency s \<le> 1000"
  using assms unfolding validateSingleStep_def Let_def by auto

lemma ValidateE:
  assumes "Validate zones def = Ok ()"
  obtains ids where "wd_Steps def \<noteq> []" "validateRequiredFields def = Ok ()" "validateStepIDs def = Ok ids"
    "validateStepReferences zones def ids = Ok ()" "validateConcurrency def = Ok ()"
    "validateRetryPolicies def = Ok ()" "validateIdempotencyKey (wd_IdempotencyKey def) = Ok ()"
    "validateSticky def = Ok ()" "validatePriority def = Ok ()" "validateCancelOn def = Ok ()"
    "validateSingleton def = Ok ()" "validateOutputSchema def = Ok ()" "detectCycle (wd_Steps def) = Ok ()"
  using assms by (auto simp: Validate_def and_then_eq_Ok split: if_splits)

lemma Validate_step:
  assumes "Validate zones def = Ok ()" "s \<in> set (wd_Steps def)"
  obtains ids where "\<forall>x. bget ids x \<longleftrightarrow> x \<in> set (step_ids (wd_Steps def))"
    "validateSingleStep zones s ids = Ok ()" "validateStepDispatch s = Ok ()"
    "validateWaitForEventStep s ids = Ok ()"
proof -
  from assms(1) obtain ids where ids: "validateStepIDs def = Ok ids" and
    refs: "validateStepReferences zones def ids = Ok ()" by (rule ValidateE)
  from refs assms(2) have v: "validateSingleStep zones s ids = Ok ()" "validateStepDispatch s = Ok ()"
    "validateWaitForEventStep s ids = Ok ()"
    by (auto simp: validateStepReferences_def Let_def)
  have "\<forall>x. bget ids x \<longleftrightarrow> x \<in> set (step_ids (wd_Steps def))"
    using validateStepIDs_Ok(2) [OF ids] by blast
  then show ?thesis using v by (rule that)
qed

lemma Validate_distinct: "Validate zones def = Ok () \<Longrightarrow> distinct (step_ids (wd_Steps def))"
  by (auto elim!: ValidateE dest: validateStepIDs_Ok(1))

lemma Validate_closed:
  assumes "Validate zones def = Ok ()"
  shows "closed_deps (wd_Steps def)"
proof -
  have "set (sd_DependsOn s) \<subseteq> set (step_ids (wd_Steps def))" if s: "s \<in> set (wd_Steps def)" for s
  proof -
    obtain ids where ids: "\<forall>x. bget ids x \<longleftrightarrow> x \<in> set (step_ids (wd_Steps def))"
      and v: "validateSingleStep zones s ids = Ok ()" and "validateStepDispatch s = Ok ()"
        "validateWaitForEventStep s ids = Ok ()" by (rule Validate_step [OF assms s])
    show ?thesis using validateSingleStepD(2) [OF v] ids by auto
  qed
  then show ?thesis by (simp add: closed_deps_def)
qed

lemma Validate_acyclic:
  assumes "Validate zones def = Ok ()"
  shows "acyclic (dep_rel (wd_Steps def))"
  using assms detectCycle_acyclic [OF Validate_distinct [OF assms] Validate_closed [OF assms]]
  by (auto elim!: ValidateE)

lemma indexSteps_lookup:
  assumes "distinct (step_ids steps)"
  shows "map_of (indexSteps steps) x = Some s \<longleftrightarrow> s \<in> set steps \<and> sd_ID s = x"
  using assms
proof (induction steps rule: rev_induct)
  case (snoc t steps)
  have "indexSteps (steps @ [t]) = mput (sd_ID t) t (indexSteps steps)"
    by (simp add: indexSteps_def)
  then show ?case using snoc by (auto simp: update_conv' intro: rev_image_eqI)
qed (simp add: indexSteps_def)

text \<open>The targets of \<open>OnFailure\<close> and \<open>Compensate\<close> are other steps, without dependencies.\<close>

definition aux_target_ok :: "StepDef list \<Rightarrow> StepDef \<Rightarrow> string \<Rightarrow> bool" where
  "aux_target_ok steps s target =
     (target = [] \<or> target \<noteq> sd_ID s \<and> (\<exists>t \<in> set steps. sd_ID t = target \<and> sd_DependsOn t = []))"

lemma Validate_aux:
  assumes "Validate zones def = Ok ()" "s \<in> set (wd_Steps def)"
  shows "aux_target_ok (wd_Steps def) s (sd_OnFailure s)" "aux_target_ok (wd_Steps def) s (sd_Compensate s)"
proof -
  from assms(1) obtain ids where ids: "validateStepIDs def = Ok ids" and
    refs: "validateStepReferences zones def ids = Ok ()" by (rule ValidateE)
  have dist: "distinct (step_ids (wd_Steps def))" by (rule validateStepIDs_Ok(1) [OF ids])
  have aux: "validate_aux_target (indexSteps (wd_Steps def)) (sd_ID s) (sd_OnFailure s) = Ok ()"
    "validate_aux_target (indexSteps (wd_Steps def)) (sd_ID s) (sd_Compensate s) = Ok ()"
    and single: "validateSingleStep zones s ids = Ok ()"
    using refs assms(2) by (auto simp: validateStepReferences_def validateAuxTargets_def Let_def)
  have known: "t \<noteq> [] \<Longrightarrow> t \<in> set (step_ids (wd_Steps def))" if "t = sd_OnFailure s \<or> t = sd_Compensate s" for t
    using that validateSingleStepD(6,7) [OF single] validateStepIDs_Ok(2) [OF ids] by blast
  have "aux_target_ok (wd_Steps def) s t"
    if v: "validate_aux_target (indexSteps (wd_Steps def)) (sd_ID s) t = Ok ()"
      and k: "t \<noteq> [] \<Longrightarrow> t \<in> set (step_ids (wd_Steps def))" for t
  proof (cases "t = []")
    case False
    then obtain r where r: "r \<in> set (wd_Steps def)" "sd_ID r = t" using k by auto
    then have "map_of (indexSteps (wd_Steps def)) t = Some r" using indexSteps_lookup [OF dist] by simp
    then show ?thesis using v False r by (auto simp: validate_aux_target_def aux_target_ok_def mget_def)
  qed (simp add: aux_target_ok_def)
  then show "aux_target_ok (wd_Steps def) s (sd_OnFailure s)" "aux_target_ok (wd_Steps def) s (sd_Compensate s)"
    using aux known by blast+
qed

section \<open>Which definitions make Validate panic\<close>

lemma chain_safe_cons: "safe r \<Longrightarrow> (r = Ok () \<Longrightarrow> safe (chain rs)) \<Longrightarrow> safe (chain (r # rs))"
  by (cases r) auto

lemma chain_safe_nil: "safe (chain [])"
  by simp

lemmas chain_safe_intros = chain_safe_cons chain_safe_nil

lemma safe_panic_if [simp]: "safe (panic_if b m) \<longleftrightarrow> \<not> b"
  by (simp add: panic_if_def)

text \<open>What \<open>validateRequiredFields\<close> establishes for the assertions of the later checks.\<close>

definition step_shape :: "StepDef \<Rightarrow> bool" where
  "step_shape s = (sd_ID s \<noteq> [] \<and> (sd_Task s = [] \<longrightarrow> \<not> stepRequiresTask (sd_Type s)))"

lemma validateRequiredFields_safe: "wd_Steps def \<noteq> [] \<Longrightarrow> safe (validateRequiredFields def)"
  unfolding validateRequiredFields_def case_prod_beta
  by (intro chain_safe_intros safe_for_each safe_check) simp

lemma validateRequiredFields_shape:
  assumes "validateRequiredFields def = Ok ()"
  shows "wd_Name def \<noteq> []" "s \<in> set (wd_Steps def) \<Longrightarrow> step_shape s"
proof -
  show "wd_Name def \<noteq> []" using assms by (simp add: validateRequiredFields_def)
  assume "s \<in> set (wd_Steps def)"
  then obtain i where i: "i < length (wd_Steps def)" "s = wd_Steps def ! i" by (auto simp: in_set_conv_nth)
  then have "(i, s) = enumerate 0 (wd_Steps def) ! i" by (simp add: nth_enumerate_eq)
  then have "(i, s) \<in> set (enumerate 0 (wd_Steps def))" using i(1) by simp
  moreover have "\<forall>x \<in> set (enumerate 0 (wd_Steps def)). step_shape (snd x)"
    using assms by (auto simp: validateRequiredFields_def step_shape_def)
  ultimately show "step_shape s" by auto
qed

lemma assert_step_safe [safe_intros]: "step_shape s \<Longrightarrow> safe (assert_step who s)"
  by (simp add: assert_step_def step_shape_def panic_if_def)

lemma step_validators_safe [safe_intros]:
  assumes "step_shape s"
  shows "safe (validateLoopConfig s)" "safe (validateMapConfig s)" "safe (validateSkipIf s)"
    "safe (validateSubWorkflowConfig s)" "safe (validateApprovalStep s)" "safe (validatePlannerConfig s)"
    "safe (validateStepDispatch s)" "safe (validateWaitForEventStep s ids)"
proof -
  have i: "sd_ID s \<noteq> []" using assms by (simp add: step_shape_def)
  show "safe (validateLoopConfig s)"
    unfolding validateLoopConfig_def ParseAgentLoopConfig_def by (intro safe_intros assms)
  show "safe (validateMapConfig s)"
    unfolding validateMapConfig_def ParseMapConfig_def by (intro safe_intros assms) auto
  show "safe (validateSkipIf s)"
    unfolding validateSkipIf_def by (intro safe_intros assms) auto
  show "safe (validateSubWorkflowConfig s)"
    unfolding validateSubWorkflowConfig_def ParseSubWorkflowConfig_def using i by (intro safe_intros) simp
  show "safe (validateApprovalStep s)"
    unfolding validateApprovalStep_def ParseApprovalConfig_def using i by (intro safe_intros) auto
  show "safe (validatePlannerConfig s)"
    unfolding validatePlannerConfig_def ParsePlannerConfig_def using i by (intro safe_intros) auto
  show "safe (validateStepDispatch s)"
    unfolding validateStepDispatch_def by (intro safe_intros assms)
  have m: "safe (validateMatchDotPaths (sd_ID s) m ids)" for m
    using i by (simp add: validateMatchDotPaths_def Let_def)
  show "safe (validateWaitForEventStep s ids)"
    using i m parse_config_safe [of StepTypeWaitForEvent dec_WaitForEventOpts s]
    unfolding validateWaitForEventStep_def ParseWaitForEventConfig_def
    by (auto intro!: safe_chain split: res.split)
qed

lemma validateSleepStep_safe [safe_intros]:
  assumes "step_shape s"
  shows "safe (validateSleepStep zones s)"
proof -
  have "safe (ParseSleepConfig s)"
    unfolding ParseSleepConfig_def by (intro safe_intros)
  moreover have "safe (ParseCron e)" for e
    using ParseCron_ok_with by (rule ok_with_weaken) simp
  ultimately show ?thesis
    using assms unfolding validateSleepStep_def step_shape_def
    by (auto intro!: safe_and_then safe_map_err simp: checkSleepBound_def)
qed

lemma validateRateLimit_safe:
  "step_shape s \<Longrightarrow> sd_RateLimit s = None \<or> sd_KeyedRateLimit s = None \<Longrightarrow> safe (validateRateLimit s)"
  unfolding validateRateLimit_def Let_def step_shape_def
  by (intro chain_safe_intros safe_when_some safe_check) auto

lemma validateSingleStep_safe:
  assumes "step_shape s" "sd_RateLimit s = None \<or> sd_KeyedRateLimit s = None"
  shows "safe (validateSingleStep zones s ids)"
  unfolding validateSingleStep_def Let_def
  using assms
  by (intro chain_safe_intros safe_map_err step_validators_safe validateSleepStep_safe validateRateLimit_safe
      safe_for_each safe_check) (auto simp: step_shape_def)

lemma validate_aux_target_safe: "safe (validate_aux_target m i t)"
  unfolding validate_aux_target_def by (intro safe_if safe_Ok chain_safe_intros safe_check)

lemma validateMapNesting_safe:
  "step_shape s \<Longrightarrow> safe (if sd_Type s = StepTypeMap then validateMapNesting s types else Ok ())"
  unfolding validateMapNesting_def step_shape_def
  by (rule safe_if, intro chain_safe_intros safe_for_each safe_check) simp_all

lemma validateStepReferences_safe:
  assumes "wd_Steps def \<noteq> []" "\<And>s. s \<in> set (wd_Steps def) \<Longrightarrow> step_shape s"
    and "\<And>s. s \<in> set (wd_Steps def) \<Longrightarrow> sd_RateLimit s = None \<or> sd_KeyedRateLimit s = None"
  shows "safe (validateStepReferences zones def ids)"
  unfolding validateStepReferences_def Let_def validateAuxTargets_def
  by (intro chain_safe_intros safe_for_each validateSingleStep_safe safe_map_err step_validators_safe
      validate_aux_target_safe validateMapNesting_safe assms) (simp_all add: assms(1))

lemma workflow_checks_safe:
  assumes "wd_Steps def \<noteq> []" "wd_Name def \<noteq> []"
  shows "safe (validateConcurrency def)" "safe (validateRetryPolicies def)" "safe (validateOutputSchema def)"
    "safe (validateIdempotencyKey key)" "safe (validateSticky def)" "safe (validatePriority def)"
    "safe (validateCancelOn def)" "safe (validateSingleton def)"
proof -
  show "safe (validateConcurrency def)"
    unfolding validateConcurrency_def
    by (intro chain_safe_intros safe_when_some safe_check) (simp_all add: assms)
  show "safe (validateRetryPolicies def)"
    unfolding validateRetryPolicies_def
    by (intro chain_safe_intros safe_for_each safe_when_some safe_check) (simp_all add: assms)
  show "safe (validateOutputSchema def)"
    unfolding validateOutputSchema_def
    by (intro chain_safe_intros safe_if safe_Ok safe_check) (simp_all add: assms)
  show "safe (validateIdempotencyKey key)"
    unfolding validateIdempotencyKey_def by (intro safe_if safe_Ok chain_safe_intros safe_check)
  show "safe (validateSticky def)"
    unfolding validateSticky_def by (intro safe_if safe_Ok chain_safe_intros safe_for_each safe_check)
  show "safe (validatePriority def)"
    unfolding validatePriority_def by (intro safe_when_some chain_safe_intros safe_for_each safe_check)
  show "safe (validateCancelOn def)"
    unfolding validateCancelOn_def validateCancelOnEntry_def
    by (intro chain_safe_intros safe_for_each safe_check)
  show "safe (validateSingleton def)"
    unfolding validateSingleton_def by (intro safe_when_some safe_check)
qed

lemma Validate_safe:
  assumes lim: "\<forall>s \<in> set (wd_Steps def). sd_RateLimit s = None \<or> sd_KeyedRateLimit s = None"
  shows "safe (Validate zones def)"
proof (cases "wd_Steps def = []")
  case False
  have "safe (and_then (validateStepIDs def) (\<lambda>ids. chain [validateStepReferences zones def ids,
        validateConcurrency def, validateRetryPolicies def,
        validateIdempotencyKey (wd_IdempotencyKey def), validateSticky def, validatePriority def,
        validateCancelOn def, validateSingleton def, validateOutputSchema def,
        map_err CycleFound (detectCycle (wd_Steps def))]))"
    if req: "validateRequiredFields def = Ok ()"
  proof (intro safe_and_then chain_safe_intros safe_map_err detectCycle_safe)
    note shape = validateRequiredFields_shape [OF req]
    show "safe (validateStepIDs def)"
      using False shape(1) by (simp add: validateStepIDs_def collect_ids_safe)
    show "safe (validateStepReferences zones def ids)" for ids
      using False shape(2) lim by (intro validateStepReferences_safe) auto
  qed (intro workflow_checks_safe [OF False validateRequiredFields_shape(1) [OF req]])+
  then have "safe (and_then (validateRequiredFields def) (\<lambda>_. and_then (validateStepIDs def)
      (\<lambda>ids. chain [validateStepReferences zones def ids,
        validateConcurrency def, validateRetryPolicies def,
        validateIdempotencyKey (wd_IdempotencyKey def), validateSticky def, validatePriority def,
        validateCancelOn def, validateSingleton def, validateOutputSchema def,
        map_err CycleFound (detectCycle (wd_Steps def))])))"
    by (rule safe_and_then [OF validateRequiredFields_safe [OF False]]) simp
  then show ?thesis using False by (simp only: Validate_def if_False)
qed (simp add: Validate_def)

lemma validateMapNestingD:
  "validateMapNesting s types = Ok () \<Longrightarrow> dep \<in> set (sd_DependsOn s) \<Longrightarrow> mget StepTypeNormal types dep \<noteq> StepTypeMap"
  by (auto simp: validateMapNesting_def)

lemma step_types_lookup:
  assumes "distinct (step_ids steps)" "s \<in> set steps"
  shows "mget StepTypeNormal (fold (\<lambda>step m. mput (sd_ID step) (sd_Type step) m) steps m) (sd_ID s) = sd_Type s"
  using assms
proof (induction steps arbitrary: m)
  case (Cons t steps)
  have skip: "x \<notin> set (step_ids steps) \<Longrightarrow>
      mget StepTypeNormal (fold (\<lambda>step m. mput (sd_ID step) (sd_Type step) m) steps m) x = mget StepTypeNormal m x"
    for x m by (induction steps arbitrary: m) (auto simp: mget_update)
  show ?case
  proof (cases "s = t")
    case True
    then show ?thesis using Cons.prems skip [of "sd_ID t"] by (simp add: mget_update)
  next
    case False
    then show ?thesis using Cons by simp
  qed
qed simp

lemma Validate_map_dep:
  assumes "Validate zones def = Ok ()" "s \<in> set (wd_Steps def)" "sd_Type s = StepTypeMap"
    and "d \<in> set (wd_Steps def)" "sd_ID d \<in> set (sd_DependsOn s)"
  shows "sd_Type d \<noteq> StepTypeMap"
proof -
  from assms(1) obtain ids where refs: "validateStepReferences zones def ids = Ok ()" by (rule ValidateE)
  then have "validateMapNesting s (fold (\<lambda>step m. mput (sd_ID step) (sd_Type step) m) (wd_Steps def) []) = Ok ()"
    using assms(2,3) by (auto simp: validateStepReferences_def Let_def)
  from validateMapNestingD [OF this assms(5)] show ?thesis
    using step_types_lookup [OF Validate_distinct [OF assms(1)] assms(4)] by simp
qed

section \<open>A sample definition\<close>

text \<open>A small definition the concrete instances of the theorems use.\<close>

definition demo_workflow :: WorkflowDef where
  "demo_workflow = zero_WorkflowDef\<lparr>wd_Name := ''demo'',
     wd_Steps := [zero_StepDef\<lparr>sd_ID := ''a'', sd_Task := ''t'', sd_Compensate := ''u''\<rparr>,
                  zero_StepDef\<lparr>sd_ID := ''b'', sd_Task := ''t'', sd_DependsOn := [''a'']\<rparr>,
                  zero_StepDef\<lparr>sd_ID := ''u'', sd_Task := ''t''\<rparr>]\<rparr>"

lemmas detectCycle_eval = detectCycle_def degrees_def add_edges_def zero_nodes_def

lemmas validate_eval = Validate_def validateRequiredFields_def validateStepIDs_def
  validateStepReferences_def validateSingleStep_def assert_step_def validateLoopConfig_def
  validateMapConfig_def validateSkipIf_def validateSubWorkflowConfig_def validateSleepStep_def
  validateApprovalStep_def validatePlannerConfig_def validateRateLimit_def validateStepDispatch_def
  ValidTaskType_def task_char_def validateWaitForEventStep_def validateAuxTargets_def
  validate_aux_target_def indexSteps_def validateConcurrency_def validateRetryPolicies_def
  RetryAttemptCountMax_def validateIdempotencyKey_def validateSticky_def validatePriority_def
  validateCancelOn_def validateSingleton_def validateOutputSchema_def raw_empty_def check_def
  panic_if_def for_each_code map_simps zero_StepDef_def zero_WorkflowDef_def

lemma demo_acyclic: "detectCycle (wd_Steps demo_workflow) = Ok ()"
  by (simp add: detectCycle_eval demo_workflow_def zero_StepDef_def zero_WorkflowDef_def map_simps check_def)

lemma demo_valid: "Validate (\<lambda>_. None) demo_workflow = Ok ()"
  using demo_acyclic by (simp add: demo_workflow_def validate_eval)

section \<open>Properties\<close>

text \<open>C12: the steps of a definition that passes validation form a finite dependency graph
  without cycles: identifiers are unique and not empty, every dependency names a step, and the
  steps can be listed so that each comes after all it depends on.\<close>

theorem validated_graph:
  assumes "Validate zones def = Ok ()"
  shows "distinct (step_ids (wd_Steps def)) \<and> [] \<notin> set (step_ids (wd_Steps def))
    \<and> closed_deps (wd_Steps def) \<and> acyclic (dep_rel (wd_Steps def))
    \<and> (\<exists>order. distinct order \<and> set order = set (step_ids (wd_Steps def))
         \<and> (\<forall>i < length order. set (deps_of (wd_Steps def) (order ! i)) \<subseteq> set (take i order)))"
proof -
  from assms obtain ids where "validateRequiredFields def = Ok ()" by (rule ValidateE)
  then have "\<forall>s \<in> set (wd_Steps def). sd_ID s \<noteq> []"
    using validateRequiredFields_shape(2) step_shape_def by blast
  then show ?thesis
    using Validate_distinct [OF assms] Validate_closed [OF assms] Validate_acyclic [OF assms]
      topological_order [of "wd_Steps def"] by (auto simp: topo_def)
qed

theorem validated_graph_witness:
  "Validate (\<lambda>_. None) demo_workflow = Ok () \<and> acyclic (dep_rel (wd_Steps demo_workflow))"
  using validated_graph [OF demo_valid] demo_valid by blast

text \<open>In a definition that passes validation, the \<open>on_failure\<close> and \<open>compensate\<close> targets of a
  step are other existing steps that have no dependencies, so they start from the error context
  alone and are never waiting for another step.\<close>

theorem validated_aux_targets:
  assumes "Validate zones def = Ok ()" "s \<in> set (wd_Steps def)" "target \<in> {sd_OnFailure s, sd_Compensate s}"
    "target \<noteq> []"
  shows "target \<noteq> sd_ID s \<and> (\<exists>t \<in> set (wd_Steps def). sd_ID t = target \<and> sd_DependsOn t = [])"
  using Validate_aux [OF assms(1,2)] assms(3,4) by (auto simp: aux_target_ok_def)

theorem validated_aux_targets_witness:
  "\<exists>t \<in> set (wd_Steps demo_workflow). sd_ID t = ''u'' \<and> sd_DependsOn t = []"
proof -
  let ?a = "zero_StepDef\<lparr>sd_ID := ''a'', sd_Task := ''t'', sd_Compensate := ''u''\<rparr>"
  have "?a \<in> set (wd_Steps demo_workflow)" by (simp add: demo_workflow_def)
  from validated_aux_targets [OF demo_valid this, of "''u''"] show ?thesis by auto
qed

text \<open>In a definition that passes validation, an agent loop with a task has a positive
  iteration bound, and a map step has exactly one dependency, which is not a map step itself, and
  a bound between 1 and 10000 on its items.\<close>

theorem validated_loops_and_maps:
  assumes "Validate zones def = Ok ()" "s \<in> set (wd_Steps def)"
  shows "(sd_Type s = StepTypeAgentLoop \<longrightarrow>
            (\<exists>cfg. ParseAgentLoopConfig s = Ok cfg \<and> 0 < al_MaxIterations cfg))
    \<and> (sd_Type s = StepTypeMap \<longrightarrow>
            (\<exists>cfg d. ParseMapConfig s = Ok cfg \<and> 0 < mc_MaxItems cfg \<and> mc_MaxItems cfg \<le> 10000
               \<and> d \<in> set (wd_Steps def) \<and> sd_DependsOn s = [sd_ID d] \<and> sd_Type d \<noteq> StepTypeMap))"
proof -
  obtain ids where ids: "\<forall>x. bget ids x \<longleftrightarrow> x \<in> set (step_ids (wd_Steps def))"
    and v: "validateSingleStep zones s ids = Ok ()" and "validateStepDispatch s = Ok ()"
      "validateWaitForEventStep s ids = Ok ()" by (rule Validate_step [OF assms])
  note single = validateSingleStepD [OF v]
  have loop: "\<exists>cfg. ParseAgentLoopConfig s = Ok cfg \<and> 0 < al_MaxIterations cfg"
    if "sd_Type s = StepTypeAgentLoop"
    using single(3) that by (auto simp: validateLoopConfig_def and_then_eq_Ok not_le split: if_splits)
  have "\<exists>cfg d. ParseMapConfig s = Ok cfg \<and> 0 < mc_MaxItems cfg \<and> mc_MaxItems cfg \<le> 10000
      \<and> d \<in> set (wd_Steps def) \<and> sd_DependsOn s = [sd_ID d] \<and> sd_Type d \<noteq> StepTypeMap"
    if ty: "sd_Type s = StepTypeMap"
  proof -
    obtain cfg where cfg: "ParseMapConfig s = Ok cfg" "length (sd_DependsOn s) = 1"
      "0 < mc_MaxItems cfg" "mc_MaxItems cfg \<le> 10000"
      using single(4) ty by (auto simp: validateMapConfig_def and_then_eq_Ok not_le not_less split: if_splits)
    then obtain x where x: "sd_DependsOn s = [x]" by (auto simp: length_Suc_conv)
    then obtain d where d: "d \<in> set (wd_Steps def)" "sd_ID d = x" using single(2) [of x] ids by auto
    then show ?thesis using cfg x Validate_map_dep [OF assms ty d(1)] by auto
  qed
  with loop show ?thesis by blast
qed

theorem validated_loops_and_maps_witness:
  "let s = zero_StepDef\<lparr>sd_ID := ''l'', sd_Task := ''t'', sd_Type := StepTypeAgentLoop,
             sd_Config := RJson (JObj [(''max_iterations'', JInt 3)])\<rparr>
   in \<exists>cfg. ParseAgentLoopConfig s = Ok cfg \<and> 0 < al_MaxIterations cfg"
proof -
  let ?s = "zero_StepDef\<lparr>sd_ID := ''l'', sd_Task := ''t'', sd_Type := StepTypeAgentLoop,
             sd_Config := RJson (JObj [(''max_iterations'', JInt 3)])\<rparr>"
  let ?def = "zero_WorkflowDef\<lparr>wd_Name := ''loop'', wd_Steps := [?s]\<rparr>"
  have d: "detectCycle [?s] = Ok ()"
    by (simp add: detectCycle_eval zero_StepDef_def map_simps check_def)
  have p: "ParseAgentLoopConfig ?s = Ok \<lparr>al_MaxIterations = 3, al_MaxDuration = 0, al_LoopDelay = 0,
      al_BudgetWarnAt = 0, al_BudgetForceAt = 0\<rparr>"
    by (simp add: ParseAgentLoopConfig_def parse_config_def unmarshal_struct_def dec_AgentLoopConfig_def
        dec_field_def to_lower_def to_lower_char_def dec_int_def int64_ok_def)
  have v: "Validate (\<lambda>_. None) ?def = Ok ()"
    using d p by (simp add: validate_eval)
  from validated_loops_and_maps [OF v, of ?s] show ?thesis by simp
qed

text \<open>A task type is accepted exactly when it is one to 128 bytes of dot-separated,
  non-empty tokens over letters, digits, underscore and hyphen, so it can be published verbatim as
  NATS subject tokens; a worker group is accepted exactly when it is such a single token. Neither
  check panics.\<close>

theorem task_type_is_subject_safe:
  "(ValidTaskType s = Ok () \<longleftrightarrow> subject_safe s)
   \<and> (ValidWorkerGroup s = Ok () \<longleftrightarrow> subject_safe s \<and> CHR ''.'' \<notin> set s)
   \<and> \<not> is_panic (ValidTaskType s) \<and> \<not> is_panic (ValidWorkerGroup s)"
  using ValidTaskType_Ok ValidWorkerGroup_Ok ValidTaskType_safe ValidWorkerGroup_safe
  by (simp add: safe_iff)

text \<open>The only definitions on which the validator itself panics are those with a step that
  sets both rate limits, and there are such definitions: everything else a user may submit comes
  back as an error or passes.\<close>

theorem Validate_panics_only_on_two_rate_limits:
  assumes "is_panic (Validate zones def)"
  shows "\<exists>s \<in> set (wd_Steps def). sd_RateLimit s \<noteq> None \<and> sd_KeyedRateLimit s \<noteq> None"
  using assms Validate_safe [of def zones] unfolding safe_iff by blast

theorem Validate_panics_only_on_two_rate_limits_witness:
  "let s = zero_StepDef\<lparr>sd_ID := ''a'', sd_Task := ''t'', sd_RateLimit := Some \<lparr>rl_Limit = 1, rl_Period = 1\<rparr>,
             sd_KeyedRateLimit := Some \<lparr>kl_Key = ''k'', kl_Limit = 1, kl_Period = 1, kl_Units = 1\<rparr>\<rparr>;
       def = zero_WorkflowDef\<lparr>wd_Name := ''w'', wd_Steps := [s]\<rparr>
   in is_panic (Validate (\<lambda>_. None) def)
      \<and> (\<exists>s \<in> set (wd_Steps def). sd_RateLimit s \<noteq> None \<and> sd_KeyedRateLimit s \<noteq> None)"
proof -
  let ?s = "zero_StepDef\<lparr>sd_ID := ''a'', sd_Task := ''t'', sd_RateLimit := Some \<lparr>rl_Limit = 1, rl_Period = 1\<rparr>,
             sd_KeyedRateLimit := Some \<lparr>kl_Key = ''k'', kl_Limit = 1, kl_Period = 1, kl_Units = 1\<rparr>\<rparr>"
  have h: "is_panic (Validate (\<lambda>_. None) (zero_WorkflowDef\<lparr>wd_Name := ''w'', wd_Steps := [?s]\<rparr>))"
    by (simp add: validate_eval)
  show ?thesis using Validate_panics_only_on_two_rate_limits [OF h] h by simp
qed

text \<open>C31: every \<open>cancel_on\<close> entry the validator accepts panics when it is resolved for a run
  without input, although the caller notes that a nil input is handled; and the accepted right-hand
  side \<open>input.\<close> panics for every input, at every start of the workflow.\<close>

theorem accepted_cancel_on_panics:
  assumes "validateCancelOnEntry co = Ok ()"
  shows "is_panic (Match_Resolve (co_Match co) None RNil)
    \<and> (mt_Right (co_Match co) = ''input.'' \<longrightarrow> is_panic (Match_Resolve (co_Match co) None input))"
proof -
  have h: "mt_Right (co_Match co) \<noteq> []" "mt_Left (co_Match co) \<noteq> []" "has_prefix (mt_Right (co_Match co)) ''input.''"
    using assms by (auto simp: validateCancelOnEntry_def)
  have "\<not> has_prefix (mt_Right (co_Match co)) ''step.''"
  proof
    assume "has_prefix (mt_Right (co_Match co)) ''step.''"
    with h(3) show False by (cases "mt_Right (co_Match co)") (auto simp: has_prefix_def)
  qed
  then show ?thesis
    using h by (auto simp: Match_Resolve_def resolveInputPath_def trim_prefix_def ExtractDotPath_def has_prefix_def)
qed

theorem accepted_cancel_on_panics_witness:
  "let co = \<lparr>co_Event = ''stop'', co_Match = \<lparr>mt_Left = ''id'', mt_Op = ''eq'', mt_Right = ''input.''\<rparr>, co_Timeout = 0\<rparr>
   in validateCancelOnEntry co = Ok () \<and> is_panic (Match_Resolve (co_Match co) None (RJson (JObj [])))"
proof -
  let ?co = "\<lparr>co_Event = ''stop'', co_Match = \<lparr>mt_Left = ''id'', mt_Op = ''eq'', mt_Right = ''input.''\<rparr>, co_Timeout = 0\<rparr>"
  have h: "validateCancelOnEntry ?co = Ok ()" by (simp add: validateCancelOnEntry_def has_prefix_def)
  show ?thesis using accepted_cancel_on_panics [OF h, of "RJson (JObj [])"] h by simp
qed

end
