(* ===== verification/Go_Float.thy ===== *)
theory Go_Float
  imports Go_Json
begin

text \<open>
  The float64 arithmetic the sources use, on rationals: rounding to 53 bits with ties to even,
  \<open>math.Pow\<close> for a positive base and a natural exponent as the standard library computes it, and the
  conversion to an integer. A value that is infinite or not a number is None. What converting a
  value out of range yields is up to the machine, so it is an argument. The lemmas give the cases in
  which the arithmetic is exact and the relative error otherwise.
\<close>

section \<open>Numbers and operations\<close>

abbreviation pow2 :: "int \<Rightarrow> rat" where
  "pow2 e \<equiv> 2 powi e"

text \<open>The exponent \<open>e\<close> with \<open>2^e \<le> a < 2^(e+1)\<close>.\<close>

definition exponent_of :: "rat \<Rightarrow> int" where
  "exponent_of a =
     (let (n, d) = quotient_of a;
          k = int (bit_len_rec (nat n)) - int (bit_len_rec (nat d))
      in if a \<ge> pow2 k then k else k - 1)"

definition round_rat :: "rat \<Rightarrow> nat" where
  "round_rat a = (let (n, d) = quotient_of a in round_half_even (nat n) (nat d))"

definition fl_nonneg :: "rat \<Rightarrow> rat" where
  "fl_nonneg a =
     (if a = 0 then 0
      else let u = pow2 (max (exponent_of a - 52) (- 1074)) in of_nat (round_rat (a / u)) * u)"

definition fl :: "rat \<Rightarrow> rat" where
  "fl q = (if q < 0 then - fl_nonneg (- q) else fl_nonneg q)"

definition finite_float :: "rat \<Rightarrow> rat option" where
  "finite_float q = (if \<bar>q\<bar> < pow2 1024 then Some q else None)"

definition flt_mul :: "rat \<Rightarrow> rat option \<Rightarrow> rat option" where
  "flt_mul a b = (case b of None \<Rightarrow> None | Some y \<Rightarrow> finite_float (fl (a * y)))"

text \<open>The square-and-multiply loop of \<open>math.Pow\<close> on \<open>x1 * 2^xe\<close> with \<open>x1\<close> in \<open>[1/2, 1)\<close>.\<close>

fun pow_loop :: "nat \<Rightarrow> rat \<Rightarrow> int \<Rightarrow> rat \<Rightarrow> int \<Rightarrow> rat \<times> int" where
  "pow_loop i a1 ae x1 xe =
     (if i = 0 then (a1, ae)
      else if xe < - 4096 \<or> 4096 < xe then (a1, ae + xe)
      else let (a1, ae) = (if odd i then (fl (a1 * x1), ae + xe) else (a1, ae));
               sq = fl (x1 * x1);
               (x1, xe) = (if sq < 1 / 2 then (sq + sq, 2 * xe - 1) else (sq, 2 * xe))
           in pow_loop (i div 2) a1 ae x1 xe)"

declare pow_loop.simps [simp del]

definition math_pow :: "rat \<Rightarrow> nat \<Rightarrow> rat option" where
  "math_pow x y =
     (if y = 0 \<or> x = 1 then Some 1
      else if y = 1 then Some x
      else let e = exponent_of x + 1;
               (a1, ae) = pow_loop y 1 0 (x / pow2 e) e
           in finite_float (fl (a1 * pow2 ae)))"

definition trunc_rat :: "rat \<Rightarrow> int" where
  "trunc_rat q = (if q < 0 then - \<lfloor>- q\<rfloor> else \<lfloor>q\<rfloor>)"

definition to_int64 :: "(rat option \<Rightarrow> int) \<Rightarrow> rat option \<Rightarrow> int" where
  "to_int64 conv q =
     (case q of
        Some x \<Rightarrow> if int64_ok (trunc_rat x) then trunc_rat x else conv q
      | None \<Rightarrow> conv q)"

section \<open>Rounding is exact on short numbers\<close>

lemma pow2_add: "pow2 (a + b) = pow2 a * pow2 b"
  by (rule power_int_add) simp

lemma pow2_pos: "pow2 e > 0"
  by (rule zero_less_power_int) simp

lemma bit_len_bounds: "n > 0 \<Longrightarrow> 2 ^ (bit_len_rec n - 1) \<le> n \<and> n < 2 ^ bit_len_rec n \<and> bit_len_rec n > 0"
proof (induction n rule: bit_len_rec.induct)
  case (1 n)
  show ?case
  proof (cases "n div 2 = 0")
    case True
    then have "n = 1" using 1(2) by auto
    then show ?thesis by (simp add: bit_len_rec.simps [of "Suc 0"] bit_len_rec.simps [of 0])
  next
    case False
    then have ih: "2 ^ (bit_len_rec (n div 2) - 1) \<le> n div 2" "n div 2 < 2 ^ bit_len_rec (n div 2)"
      "bit_len_rec (n div 2) > 0" using 1 by auto
    have eq: "bit_len_rec n = Suc (bit_len_rec (n div 2))" using 1(2) by (simp add: bit_len_rec.simps)
    have dbl: "2 * 2 ^ (bit_len_rec (n div 2) - 1) = (2 :: nat) ^ bit_len_rec (n div 2)"
      using ih(3) by (simp flip: power_Suc)
    have "2 ^ bit_len_rec (n div 2) \<le> n" using ih(1) dbl by linarith
    moreover have "n < 2 * 2 ^ bit_len_rec (n div 2)" using ih(2) by linarith
    ultimately show ?thesis unfolding eq by simp
  qed
qed

lemma nat_pow2_rat:
  assumes "n > 0"
  shows "2 ^ k \<le> nat n \<Longrightarrow> (2 :: rat) ^ k \<le> of_int n" "nat n < 2 ^ k \<Longrightarrow> (of_int n :: rat) < 2 ^ k"
proof -
  have eq: "(of_nat (nat n) :: rat) = of_int n" "(of_nat (2 ^ k) :: rat) = 2 ^ k" using assms by simp_all
  show "2 ^ k \<le> nat n \<Longrightarrow> (2 :: rat) ^ k \<le> of_int n" "nat n < 2 ^ k \<Longrightarrow> (of_int n :: rat) < 2 ^ k"
    unfolding eq [symmetric] by (simp_all only: of_nat_le_iff of_nat_less_iff)
qed

lemma exponent_bounds:
  assumes "a > 0"
  shows "pow2 (exponent_of a) \<le> a" "a < pow2 (exponent_of a + 1)"
proof -
  obtain n d where q: "quotient_of a = (n, d)" by fastforce
  have d: "d > 0" by (rule quotient_of_denom_pos [OF q])
  have a: "a = of_int n / of_int d" by (rule quotient_of_div [OF q])
  then have n: "n > 0" using assms d by (simp add: zero_less_divide_iff)
  define ln ld where l: "ln = bit_len_rec (nat n)" "ld = bit_len_rec (nat d)"
  have nb: "2 ^ (ln - 1) \<le> nat n" "nat n < 2 ^ ln" "ln > 0" using bit_len_bounds [of "nat n"] n l by auto
  have db: "2 ^ (ld - 1) \<le> nat d" "nat d < 2 ^ ld" "ld > 0" using bit_len_bounds [of "nat d"] d l by auto
  have nr: "2 ^ (ln - 1) \<le> (of_int n :: rat)" "(of_int n :: rat) < 2 ^ ln"
    using nat_pow2_rat [OF n] nb(1,2) by blast+
  have dr: "2 ^ (ld - 1) \<le> (of_int d :: rat)" "(of_int d :: rat) < 2 ^ ld"
    using nat_pow2_rat [OF d] db(1,2) by blast+
  have pn: "(2 :: rat) ^ (ln - 1) = 2 powi (int ln - 1)" "(2 :: rat) ^ ln = 2 powi int ln"
    "(2 :: rat) ^ (ld - 1) = 2 powi (int ld - 1)" "(2 :: rat) ^ ld = 2 powi int ld"
    using nb(3) db(3) by (simp_all add: power_int_def nat_diff_distrib)
  let ?k = "int ln - int ld"
  have ad: "a * of_int d = of_int n" using d by (simp add: a)
  have dr': "pow2 (int ld - 1) \<le> of_int d" "of_int d \<le> pow2 (int ld)" and nr': "pow2 (int ln - 1) \<le> of_int n"
    using dr nr by (simp_all only: pn less_imp_le)
  have e: "exponent_of a = (if a \<ge> pow2 ?k then ?k else ?k - 1)" by (simp add: exponent_of_def q l)
  have up: "a < pow2 (?k + 1)"
  proof -
    have "a * of_int d < pow2 (int ln)" using nr(2) by (simp add: ad)
    also have "\<dots> = pow2 (?k + 1) * pow2 (int ld - 1)" using pow2_add [of "?k + 1" "int ld - 1"] by simp
    also have "\<dots> \<le> pow2 (?k + 1) * of_int d" using dr'(1) less_imp_le [OF pow2_pos] by (rule mult_left_mono)
    finally show ?thesis using d by simp
  qed
  have low: "pow2 (?k - 1) \<le> a"
  proof -
    have "pow2 (?k - 1) * of_int d \<le> pow2 (?k - 1) * pow2 (int ld)" using dr'(2) less_imp_le [OF pow2_pos] by (rule mult_left_mono)
    also have "\<dots> = pow2 (int ln - 1)" using pow2_add [of "?k - 1" "int ld"] by simp
    also have "\<dots> \<le> a * of_int d" using nr' by (simp only: ad)
    finally show ?thesis using d by simp
  qed
  show "pow2 (exponent_of a) \<le> a" "a < pow2 (exponent_of a + 1)" using up low by (auto simp: e)
qed

lemma round_rat_nat [simp]: "round_rat (of_nat m) = m"
  using quotient_of_int [of "int m"] by (simp add: round_rat_def round_half_even_def)

lemma fl_nonneg_exact:
  assumes "m < 2 ^ 53" "e \<ge> - 1074"
  shows "fl_nonneg (of_nat m * pow2 e) = of_nat m * pow2 e"
proof (cases "m = 0")
  case False
  let ?a = "of_nat m * pow2 e :: rat"
  let ?ue = "max (exponent_of ?a - 52) (- 1074)"
  have pos: "?a > 0" using False by simp
  have le: "?ue \<le> e"
  proof (rule ccontr)
    assume c: "\<not> ?ue \<le> e"
    then have x: "exponent_of ?a \<ge> e + 53" using assms(2) by auto
    have "pow2 (e + 53) \<le> ?a"
      using exponent_bounds(1) [OF pos] power_int_increasing [OF x, of "2 :: rat"] by simp
    then have "(2 :: rat) ^ 53 * pow2 e \<le> of_nat m * pow2 e" by (simp add: power_int_add)
    then have "(2 :: rat) ^ 53 \<le> of_nat m" by simp
    then have "of_nat (2 ^ 53) \<le> (of_nat m :: rat)" by simp
    then show False using assms(1) by (simp only: of_nat_le_iff)
  qed
  have "?a / pow2 ?ue = of_nat m * pow2 (e - ?ue)" by (simp add: power_int_diff)
  also have "\<dots> = of_nat (m * 2 ^ nat (e - ?ue))" using le by (simp add: power_int_def)
  finally have "fl_nonneg ?a = of_nat (m * 2 ^ nat (e - ?ue)) * pow2 ?ue"
    using pos by (simp only: fl_nonneg_def Let_def round_rat_nat) simp
  also have "\<dots> = of_nat m * (pow2 (e - ?ue) * pow2 ?ue)" using le by (simp add: power_int_def)
  also have "\<dots> = ?a" by (simp flip: power_int_add)
  finally show ?thesis .
qed (simp add: fl_nonneg_def)

lemma fl_exact:
  assumes "\<bar>m\<bar> < 2 ^ 53" "e \<ge> - 1074"
  shows "fl (of_int m * pow2 e) = of_int m * pow2 e"
proof (cases "m < 0")
  case True
  then have "fl_nonneg (of_int (- m) * pow2 e) = of_int (- m) * pow2 e"
    using fl_nonneg_exact [of "nat (- m)" e] assms by simp
  moreover have "of_int m * pow2 e < 0" using True pow2_pos [of e] by (simp add: mult_less_0_iff)
  ultimately show ?thesis by (simp add: fl_def)
next
  case False
  then have "fl_nonneg (of_int m * pow2 e) = of_int m * pow2 e"
    using fl_nonneg_exact [of "nat m" e] assms by simp
  moreover have "\<not> of_int m * pow2 e < 0"
    using False less_imp_le [OF pow2_pos [of e]] by (simp add: not_less)
  ultimately show ?thesis by (simp only: fl_def if_False)
qed

lemma fl_pow2: "e \<ge> - 1074 \<Longrightarrow> fl (pow2 e) = pow2 e"
  using fl_exact [of 1 e] by simp

text \<open>A power of two is computed exactly: in the loop both mantissas stay powers of two.\<close>

lemma fl_quarter: "fl (1 / 4) = 1 / 4"
  using fl_pow2 [of "- 2"] by (simp add: power_int_minus power2_eq_square)

lemma fl_pow2_half:
  assumes "k - 1 \<ge> - 1074"
  shows "fl (pow2 k / 2) = pow2 (k - 1)"
proof -
  have "pow2 k / 2 = pow2 (k - 1)" using pow2_add [of "k - 1" 1] by simp
  then show ?thesis using fl_pow2 [OF assms] by simp
qed

lemma pow_loop_two:
  assumes "xe \<ge> 1" "(xe - 1) * int i \<le> 1023" "k - int i \<ge> - 1074"
  shows "\<exists>k' ae'. pow_loop i (pow2 k) ae (1 / 2) xe = (pow2 k', ae')
    \<and> k' + ae' = k + ae + (xe - 1) * int i"
  using assms
proof (induction i arbitrary: k ae xe rule: less_induct)
  case (less i)
  show ?case
  proof (cases "i = 0")
    case True
    then show ?thesis by (simp add: pow_loop.simps)
  next
    case False
    then have "(xe - 1) * 1 \<le> (xe - 1) * int i" using less.prems(1) by (intro mult_left_mono) auto
    then have xe: "\<not> xe < - 4096" "\<not> 4096 < xe" using less.prems(1,2) by auto
    have half: "int i = 2 * int (i div 2) + (if odd i then 1 else 0)" by (auto elim: oddE)
    have step: "pow_loop i (pow2 k) ae (1 / 2) xe
      = pow_loop (i div 2) (pow2 (if odd i then k - 1 else k)) (if odd i then ae + xe else ae) (1 / 2) (2 * xe - 1)"
      using False xe less.prems(3) by (simp add: pow_loop.simps [of i] fl_quarter fl_pow2_half Let_def)
    have "(2 * xe - 1 - 1) * int (i div 2) \<le> (xe - 1) * int i"
      using less.prems(1) by (cases "odd i") (auto elim!: oddE evenE simp: algebra_simps)
    then obtain k' ae' where
      "pow_loop (i div 2) (pow2 (if odd i then k - 1 else k)) (if odd i then ae + xe else ae) (1 / 2) (2 * xe - 1)
         = (pow2 k', ae')"
      "k' + ae' = (if odd i then k - 1 else k) + (if odd i then ae + xe else ae) + (2 * xe - 1 - 1) * int (i div 2)"
      using less.IH [of "i div 2" "2 * xe - 1" "if odd i then k - 1 else k" "if odd i then ae + xe else ae"]
        less.prems False half by (auto split: if_splits)
    then have "pow_loop i (pow2 k) ae (1 / 2) xe = (pow2 k', ae') \<and> k' + ae' = k + ae + (xe - 1) * int i"
      unfolding step using half by (cases "odd i") (auto elim!: oddE evenE simp: algebra_simps)
    then show ?thesis by blast
  qed
qed

lemma math_pow_two: "n \<le> 1023 \<Longrightarrow> math_pow 2 n = Some (2 ^ n)"
proof -
  assume n: "n \<le> 1023"
  have e: "exponent_of 2 = 1" by (simp add: exponent_of_def bit_len_rec.simps)
  obtain k ae where p: "pow_loop n (pow2 0) 0 (1 / 2) 2 = (pow2 k, ae)" "k + ae = int n"
    using pow_loop_two [of 2 n 0 0] n by auto
  then have "pow2 k * pow2 ae = pow2 (int n)" using pow2_add [of k ae] by simp
  moreover have "fl (pow2 (int n)) = pow2 (int n)" by (rule fl_pow2) simp
  moreover have "(2 :: rat) ^ n < 2 ^ 1024" by (rule power_strict_increasing) (use n in auto)
  ultimately show ?thesis using p(1)
    by (auto simp: math_pow_def e finite_float_def)
qed

section \<open>The exponential delay\<close>

lemma trunc_rat_int [simp]: "trunc_rat (of_int m) = m"
  by (simp add: trunc_rat_def flip: of_int_minus)

lemma flt_mul_pow2:
  assumes "0 < d" "d < 2 ^ 53" "n \<le> 900"
  shows "flt_mul (int_to_float d) (Some (2 ^ n)) = Some (of_int (d * 2 ^ n))"
proof -
  have p: "pow2 (int n) = 2 ^ n" by (rule power_int_of_nat)
  have "fl (of_int d * 2 ^ n) = of_int d * 2 ^ n"
    using fl_exact [of d "int n"] assms by (simp add: p)
  moreover have "of_int d * 2 ^ n < (2 :: rat) ^ 53 * 2 ^ 900"
  proof (rule mult_less_le_imp_less)
    show "(of_int d :: rat) < 2 ^ 53"
    proof -
      have "(of_int d :: rat) < of_int (2 ^ 53)" using assms(2) by (simp only: of_int_less_iff)
      then show ?thesis by simp
    qed
    show "(2 :: rat) ^ n \<le> 2 ^ 900" by (rule power_increasing) (use assms(3) in auto)
  qed (use assms(1) in auto)
  then have "of_int d * 2 ^ n < (2 :: rat) ^ 1024"
    by (rule less_trans) (simp flip: power_add)
  ultimately show ?thesis
    using assms by (simp add: flt_mul_def finite_float_def int_to_float_small)
qed

section \<open>The error of rounding\<close>

lemma round_half_even_error:
  assumes "d > 0"
  shows "2 * (round_half_even n d * d) \<le> 2 * n + d" "2 * n \<le> 2 * (round_half_even n d * d) + d"
proof -
  obtain q r where qr: "n div d = q" "n mod d = r" by blast
  have n: "n = q * d + r" using qr div_mult_mod_eq [of n d] by simp
  have "round_half_even n d = q \<and> 2 * r \<le> d \<or> round_half_even n d = q + 1 \<and> d \<le> 2 * r"
    by (auto simp: round_half_even_def qr Let_def)
  moreover have "r < d" using qr(2) assms by auto
  ultimately show "2 * (round_half_even n d * d) \<le> 2 * n + d" "2 * n \<le> 2 * (round_half_even n d * d) + d"
    unfolding n by (auto simp: add_mult_distrib)
qed

lemma round_rat_error:
  assumes "0 \<le> a"
  shows "\<bar>of_nat (round_rat a) - a\<bar> \<le> 1 / 2"
proof -
  obtain n d where q: "quotient_of a = (n, d)" by fastforce
  have d: "d > 0" and a: "a = of_int n / of_int d"
    using quotient_of_denom_pos [OF q] quotient_of_div [OF q] by auto
  then have "0 \<le> n" using assms by (simp add: zero_le_divide_iff)
  then obtain N D where N: "n = int N" "d = int D" "D > 0" using d by (metis nonneg_int_cases of_nat_0_less_iff zero_less_imp_eq_int)
  let ?r = "round_half_even N D"
  have "2 * (of_nat ?r * of_nat D) \<le> (2 * of_nat N + of_nat D :: rat)"
    "2 * of_nat N \<le> (2 * (of_nat ?r * of_nat D) + of_nat D :: rat)"
    using round_half_even_error [OF N(3), of N] by (metis of_nat_mult of_nat_add of_nat_le_iff of_nat_numeral)+
  moreover have "round_rat a = ?r" by (simp add: round_rat_def q N)
  ultimately show ?thesis
    using N(3) unfolding a N by (simp add: field_simps) (simp add: abs_if)
qed

lemma fl_error:
  assumes "0 < a" "pow2 (- 1022) \<le> a"
  shows "\<bar>fl a - a\<bar> \<le> a / 2 ^ 53"
proof -
  define e where "e = exponent_of a"
  have eb: "pow2 e \<le> a" "a < pow2 (e + 1)" using exponent_bounds [OF assms(1)] by (simp_all add: e_def)
  have "- 1022 < e + 1"
  proof (rule ccontr)
    assume "\<not> - 1022 < e + 1"
    then have "pow2 (e + 1) \<le> pow2 (- 1022)" by (intro power_int_increasing) auto
    then show False using eb(2) assms(2) by linarith
  qed
  then have mx: "max (exponent_of a - 52) (- 1074) = e - 52" by (simp add: e_def)
  let ?u = "pow2 (e - 52)"
  have u: "0 < ?u" by (rule pow2_pos)
  have "pow2 e = ?u * pow2 52" using pow2_add [of "e - 52" 52] by simp
  also have "pow2 52 = 2 ^ 52" using power_int_of_nat [of "2 :: rat" 52] by simp
  finally have ue: "?u * 2 ^ 52 \<le> a" using eb(1) by simp
  have "fl a = of_nat (round_rat (a / ?u)) * ?u" using assms(1) by (simp add: fl_def fl_nonneg_def mx Let_def)
  then have "\<bar>fl a - a\<bar> = \<bar>of_nat (round_rat (a / ?u)) - a / ?u\<bar> * ?u"
    using u by (simp add: abs_mult_pos' field_simps abs_mult flip: abs_mult_pos)
  also have "\<dots> \<le> 1 / 2 * ?u"
    using round_rat_error [of "a / ?u"] assms(1) u by (intro mult_right_mono) auto
  also have "\<dots> \<le> a / 2 ^ 53" using ue by simp
  finally show ?thesis .
qed

lemma int_to_float_error:
  assumes "0 \<le> n"
  shows "\<bar>int_to_float n - of_int n\<bar> \<le> of_int n / 2 ^ 53"
proof (cases "n < 2 ^ 53")
  case True
  then show ?thesis using assms int_to_float_small [of n] by simp
next
  case False
  obtain N where N: "n = int N" using assms nonneg_int_cases by blast
  have big: "2 ^ 53 \<le> N" using False N by simp
  define b where "b = bit_len_rec N"
  have B: "2 ^ (b - 1) \<le> N" "N < 2 ^ b" using bit_len_bounds [of N] big by (auto simp: b_def)
  have "(2 :: nat) ^ 53 < 2 ^ b" using big B(2) by linarith
  then have "53 < b" by (simp only: power_strict_increasing_iff)
  define D where "D = (2 :: nat) ^ (b - 53)"
  have D: "D > 0" "D * 2 ^ 52 \<le> N"
  proof -
    show "D > 0" by (simp add: D_def)
    have "D * 2 ^ 52 = 2 ^ (b - 53 + 52)" by (simp only: D_def power_add)
    also have "b - 53 + 52 = b - 1" using \<open>53 < b\<close> by simp
    finally have "D * 2 ^ 52 = 2 ^ (b - 1)" .
    then show "D * 2 ^ 52 \<le> N" using B(1) by simp
  qed
  let ?r = "round_half_even N D"
  have f: "int_to_float n = of_nat (?r * D)"
    using big by (simp add: int_to_float_def nat_to_float_def N b_def D_def Let_def)
  have "of_nat (2 * (?r * D)) \<le> (of_nat (2 * N + D) :: rat)" "of_nat (2 * N) \<le> (of_nat (2 * (?r * D) + D) :: rat)"
    using round_half_even_error [OF D(1), of N] by (simp_all only: of_nat_le_iff)
  moreover have "of_nat (D * 2 ^ 52) \<le> (of_nat N :: rat)" using D(2) by (simp only: of_nat_le_iff)
  ultimately show ?thesis unfolding f by (simp add: N field_simps) (simp add: abs_if)
qed

end
