(* ===== verification/Dag_Retry.thy ===== *)
theory Dag_Retry
  imports Dag_Validated Go_Float
begin

text \<open>
  Retry policies (src/dag/retry.go): which policy applies to a step, and the delay before an attempt.
  The exponential strategy computes in float64; the linear strategy multiplies 64-bit integers, which
  wrap.
\<close>

section \<open>Policies\<close>

definition ResolveRetryPolicy :: "WorkflowDef \<Rightarrow> StepDef \<Rightarrow> RetryPolicy option" where
  "ResolveRetryPolicy wfDef stepDef =
     (if sd_Retry stepDef \<noteq> None then sd_Retry stepDef
      else if wd_DefaultRetry wfDef \<noteq> None then wd_DefaultRetry wfDef
      else if sd_Retries stepDef > 0 then
        Some \<lparr>rp_MaxAttempts = sd_Retries stepDef, rp_Strategy = RetryFixed,
              rp_InitialDelay = 5 * Second, rp_MaxDelay = 5 * Second, rp_Multiplier = 0\<rparr>
      else None)"

definition exponential_delay :: "(rat option \<Rightarrow> int) \<Rightarrow> RetryPolicy \<Rightarrow> int \<Rightarrow> duration" where
  "exponential_delay conv policy attempt =
     (let multiplier = (if rp_Multiplier policy \<le> 0 then 2 else rp_Multiplier policy)
      in to_int64 conv
           (flt_mul (int_to_float (rp_InitialDelay policy)) (math_pow multiplier (nat (attempt - 1)))))"

definition CalculateDelay :: "(rat option \<Rightarrow> int) \<Rightarrow> RetryPolicy \<Rightarrow> int \<Rightarrow> ('e, duration) res" where
  "CalculateDelay conv policy attempt =
     (if attempt < 1 then Panic ''CalculateDelay''
      else
        let delay =
              (case rp_Strategy policy of
                 RetryFixed \<Rightarrow> rp_InitialDelay policy
               | RetryLinear \<Rightarrow> wrap64 (rp_InitialDelay policy * attempt)
               | RetryExponential \<Rightarrow> exponential_delay conv policy attempt)
        in Ok (if rp_MaxDelay policy > 0 \<and> delay > rp_MaxDelay policy then rp_MaxDelay policy else delay))"

section \<open>Delays\<close>

abbreviation default_multiplier :: "RetryPolicy \<Rightarrow> bool" where
  "default_multiplier policy \<equiv> rp_Multiplier policy \<le> 0 \<or> rp_Multiplier policy = 2"

lemma exponential_delay_two:
  assumes "default_multiplier policy" "0 < rp_InitialDelay policy" "rp_InitialDelay policy < 2 ^ 53"
    "1 \<le> attempt" "attempt \<le> 900"
  shows "exponential_delay conv policy attempt =
    (let d = rp_InitialDelay policy * 2 ^ nat (attempt - 1)
     in if int64_ok d then d else conv (Some (of_int d)))"
proof -
  have "math_pow 2 (nat (attempt - 1)) = Some (2 ^ nat (attempt - 1))"
    by (rule math_pow_two) (use assms(5) in simp)
  moreover have "(if rp_Multiplier policy \<le> 0 then 2 else rp_Multiplier policy) = 2" using assms(1) by auto
  ultimately show ?thesis
    using flt_mul_pow2 [OF assms(2,3), of "nat (attempt - 1)"] assms(5)
    by (simp only: exponential_delay_def Let_def to_int64_def trunc_rat_int option.case)
qed

lemma int64_pow_bound:
  assumes "0 < (d :: int)" "d * 2 ^ n < 2 ^ 63"
  shows "n < 63"
proof (rule ccontr)
  assume "\<not> n < 63"
  then have "(2 :: int) ^ 63 \<le> 2 ^ n" by (intro power_increasing) auto
  also have "\<dots> \<le> d * 2 ^ n" using assms(1) by simp
  finally show False using assms(2) by simp
qed

section \<open>Properties\<close>

definition cap_delay :: "RetryPolicy \<Rightarrow> duration \<Rightarrow> duration" where
  "cap_delay policy d = (if rp_MaxDelay policy > 0 then min d (rp_MaxDelay policy) else d)"


definition minute_policy :: RetryPolicy where
  "minute_policy = \<lparr>rp_MaxAttempts = 100, rp_Strategy = RetryExponential, rp_InitialDelay = Second,
     rp_MaxDelay = 60 * Second, rp_Multiplier = 0\<rparr>"


lemma minute_policy_accepted:
  "Validate (\<lambda>_. None) (zero_WorkflowDef\<lparr>wd_Name := ''w'', wd_DefaultRetry := Some minute_policy,
       wd_Steps := [zero_StepDef\<lparr>sd_ID := ''a'', sd_Task := ''t''\<rparr>]\<rparr>) = Ok ()"
proof -
  have "detectCycle [zero_StepDef\<lparr>sd_ID := ''a'', sd_Task := ''t''\<rparr>] = Ok ()"
    by (simp add: detectCycle_eval zero_StepDef_def map_simps check_def)
  then show ?thesis by (simp add: validate_eval minute_policy_def bad_multiplier_def)
qed

lemma minute_policy_delay:
  assumes "1 \<le> attempt" "attempt \<le> 100"
  shows "CalculateDelay conv minute_policy attempt
    = (let d = Second * 2 ^ nat (attempt - 1); x = (if int64_ok d then d else conv (Some (of_int d)))
       in Ok (min x (60 * Second)))"
  using exponential_delay_two [of minute_policy attempt conv] assms
  by (simp add: CalculateDelay_def minute_policy_def Let_def min_def)

text \<open>C33: on a machine that converts an out-of-range float64 to the least 64-bit integer, as amd64
  does, exponential backoff loses its cap. With the ordinary policy of one second, doubling, at most
  one minute and 100 attempts, which the validator accepts as the default of a workflow, the delay is
  one minute from the seventh to the 34th attempt and then a negative number for all later ones. The
  linear strategy has the same defect through 64-bit wrap-around, on every machine.\<close>

theorem backoff_cap_lost_by_overflow:
  "Validate (\<lambda>_. None) (zero_WorkflowDef\<lparr>wd_Name := ''w'', wd_DefaultRetry := Some minute_policy,
       wd_Steps := [zero_StepDef\<lparr>sd_ID := ''a'', sd_Task := ''t''\<rparr>]\<rparr>) = Ok ()
   \<and> (\<forall>attempt \<in> {7..34}. (CalculateDelay (\<lambda>_. - (2 ^ 63)) minute_policy attempt :: (unit, duration) res) = Ok (60 * Second))
   \<and> (\<forall>attempt \<in> {35..100}. (CalculateDelay (\<lambda>_. - (2 ^ 63)) minute_policy attempt :: (unit, duration) res) = Ok (- (2 ^ 63)))
   \<and> (\<exists>d < 0. \<forall>conv. (CalculateDelay conv (minute_policy\<lparr>rp_Strategy := RetryLinear,
         rp_InitialDelay := 26 * Hour, rp_MaxDelay := 48 * Hour\<rparr>) 100000 :: (unit, duration) res) = Ok d)"
proof (intro conjI ballI)
  fix attempt :: int
  show "(CalculateDelay (\<lambda>_. - (2 ^ 63)) minute_policy attempt :: (unit, duration) res) = Ok (60 * Second)"
    if "attempt \<in> {7..34}"
  proof -
    have n: "6 \<le> nat (attempt - 1)" "nat (attempt - 1) \<le> 33" using that by auto
    have "(2 :: int) ^ 6 \<le> 2 ^ nat (attempt - 1)" "(2 :: int) ^ nat (attempt - 1) \<le> 2 ^ 33"
      using power_increasing [OF n(1), of "2 :: int"] power_increasing [OF n(2), of "2 :: int"] by simp_all
    then have "int64_ok (Second * 2 ^ nat (attempt - 1))" "60 * Second \<le> Second * 2 ^ nat (attempt - 1)"
      by (simp_all add: int64_ok_def)
    then show ?thesis using that minute_policy_delay [of attempt "\<lambda>_. - (2 ^ 63)", where 'a = unit] by (simp add: min_absorb2)
  qed
  show "(CalculateDelay (\<lambda>_. - (2 ^ 63)) minute_policy attempt :: (unit, duration) res) = Ok (- (2 ^ 63))"
    if "attempt \<in> {35..100}"
  proof -
    have "(2 :: int) ^ 34 \<le> 2 ^ nat (attempt - 1)" using that by (intro power_increasing) auto
    then have "\<not> int64_ok (Second * 2 ^ nat (attempt - 1))" by (simp add: int64_ok_def)
    then show ?thesis using that minute_policy_delay [of attempt "\<lambda>_. - (2 ^ 63)", where 'a = unit] by simp
  qed
  show "\<exists>d < 0. \<forall>conv. (CalculateDelay conv (minute_policy\<lparr>rp_Strategy := RetryLinear,
         rp_InitialDelay := 26 * Hour, rp_MaxDelay := 48 * Hour\<rparr>) 100000 :: (unit, duration) res) = Ok d"
    by (intro exI [of _ "wrap64 (26 * Hour * 100000)"])
      (simp add: CalculateDelay_def minute_policy_def wrap64_def)
qed (rule minute_policy_accepted)

theorem backoff_cap_lost_by_overflow_witness:
  "(CalculateDelay (\<lambda>_. - (2 ^ 63)) minute_policy 35 :: (unit, duration) res) = Ok (- (2 ^ 63))"
  using backoff_cap_lost_by_overflow by auto

end
