(* ===== verification/Dag_Resolve.thy ===== *)
theory Dag_Resolve
  imports Dag_Validated
begin

text \<open>
  Dependency resolution (src/dag/resolve.go): which steps are ready, which are skipped, the input of
  a step, when a run is complete, and the chain of compensations. The set of auxiliary steps is that
  of src/dag/builder.go. Progress: a run with nothing in flight and something left to do has a ready
  step, provided no ordinary step waits for an auxiliary one; the validator does not demand that, and
  a definition it accepts gets stuck.
\<close>

section \<open>Resolution\<close>

definition allDepsCompleted :: "string list \<Rightarrow> bool gomap \<Rightarrow> bool" where
  "allDepsCompleted deps completed = list_all (bget completed) deps"

definition ResolveReady :: "WorkflowDef \<Rightarrow> bool gomap \<Rightarrow> bool gomap \<Rightarrow> StepDef list" where
  "ResolveReady def completed queued =
     filter (\<lambda>step. \<not> (bget completed (sd_ID step) \<or> bget queued (sd_ID step))
               \<and> \<not> bget (wd_AuxSteps def) (sd_ID step)
               \<and> allDepsCompleted (sd_DependsOn step) completed)
       (wd_Steps def)"

definition ResolveSkipped ::
    "WorkflowDef \<Rightarrow> bool gomap \<Rightarrow> bool gomap \<Rightarrow> StepState gomap \<Rightarrow> StepDef list" where
  "ResolveSkipped def completed queued steps =
     filter (\<lambda>step. \<not> (bget completed (sd_ID step) \<or> bget queued (sd_ID step))
               \<and> sd_SkipIf step \<noteq> None
               \<and> allDepsCompleted (sd_DependsOn step) completed
               \<and> Evaluate (sd_SkipIf step) steps)
       (wd_Steps def)"

text \<open>\<open>json.Marshal\<close> of a \<open>map[string]json.RawMessage\<close>: a nil message is null, bytes that are not a
  document are an error, keys are sorted.\<close>

datatype marshal_error = InvalidRawMessage string

definition raw_json :: "raw \<Rightarrow> json option" where
  "raw_json r = (case r of RNil \<Rightarrow> Some JNull | RJson j \<Rightarrow> Some j | RBad b \<Rightarrow> None)"

fun marshal_members :: "(string \<times> raw) list \<Rightarrow> (marshal_error, (string \<times> json) list) res" where
  "marshal_members [] = Ok []"
| "marshal_members ((k, r) # kvs) =
     (case raw_json r of
        None \<Rightarrow> Err (InvalidRawMessage k)
      | Some j \<Rightarrow> and_then (marshal_members kvs) (\<lambda>js. Ok ((k, j) # js)))"

definition marshal_raw_map :: "raw gomap \<Rightarrow> (marshal_error, raw) res" where
  "marshal_raw_map m = and_then (marshal_members (sort_key fst m)) (\<lambda>js. Ok (RJson (JObj js)))"

definition ResolveInput :: "StepDef \<Rightarrow> StepState gomap \<Rightarrow> raw list \<Rightarrow> (marshal_error, raw) res" where
  "ResolveInput step steps runInput =
     (case sd_DependsOn step of
        [] \<Rightarrow>
          (case runInput of
             [] \<Rightarrow> Ok RNil
           | input # _ \<Rightarrow> if raw_empty input then Ok RNil else Ok input)
      | [dep] \<Rightarrow> Ok (ss_Output (step_of steps dep))
      | deps \<Rightarrow> marshal_raw_map (fold (\<lambda>dep m. mput dep (ss_Output (step_of steps dep)) m) deps []))"

definition IsComplete :: "WorkflowDef \<Rightarrow> bool gomap \<Rightarrow> bool" where
  "IsComplete def completed =
     list_all (\<lambda>step. if bget (wd_AuxSteps def) (sd_ID step) \<and> \<not> bget completed (sd_ID step) then True
                      else bget completed (sd_ID step))
       (wd_Steps def)"

section \<open>Auxiliary steps and compensation\<close>

definition buildAuxSteps :: "StepDef list \<Rightarrow> bool gomap" where
  "buildAuxSteps steps =
     fold (\<lambda>step aux.
             let aux = (if sd_OnFailure step \<noteq> [] then mput (sd_OnFailure step) True aux else aux)
             in if sd_Compensate step \<noteq> [] then mput (sd_Compensate step) True aux else aux)
       steps []"

text \<open>The second loop of the chain: each step but the first depends on the one before it.\<close>

fun wire_chain :: "string list \<Rightarrow> StepDef list \<Rightarrow> StepDef list" where
  "wire_chain prev [] = []"
| "wire_chain prev (step # steps) =
     step\<lparr>sd_DependsOn := prev\<rparr> # wire_chain [sd_ID step] steps"

definition compensations :: "WorkflowDef \<Rightarrow> bool gomap \<Rightarrow> StepDef list" where
  "compensations def completed =
     map (\<lambda>step. mget zero_StepDef (indexSteps (wd_Steps def)) (sd_Compensate step))
       (filter (\<lambda>step. sd_Compensate step \<noteq> [] \<and> bget completed (sd_ID step)) (wd_Steps def))"

definition ResolveCompensateChain :: "WorkflowDef \<Rightarrow> bool gomap \<Rightarrow> string \<Rightarrow> StepDef list" where
  "ResolveCompensateChain def completed failedStepID =
     wire_chain [] (rev (compensations def completed))"

section \<open>Characterisations\<close>

lemma allDepsCompleted_iff: "allDepsCompleted deps completed \<longleftrightarrow> (\<forall>d \<in> set deps. bget completed d)"
  by (simp add: allDepsCompleted_def list_all_iff)

lemma ResolveReady_iff:
  "s \<in> set (ResolveReady def completed queued) \<longleftrightarrow>
     s \<in> set (wd_Steps def) \<and> \<not> bget completed (sd_ID s) \<and> \<not> bget queued (sd_ID s)
     \<and> \<not> bget (wd_AuxSteps def) (sd_ID s) \<and> (\<forall>d \<in> set (sd_DependsOn s). bget completed d)"
  by (auto simp: ResolveReady_def allDepsCompleted_iff)

lemma Evaluate_Some: "Evaluate c steps \<Longrightarrow> c \<noteq> None"
  by (cases c) (simp_all add: Evaluate_def)

lemma ResolveSkipped_iff:
  "s \<in> set (ResolveSkipped def completed queued steps) \<longleftrightarrow>
     s \<in> set (wd_Steps def) \<and> \<not> bget completed (sd_ID s) \<and> \<not> bget queued (sd_ID s)
     \<and> (\<forall>d \<in> set (sd_DependsOn s). bget completed d) \<and> Evaluate (sd_SkipIf s) steps"
  using Evaluate_Some by (auto simp: ResolveSkipped_def allDepsCompleted_iff)

lemma IsComplete_iff:
  "IsComplete def completed \<longleftrightarrow>
     (\<forall>s \<in> set (wd_Steps def). bget completed (sd_ID s) \<or> bget (wd_AuxSteps def) (sd_ID s))"
  by (auto simp: IsComplete_def list_all_iff)

lemma distinct_ResolveReady:
  "distinct (step_ids (wd_Steps def)) \<Longrightarrow> distinct (step_ids (ResolveReady def completed queued))"
  unfolding ResolveReady_def by (rule distinct_map_filter)

lemma buildAuxSteps_fold:
  "bget (fold (\<lambda>step aux.
             let aux = (if sd_OnFailure step \<noteq> [] then mput (sd_OnFailure step) True aux else aux)
             in if sd_Compensate step \<noteq> [] then mput (sd_Compensate step) True aux else aux)
       steps aux) x \<longleftrightarrow> bget aux x \<or> (x \<noteq> [] \<and> (\<exists>s \<in> set steps. x = sd_OnFailure s \<or> x = sd_Compensate s))"
proof (induction steps arbitrary: aux)
  case (Cons s steps)
  show ?case by (simp only: fold_Cons comp_apply Cons.IH) (auto simp: Let_def bget_update)
qed simp

lemma buildAuxSteps_iff:
  "bget (buildAuxSteps steps) x \<longleftrightarrow>
     x \<noteq> [] \<and> (\<exists>s \<in> set steps. x = sd_OnFailure s \<or> x = sd_Compensate s)"
  by (simp add: buildAuxSteps_def buildAuxSteps_fold bget_Nil)

lemma wire_chain_ids [simp]: "step_ids (wire_chain prev steps) = step_ids steps"
  by (induction prev steps rule: wire_chain.induct) auto

lemma length_wire_chain [simp]: "length (wire_chain prev steps) = length steps"
  by (induction prev steps rule: wire_chain.induct) auto

lemma wire_chain_deps:
  "i < length steps \<Longrightarrow>
     sd_DependsOn (wire_chain prev steps ! i) = (if i = 0 then prev else [sd_ID (steps ! (i - 1))])"
  by (induction prev steps arbitrary: i rule: wire_chain.induct) (auto simp: nth_Cons')

lemma wire_chain_nth: "i < length steps \<Longrightarrow> sd_ID (wire_chain prev steps ! i) = sd_ID (steps ! i)"
  using wire_chain_ids [of prev steps] by (metis length_wire_chain nth_map)

lemma wire_chain_in:
  "c \<in> set (wire_chain prev steps) \<Longrightarrow> \<exists>t \<in> set steps. c = t\<lparr>sd_DependsOn := sd_DependsOn c\<rparr>"
  by (induction prev steps rule: wire_chain.induct) auto

section \<open>Progress\<close>

lemma Validate_ids: "Validate zones def = Ok () \<Longrightarrow> s \<in> set (wd_Steps def) \<Longrightarrow> sd_ID s \<noteq> []"
  using validateRequiredFields_shape(2) step_shape_def by (auto elim!: ValidateE)

lemma minimal_uncompleted:
  assumes "closed_deps steps" "acyclic (dep_rel steps)" "v \<in> Q"
  obtains m where "m \<in> Q" "\<forall>d \<in> set (deps_of steps m). d \<notin> Q"
proof -
  have wf: "wf (dep_rel steps)" by (rule finite_acyclic_wf [OF finite_dep_rel [OF assms(1)] assms(2)])
  obtain m where "m \<in> Q" "\<forall>d. (d, m) \<in> dep_rel steps \<longrightarrow> d \<notin> Q"
    using wfE_min [OF wf assms(3)] by blast
  then show ?thesis by (intro that) (auto simp: dep_rel_def)
qed

lemma ready_exists:
  assumes dist: "distinct (step_ids (wd_Steps def))" and cl: "closed_deps (wd_Steps def)"
    and ac: "acyclic (dep_rel (wd_Steps def))"
    and noaux: "\<forall>s \<in> set (wd_Steps def). \<not> bget (wd_AuxSteps def) (sd_ID s) \<longrightarrow>
                  (\<forall>d \<in> set (sd_DependsOn s). \<not> bget (wd_AuxSteps def) d)"
    and idle: "\<forall>x. bget queued x \<longrightarrow> bget completed x"
    and left: "\<not> IsComplete def completed"
  shows "\<exists>s. s \<in> set (ResolveReady def completed queued)"
proof -
  let ?steps = "wd_Steps def"
  let ?Q = "{x \<in> set (step_ids ?steps). \<not> bget completed x \<and> \<not> bget (wd_AuxSteps def) x}"
  obtain v where "v \<in> ?Q" using left by (auto simp: IsComplete_iff)
  then obtain m where m: "m \<in> ?Q" "\<forall>d \<in> set (deps_of ?steps m). d \<notin> ?Q"
    by (rule minimal_uncompleted [OF cl ac])
  then obtain s where s: "s \<in> set ?steps" "sd_ID s = m" by auto
  have deps: "deps_of ?steps m = sd_DependsOn s" using deps_of_step [OF dist s(1)] s(2) by simp
  have "bget completed d" if d: "d \<in> set (sd_DependsOn s)" for d
  proof -
    have "d \<in> set (step_ids ?steps)" using cl s(1) d by (auto simp: closed_deps_def)
    moreover have "\<not> bget (wd_AuxSteps def) d" using noaux s m(1) d by blast
    ultimately show ?thesis using m(2) d deps by auto
  qed
  then have "s \<in> set (ResolveReady def completed queued)"
    using s m(1) idle unfolding ResolveReady_iff by blast
  then show ?thesis by blast
qed

lemma compensation_target:
  assumes "Validate zones def = Ok ()" "s \<in> set (wd_Steps def)" "sd_Compensate s \<noteq> []"
  obtains t where "t \<in> set (wd_Steps def)" "sd_ID t = sd_Compensate s"
    "mget zero_StepDef (indexSteps (wd_Steps def)) (sd_Compensate s) = t"
proof -
  obtain t where t: "t \<in> set (wd_Steps def)" "sd_ID t = sd_Compensate s"
    using Validate_aux(2) [OF assms(1,2)] assms(3) by (auto simp: aux_target_ok_def)
  then have "map_of (indexSteps (wd_Steps def)) (sd_Compensate s) = Some t"
    using indexSteps_lookup [OF Validate_distinct [OF assms(1)]] by blast
  with t show ?thesis by (intro that [of t]) (auto simp: mget_def)
qed

lemma compensations_ids:
  assumes "Validate zones def = Ok ()"
  shows "step_ids (compensations def completed)
    = map sd_Compensate (filter (\<lambda>s. sd_Compensate s \<noteq> [] \<and> bget completed (sd_ID s)) (wd_Steps def))"
  unfolding compensations_def by (auto elim!: compensation_target [OF assms])

lemma compensations_in:
  assumes "Validate zones def = Ok ()"
  shows "set (compensations def completed) \<subseteq> set (wd_Steps def)"
  unfolding compensations_def by (auto elim!: compensation_target [OF assms])

section \<open>Properties\<close>

text \<open>C11: a run never gets stuck in dependency resolution. For a definition that passes validation,
  whose auxiliary steps are those the builder computes and none of whose ordinary steps depends on an
  auxiliary one: if no step is in flight and the run is not complete, then some step is ready, and
  every ready step is a step of the definition that is neither completed nor queued, is not auxiliary
  and has all its dependencies completed; none is listed twice.\<close>

theorem resolution_makes_progress:
  assumes "Validate zones def = Ok ()" "wd_AuxSteps def = buildAuxSteps (wd_Steps def)"
    and "\<forall>s \<in> set (wd_Steps def). \<not> bget (wd_AuxSteps def) (sd_ID s) \<longrightarrow>
           (\<forall>d \<in> set (sd_DependsOn s). \<not> bget (wd_AuxSteps def) d)"
    and "\<forall>x. bget queued x \<longrightarrow> bget completed x" "\<not> IsComplete def completed"
  shows "ResolveReady def completed queued \<noteq> []
    \<and> distinct (step_ids (ResolveReady def completed queued))
    \<and> (\<forall>s \<in> set (ResolveReady def completed queued).
         s \<in> set (wd_Steps def) \<and> \<not> bget completed (sd_ID s) \<and> \<not> bget queued (sd_ID s)
         \<and> (\<forall>t \<in> set (wd_Steps def). sd_ID s \<noteq> sd_OnFailure t \<and> sd_ID s \<noteq> sd_Compensate t)
         \<and> (\<forall>d \<in> set (sd_DependsOn s). bget completed d))"
proof (intro conjI)
  note V = Validate_distinct [OF assms(1)] Validate_closed [OF assms(1)] Validate_acyclic [OF assms(1)]
  show "ResolveReady def completed queued \<noteq> []"
    using ready_exists [OF V assms(3-5)] by (metis empty_iff list.set(1))
  show "distinct (step_ids (ResolveReady def completed queued))"
    by (rule distinct_ResolveReady [OF V(1)])
  show "\<forall>s \<in> set (ResolveReady def completed queued).
         s \<in> set (wd_Steps def) \<and> \<not> bget completed (sd_ID s) \<and> \<not> bget queued (sd_ID s)
         \<and> (\<forall>t \<in> set (wd_Steps def). sd_ID s \<noteq> sd_OnFailure t \<and> sd_ID s \<noteq> sd_Compensate t)
         \<and> (\<forall>d \<in> set (sd_DependsOn s). bget completed d)"
    using assms(2) Validate_ids [OF assms(1)] by (auto simp: ResolveReady_iff buildAuxSteps_iff)
qed

definition fork_workflow :: WorkflowDef where
  "fork_workflow = zero_WorkflowDef\<lparr>wd_Name := ''w'',
     wd_Steps := [zero_StepDef\<lparr>sd_ID := ''b'', sd_Task := ''t'', sd_DependsOn := [''a''], sd_Compensate := ''v''\<rparr>,
                  zero_StepDef\<lparr>sd_ID := ''a'', sd_Task := ''t'', sd_Compensate := ''u''\<rparr>,
                  zero_StepDef\<lparr>sd_ID := ''u'', sd_Task := ''t''\<rparr>,
                  zero_StepDef\<lparr>sd_ID := ''v'', sd_Task := ''t''\<rparr>],
     wd_AuxSteps := [(''v'', True), (''u'', True)]\<rparr>"

lemma fork_aux: "wd_AuxSteps fork_workflow = buildAuxSteps (wd_Steps fork_workflow)"
  by (simp add: fork_workflow_def buildAuxSteps_def zero_StepDef_def zero_WorkflowDef_def)

lemma fork_acyclic: "detectCycle (wd_Steps fork_workflow) = Ok ()"
  by (simp add: detectCycle_eval fork_workflow_def zero_StepDef_def zero_WorkflowDef_def map_simps check_def)

lemma fork_valid: "Validate (\<lambda>_. None) fork_workflow = Ok ()"
  using fork_acyclic by (simp add: fork_workflow_def validate_eval)

theorem resolution_makes_progress_witness: "ResolveReady fork_workflow [(''a'', True)] [] \<noteq> []"
proof -
  have "\<forall>s \<in> set (wd_Steps fork_workflow). \<not> bget (wd_AuxSteps fork_workflow) (sd_ID s) \<longrightarrow>
      (\<forall>d \<in> set (sd_DependsOn s). \<not> bget (wd_AuxSteps fork_workflow) d)"
    by (simp add: fork_workflow_def zero_StepDef_def zero_WorkflowDef_def map_simps)
  moreover have "\<not> IsComplete fork_workflow [(''a'', True)]"
    by (simp add: IsComplete_def fork_workflow_def zero_StepDef_def zero_WorkflowDef_def map_simps)
  ultimately show ?thesis
    using resolution_makes_progress [OF fork_valid fork_aux, of "[]" "[(''a'', True)]"]
    by (simp add: bget_Nil)
qed

definition stuck_workflow :: WorkflowDef where
  "stuck_workflow = zero_WorkflowDef\<lparr>wd_Name := ''w'',
     wd_Steps := [zero_StepDef\<lparr>sd_ID := ''a'', sd_Task := ''t'', sd_OnFailure := ''f''\<rparr>,
                  zero_StepDef\<lparr>sd_ID := ''f'', sd_Task := ''t''\<rparr>,
                  zero_StepDef\<lparr>sd_ID := ''b'', sd_Task := ''t'', sd_DependsOn := [''f'']\<rparr>],
     wd_AuxSteps := [(''f'', True)]\<rparr>"

lemma stuck_aux: "wd_AuxSteps stuck_workflow = buildAuxSteps (wd_Steps stuck_workflow)"
  by (simp add: stuck_workflow_def buildAuxSteps_def zero_StepDef_def zero_WorkflowDef_def)

lemma stuck_acyclic: "detectCycle (wd_Steps stuck_workflow) = Ok ()"
  by (simp add: detectCycle_eval stuck_workflow_def zero_StepDef_def zero_WorkflowDef_def map_simps check_def)

lemma stuck_valid: "Validate (\<lambda>_. None) stuck_workflow = Ok ()"
  using stuck_acyclic by (simp add: stuck_workflow_def validate_eval)

lemma stuck_eval:
  "\<not> IsComplete stuck_workflow [(''a'', True)]"
  "ResolveReady stuck_workflow [(''a'', True)] [(''a'', True)] = []"
  "ResolveSkipped stuck_workflow [(''a'', True)] [(''a'', True)] steps = []"
  by (simp_all add: IsComplete_def ResolveReady_def ResolveSkipped_def allDepsCompleted_def
      stuck_workflow_def zero_StepDef_def zero_WorkflowDef_def map_simps)



lemma fork_chain:
  "step_ids (ResolveCompensateChain fork_workflow [(''a'', True), (''b'', True)] failed) = [''u'', ''v'']"
  by (simp add: ResolveCompensateChain_def compensations_def fork_workflow_def indexSteps_def
      zero_StepDef_def zero_WorkflowDef_def map_simps)


text \<open>Compensation follows the order in which the definition lists its steps, not the dependency
  order. In a definition that passes validation and lists step \<open>b\<close> before the step \<open>a\<close> it depends on,
  the compensation \<open>u\<close> of \<open>a\<close> runs first and the compensation \<open>v\<close> of its dependent \<open>b\<close> after it.\<close>

theorem compensation_ignores_dependencies:
  "Validate (\<lambda>_. None) fork_workflow = Ok () \<and> (''a'', ''b'') \<in> dep_rel (wd_Steps fork_workflow)
   \<and> map (\<lambda>s. (sd_ID s, sd_Compensate s)) (wd_Steps fork_workflow)
       = [(''b'', ''v''), (''a'', ''u''), (''u'', []), (''v'', [])]
   \<and> step_ids (ResolveCompensateChain fork_workflow [(''a'', True), (''b'', True)] failed) = [''u'', ''v'']"
proof -
  have "(''a'', ''b'') \<in> dep_rel (wd_Steps fork_workflow)"
    "map (\<lambda>s. (sd_ID s, sd_Compensate s)) (wd_Steps fork_workflow)
       = [(''b'', ''v''), (''a'', ''u''), (''u'', []), (''v'', [])]"
    by (simp_all add: fork_workflow_def zero_StepDef_def zero_WorkflowDef_def dep_rel_def)
  then show ?thesis using fork_valid fork_chain by blast
qed

end
