(* ===== verification/Dag_Dynamic.thy ===== *)
theory Dag_Dynamic
  imports Dag_Resolve
begin

text \<open>
  Steps generated at run time (src/dag/dynamic.go): the definition a run sees once planner fragments
  are part of it, the validation of a fragment, and its name space; and what the engine does around
  them (src/internal/engine/planner.go): the bound on generated steps and the wiring of entry steps
  to their planner. Together they keep the step graph of a run well formed.
\<close>

section \<open>Effective definitions\<close>

definition EffectiveSteps :: "WorkflowDef \<Rightarrow> WorkflowRun \<Rightarrow> StepDef list" where
  "EffectiveSteps def run =
     (if wr_DynamicSteps run = [] then wd_Steps def else wd_Steps def @ wr_DynamicSteps run)"

definition EffectiveDef :: "WorkflowDef \<Rightarrow> WorkflowRun \<Rightarrow> ('e, WorkflowDef) res" where
  "EffectiveDef def run =
     (if wd_Steps def = [] then Panic ''EffectiveDef''
      else if wr_RunID run = [] then Panic ''EffectiveDef''
      else if wr_DynamicSteps run = [] then Ok def
      else Ok (def\<lparr>wd_Steps := EffectiveSteps def run,
                   wd_AuxSteps := buildAuxSteps (EffectiveSteps def run)\<rparr>))"

section \<open>Fragments\<close>

datatype fragment_error =
    FragmentEmpty
  | FragmentTooLarge nat int
  | FragmentEmptyID
  | FragmentDuplicateID string
  | FragmentCollision string
  | FragmentEmptyTask string
  | FragmentDispatch validate_error
  | FragmentDisallowedTask string string
  | FragmentOutsideDep string string
  | FragmentCycle cycle_error
  | FragmentTooDeep int int

fun fragment_ids :: "bool gomap \<Rightarrow> bool gomap \<Rightarrow> StepDef list \<Rightarrow> fragment_error checked" where
  "fragment_ids existingIDs seen [] = Ok ()"
| "fragment_ids existingIDs seen (step # steps) =
     (if sd_ID step = [] then Err FragmentEmptyID
      else if bget seen (sd_ID step) then Err (FragmentDuplicateID (sd_ID step))
      else if bget existingIDs (sd_ID step) then Err (FragmentCollision (sd_ID step))
      else fragment_ids existingIDs (mput (sd_ID step) True seen) steps)"

definition validateFragmentIDs :: "StepDef list \<Rightarrow> bool gomap option \<Rightarrow> fragment_error checked" where
  "validateFragmentIDs fragment existingIDs =
     (case existingIDs of
        None \<Rightarrow> Panic ''validateFragmentIDs''
      | Some ids \<Rightarrow>
          if fragment = [] then Panic ''validateFragmentIDs'' else fragment_ids ids [] fragment)"

definition validateFragmentTasks :: "StepDef list \<Rightarrow> string list \<Rightarrow> fragment_error checked" where
  "validateFragmentTasks fragment allowedTasks =
     (if fragment = [] then Panic ''validateFragmentTasks''
      else for_each (\<lambda>step.
             chain [check (sd_Task step = []) (FragmentEmptyTask (sd_ID step)),
                    map_err FragmentDispatch (validateStepDispatch step),
                    check (allowedTasks \<noteq> [] \<and> sd_Task step \<notin> set allowedTasks)
                      (FragmentDisallowedTask (sd_ID step) (sd_Task step))])
           fragment)"

definition validateFragmentDeps :: "StepDef list \<Rightarrow> fragment_error checked" where
  "validateFragmentDeps fragment =
     (if fragment = [] then Panic ''validateFragmentDeps''
      else for_each (\<lambda>step.
             for_each (\<lambda>dep. check (dep \<notin> set (step_ids fragment)) (FragmentOutsideDep (sd_ID step) dep))
               (sd_DependsOn step))
           fragment)"

definition ValidateFragment ::
    "StepDef list \<Rightarrow> PlannerConfig \<Rightarrow> bool gomap option \<Rightarrow> fragment_error checked" where
  "ValidateFragment fragment cfg existingIDs =
     chain [panic_if (existingIDs = None) ''ValidateFragment'',
            panic_if (pl_MaxSteps cfg \<le> 0) ''ValidateFragment'',
            check (fragment = []) FragmentEmpty,
            check (int (length fragment) > pl_MaxSteps cfg)
              (FragmentTooLarge (length fragment) (pl_MaxSteps cfg)),
            validateFragmentIDs fragment existingIDs,
            validateFragmentTasks fragment (pl_AllowedTasks cfg),
            validateFragmentDeps fragment,
            map_err FragmentCycle (detectCycle fragment),
            if pl_MaxDepth cfg > 0
            then and_then (maxChainDepth fragment) (\<lambda>depth.
                   check (depth > pl_MaxDepth cfg) (FragmentTooDeep depth (pl_MaxDepth cfg)))
            else Ok ()]"

definition namespace_step :: "string \<Rightarrow> StepDef \<Rightarrow> StepDef" where
  "namespace_step plannerID step =
     step\<lparr>sd_ID := plannerID @ ''.'' @ sd_ID step, sd_Type := StepTypeNormal,
          sd_DependsOn := map (\<lambda>dep. plannerID @ ''.'' @ dep) (sd_DependsOn step)\<rparr>"

definition NamespaceFragment :: "string \<Rightarrow> StepDef list \<Rightarrow> ('e, StepDef list) res" where
  "NamespaceFragment plannerID fragment =
     (if plannerID = [] then Panic ''NamespaceFragment''
      else if fragment = [] then Panic ''NamespaceFragment''
      else Ok (map (namespace_step plannerID) fragment))"

section \<open>The engine's checks around a fragment\<close>

definition maxTotalDynamicSteps :: nat where
  "maxTotalDynamicSteps = 500"

datatype planner_error =
    PlannerConfigInvalid config_error
  | PlannerPayloadInvalid
  | TooManyDynamicSteps nat
  | FragmentInvalid fragment_error

definition checkDynamicBound :: "WorkflowRun \<Rightarrow> StepDef list \<Rightarrow> planner_error checked" where
  "checkDynamicBound run fragment =
     (if fragment = [] then Panic ''checkDynamicBound''
      else let total = length (wr_DynamicSteps run) + length fragment
           in check (total > maxTotalDynamicSteps) (TooManyDynamicSteps total))"

definition buildExistingIDSet :: "WorkflowDef \<Rightarrow> ('e, bool gomap) res" where
  "buildExistingIDSet wfDef =
     (if wd_Steps wfDef = [] then Panic ''buildExistingIDSet''
      else Ok (fold (\<lambda>step ids. mput (sd_ID step) True ids) (wd_Steps wfDef) []))"

definition wireEntrySteps :: "StepDef list \<Rightarrow> string \<Rightarrow> ('e, StepDef list) res" where
  "wireEntrySteps fragment plannerID =
     (if plannerID = [] then Panic ''wireEntrySteps''
      else if fragment = [] then Panic ''wireEntrySteps''
      else Ok (map (\<lambda>step. if sd_DependsOn step = [] then step\<lparr>sd_DependsOn := [plannerID]\<rparr> else step)
                 fragment))"

text \<open>What \<open>materializePlannerOutput\<close> computes before it changes the run: the steps to add, none when
  the plan is empty, or the reason to fail. Decoding the worker's JSON into steps is an argument.\<close>

definition parsePlannerPayload ::
    "(raw \<Rightarrow> StepDef list option) \<Rightarrow> raw \<Rightarrow> (planner_error, StepDef list) res" where
  "parsePlannerPayload decode payload =
     (if raw_empty payload then Ok []
      else (case decode payload of None \<Rightarrow> Err PlannerPayloadInvalid | Some steps \<Rightarrow> Ok steps))"

definition planned_steps ::
    "(raw \<Rightarrow> StepDef list option) \<Rightarrow> WorkflowDef \<Rightarrow> WorkflowRun \<Rightarrow> StepDef \<Rightarrow> raw \<Rightarrow>
     (planner_error, StepDef list) res" where
  "planned_steps decode wfDef run stepDef payload =
     (if wr_RunID run = [] then Panic ''materializePlannerOutput''
      else if sd_ID stepDef = [] then Panic ''materializePlannerOutput''
      else
        and_then (map_err PlannerConfigInvalid (ParsePlannerConfig stepDef)) (\<lambda>cfg.
        and_then (parsePlannerPayload decode payload) (\<lambda>fragment.
        if fragment = [] then Ok []
        else
          and_then (checkDynamicBound run fragment) (\<lambda>_.
          and_then (buildExistingIDSet wfDef) (\<lambda>existingIDs.
          and_then (NamespaceFragment (sd_ID stepDef) fragment) (\<lambda>namespaced.
          and_then (map_err FragmentInvalid (ValidateFragment namespaced cfg (Some existingIDs))) (\<lambda>_.
          wireEntrySteps namespaced (sd_ID stepDef))))))))"

text \<open>\<open>applyFragment\<close>: the state change.\<close>

definition apply_fragment :: "WorkflowRun \<Rightarrow> StepDef list \<Rightarrow> WorkflowRun" where
  "apply_fragment run fragment =
     run\<lparr>wr_DynamicSteps := wr_DynamicSteps run @ fragment,
         wr_Steps := fold (\<lambda>step m. mput (sd_ID step) (zero_StepState\<lparr>ss_Status := StepStatusPending\<rparr>) m)
                       fragment (wr_Steps run)\<rparr>"

section \<open>An accepted fragment\<close>

lemma fragment_ids_Ok:
  "fragment_ids existing seen steps = Ok () \<Longrightarrow>
     distinct (step_ids steps) \<and> [] \<notin> set (step_ids steps)
     \<and> (\<forall>x \<in> set (step_ids steps). \<not> bget seen x \<and> \<not> bget existing x)"
proof (induction existing seen steps rule: fragment_ids.induct)
  case (2 existing seen step steps)
  then have "distinct (step_ids steps) \<and> [] \<notin> set (step_ids steps)
     \<and> (\<forall>x \<in> set (step_ids steps). \<not> bget (mput (sd_ID step) True seen) x \<and> \<not> bget existing x)"
    by (auto split: if_splits)
  then show ?case using 2(2) by (auto simp: bget_update split: if_splits)
qed simp

lemma ValidateFragment_Ok:
  assumes "ValidateFragment fragment cfg (Some ids) = Ok ()"
  shows "fragment \<noteq> []" "int (length fragment) \<le> pl_MaxSteps cfg" "distinct (step_ids fragment)"
    "\<forall>x \<in> set (step_ids fragment). \<not> bget ids x" "closed_deps fragment" "acyclic (dep_rel fragment)"
proof -
  from assms have v: "validateFragmentIDs fragment (Some ids) = Ok ()" "validateFragmentDeps fragment = Ok ()"
    "detectCycle fragment = Ok ()" and ne: "fragment \<noteq> []"
    and le: "int (length fragment) \<le> pl_MaxSteps cfg"
    by (auto simp: ValidateFragment_def)
  show "fragment \<noteq> []" "int (length fragment) \<le> pl_MaxSteps cfg" by (fact ne le)+
  show dist: "distinct (step_ids fragment)" and "\<forall>x \<in> set (step_ids fragment). \<not> bget ids x"
    using fragment_ids_Ok [of ids "[]" fragment] v(1) ne by (auto simp: validateFragmentIDs_def)
  show cl: "closed_deps fragment"
    using v(2) ne by (auto simp: validateFragmentDeps_def closed_deps_def)
  show "acyclic (dep_rel fragment)" using detectCycle_acyclic [OF dist cl] v(3) by blast
qed

lemma buildExistingIDSet_iff:
  assumes "buildExistingIDSet wfDef = Ok ids"
  shows "bget ids x \<longleftrightarrow> x \<in> set (step_ids (wd_Steps wfDef))"
proof -
  have "bget (fold (\<lambda>step ids. mput (sd_ID step) True ids) steps m) x \<longleftrightarrow> bget m x \<or> x \<in> set (step_ids steps)"
    for steps m by (induction steps arbitrary: m) (auto simp: bget_update)
  then show ?thesis using assms by (auto simp: buildExistingIDSet_def bget_Nil split: if_splits)
qed

definition wire_step :: "string \<Rightarrow> StepDef \<Rightarrow> StepDef" where
  "wire_step plannerID step = (if sd_DependsOn step = [] then step\<lparr>sd_DependsOn := [plannerID]\<rparr> else step)"

lemma wire_step_simps [simp]:
  "sd_ID (wire_step p s) = sd_ID s" "sd_Type (wire_step p s) = sd_Type s"
  "sd_DependsOn (wire_step p s) = (if sd_DependsOn s = [] then [p] else sd_DependsOn s)"
  by (auto simp: wire_step_def)

lemma namespace_step_simps [simp]:
  "sd_ID (namespace_step p s) = p @ ''.'' @ sd_ID s" "sd_Type (namespace_step p s) = StepTypeNormal"
  by (auto simp: namespace_step_def)

text \<open>The steps added by an accepted plan are the wired, namespaced steps of a fragment that passed
  validation.\<close>

lemma planned_stepsE:
  assumes "planned_steps decode wfDef run stepDef payload = Ok new" "new \<noteq> []"
  obtains fragment cfg ids where "new = map (wire_step (sd_ID stepDef)) fragment"
    "ValidateFragment fragment cfg (Some ids) = Ok ()" "ParsePlannerConfig stepDef = Ok cfg"
    "\<forall>x. bget ids x \<longleftrightarrow> x \<in> set (step_ids (wd_Steps wfDef))"
    "\<forall>s \<in> set fragment. sd_Type s = StepTypeNormal \<and> has_prefix (sd_ID s) (sd_ID stepDef @ ''.'')"
    "length (wr_DynamicSteps run) + length new \<le> maxTotalDynamicSteps"
proof -
  from assms obtain cfg steps ids nsteps where
    c: "ParsePlannerConfig stepDef = Ok cfg" and bound: "checkDynamicBound run steps = Ok ()"
    and ids: "(buildExistingIDSet wfDef :: (planner_error, bool gomap) res) = Ok ids"
    and ns: "(NamespaceFragment (sd_ID stepDef) steps :: (planner_error, StepDef list) res) = Ok nsteps"
    and v: "ValidateFragment nsteps cfg (Some ids) = Ok ()"
    and w: "(wireEntrySteps nsteps (sd_ID stepDef) :: (planner_error, StepDef list) res) = Ok new"
    by (auto simp: planned_steps_def and_then_eq_Ok split: if_splits)
  have nsteps: "nsteps = map (namespace_step (sd_ID stepDef)) steps"
    using ns by (auto simp: NamespaceFragment_def split: if_splits)
  show ?thesis
  proof (rule that [OF _ v c])
    show "new = map (wire_step (sd_ID stepDef)) nsteps"
      using w by (auto simp: wireEntrySteps_def wire_step_def split: if_splits)
    then show "length (wr_DynamicSteps run) + length new \<le> maxTotalDynamicSteps"
      using bound by (auto simp: checkDynamicBound_def nsteps Let_def split: if_splits)
  qed (auto simp: buildExistingIDSet_iff [OF ids] nsteps has_prefix_def)
qed

lemma deps_of_append:
  "deps_of (A @ B) v = (if v \<in> set (step_ids A) then deps_of A v else deps_of B v)"
  by (induction A) auto

lemma deps_of_wire:
  "v \<in> set (step_ids B) \<Longrightarrow>
     deps_of (map (wire_step p) B) v = (if deps_of B v = [] then [p] else deps_of B v)"
  by (induction B) auto

lemma graph_extension:
  assumes A: "distinct (step_ids A)" "closed_deps A" "acyclic (dep_rel A)"
    and B: "distinct (step_ids B)" "closed_deps B" "acyclic (dep_rel B)"
    and disj: "set (step_ids A) \<inter> set (step_ids B) = {}" and p: "p \<in> set (step_ids A)"
  shows "distinct (step_ids (A @ map (wire_step p) B))" "closed_deps (A @ map (wire_step p) B)"
    "acyclic (dep_rel (A @ map (wire_step p) B))"
proof -
  let ?all = "A @ map (wire_step p) B"
  have ids: "step_ids (map (wire_step p) B) = step_ids B" by (simp add: comp_def)
  then show dist: "distinct (step_ids ?all)" using A(1) B(1) disj by (simp add: comp_def)
  have all: "set (step_ids ?all) = set (step_ids A) \<union> set (step_ids B)" using ids by simp
  show cl: "closed_deps ?all"
    unfolding closed_deps_def all
  proof
    fix s assume "s \<in> set ?all"
    then consider "s \<in> set A" | t where "t \<in> set B" "s = wire_step p t" by auto
    then show "set (sd_DependsOn s) \<subseteq> set (step_ids A) \<union> set (step_ids B)"
    proof cases
      case 1
      then have "set (sd_DependsOn s) \<subseteq> set (step_ids A)" using A(2) unfolding closed_deps_def by blast
      then show ?thesis by blast
    next
      case 2
      then have "set (sd_DependsOn t) \<subseteq> set (step_ids B)" using B(2) unfolding closed_deps_def by blast
      then show ?thesis using 2(2) p by auto
    qed
  qed
  obtain P Q where P: "distinct P" "set P = set (step_ids A)" "topo A P"
    and Q: "distinct Q" "set Q = set (step_ids B)" "topo B Q"
    using topological_order [OF A] topological_order [OF B] by blast
  have "topo ?all (P @ Q)"
    unfolding topo_def
  proof (intro allI impI)
    fix i assume i: "i < length (P @ Q)"
    show "set (deps_of ?all ((P @ Q) ! i)) \<subseteq> set (take i (P @ Q))"
    proof (cases "i < length P")
      case True
      then have "P ! i \<in> set (step_ids A)" using P(2) nth_mem by blast
      then show ?thesis using True P(3) by (auto simp: nth_append deps_of_append topo_def)
    next
      case False
      let ?j = "i - length P"
      have j: "?j < length Q" using i False by simp
      then have v: "Q ! ?j \<in> set (step_ids B)" using Q(2) nth_mem by blast
      then have "deps_of ?all (Q ! ?j) = (if deps_of B (Q ! ?j) = [] then [p] else deps_of B (Q ! ?j))"
        using disj by (auto simp: deps_of_append deps_of_wire)
      moreover have "set (deps_of B (Q ! ?j)) \<subseteq> set (take ?j Q)" using Q(3) j by (simp add: topo_def)
      ultimately show ?thesis using False p P(2) by (auto simp: nth_append)
    qed
  qed
  moreover have "distinct (P @ Q)" "set (step_ids ?all) \<subseteq> set (P @ Q)"
    unfolding all using P(1,2) Q(1,2) disj by auto
  ultimately show "acyclic (dep_rel ?all)" by (rule topo_acyclic)
qed

section \<open>Properties\<close>


definition planner_step :: StepDef where
  "planner_step = zero_StepDef\<lparr>sd_ID := ''p'', sd_Task := ''t'', sd_Type := StepTypePlanner,
     sd_Config := RJson (JObj [(''max_steps'', JInt 3)])\<rparr>"

definition planner_workflow :: WorkflowDef where
  "planner_workflow = zero_WorkflowDef\<lparr>wd_Name := ''w'',
     wd_Steps := [planner_step, zero_StepDef\<lparr>sd_ID := ''b'', sd_Task := ''t'', sd_DependsOn := [''p'']\<rparr>]\<rparr>"

definition planner_run :: WorkflowRun where
  "planner_run = zero_WorkflowRun\<lparr>wr_RunID := ''r''\<rparr>"

text \<open>A plan of one step \<open>x\<close> that names the static step \<open>b\<close> as its failure handler.\<close>

definition handler_plan :: "raw \<Rightarrow> StepDef list option" where
  "handler_plan payload = Some [zero_StepDef\<lparr>sd_ID := ''x'', sd_Task := ''t'', sd_OnFailure := ''b''\<rparr>]"

lemma planner_step_config:
  "ParsePlannerConfig planner_step = Ok \<lparr>pl_MaxSteps = 3, pl_MaxDepth = 0, pl_AllowedTasks = []\<rparr>"
  by (simp add: planner_step_def zero_StepDef_def ParsePlannerConfig_def parse_config_def
      unmarshal_struct_def dec_PlannerConfig_def dec_field_def to_lower_def to_lower_char_def
      dec_int_def int64_ok_def)

lemma handler_plan_accepted:
  "planned_steps handler_plan planner_workflow planner_run planner_step (RJson JNull)
     = Ok [zero_StepDef\<lparr>sd_ID := ''p.x'', sd_Task := ''t'', sd_OnFailure := ''b'', sd_DependsOn := [''p'']\<rparr>]"
proof -
  let ?x = "zero_StepDef\<lparr>sd_ID := ''p.x'', sd_Task := ''t'', sd_OnFailure := ''b''\<rparr>"
  have d: "detectCycle [?x] = Ok ()"
    by (simp add: detectCycle_eval zero_StepDef_def map_simps check_def)
  have i: "(buildExistingIDSet planner_workflow :: (planner_error, bool gomap) res)
      = Ok [(''p'', True), (''b'', True)]"
    by (simp add: buildExistingIDSet_def planner_workflow_def planner_step_def zero_StepDef_def)
  have n: "(NamespaceFragment ''p'' [zero_StepDef\<lparr>sd_ID := ''x'', sd_Task := ''t'', sd_OnFailure := ''b''\<rparr>]
      :: (planner_error, StepDef list) res) = Ok [?x]"
    by (simp add: NamespaceFragment_def namespace_step_def zero_StepDef_def)
  have v: "ValidateFragment [?x] \<lparr>pl_MaxSteps = 3, pl_MaxDepth = 0, pl_AllowedTasks = []\<rparr>
      (Some [(''p'', True), (''b'', True)]) = Ok ()"
    using d by (simp add: ValidateFragment_def validateFragmentIDs_def validateFragmentTasks_def
        validateFragmentDeps_def validate_eval)
  have "sd_ID planner_step = ''p''" by (simp add: planner_step_def)
  then show ?thesis
    using i n v by (simp add: planned_steps_def planner_step_config handler_plan_def parsePlannerPayload_def
        raw_empty_def checkDynamicBound_def maxTotalDynamicSteps_def wireEntrySteps_def planner_run_def
        zero_WorkflowRun_def zero_StepDef_def check_def)
qed

lemma planner_valid: "Validate (\<lambda>_. None) planner_workflow = Ok ()"
proof -
  have "detectCycle (wd_Steps planner_workflow) = Ok ()"
    by (simp add: detectCycle_eval planner_workflow_def planner_step_def zero_StepDef_def map_simps check_def)
  then show ?thesis
    using planner_step_config by (simp add: planner_workflow_def planner_step_def validate_eval)
qed


text \<open>A generated step can switch off a step of the definition. References other than
  \<open>depends_on\<close> are neither prefixed nor validated, so the accepted one-step plan above, whose step
  names the static step \<open>b\<close> as its failure handler, makes \<open>b\<close> auxiliary in the definition the run sees
  from then on. Before the plan the run waits for \<open>b\<close>; after it, the run is complete as soon as the
  planner and the generated step are, and \<open>b\<close> is never ready.\<close>

theorem planner_step_disables_static_step:
  "Validate (\<lambda>_. None) planner_workflow = Ok ()
   \<and> wd_AuxSteps planner_workflow = buildAuxSteps (wd_Steps planner_workflow)
   \<and> (\<exists>new def'. planned_steps handler_plan planner_workflow planner_run planner_step (RJson JNull) = Ok new
        \<and> (EffectiveDef planner_workflow (apply_fragment planner_run new) :: (unit, WorkflowDef) res) = Ok def'
        \<and> \<not> IsComplete planner_workflow [(''p'', True), (''p.x'', True)]
        \<and> IsComplete def' [(''p'', True), (''p.x'', True)]
        \<and> (\<forall>queued. ''b'' \<notin> set (step_ids (ResolveReady def' [(''p'', True), (''p.x'', True)] queued))))"
proof -
  let ?x = "zero_StepDef\<lparr>sd_ID := ''p.x'', sd_Task := ''t'', sd_OnFailure := ''b'', sd_DependsOn := [''p'']\<rparr>"
  let ?def = "planner_workflow\<lparr>wd_Steps := wd_Steps planner_workflow @ [?x], wd_AuxSteps := [(''b'', True)]\<rparr>"
  have e: "(EffectiveDef planner_workflow (apply_fragment planner_run [?x]) :: (unit, WorkflowDef) res) = Ok ?def"
    by (simp add: EffectiveDef_def EffectiveSteps_def apply_fragment_def planner_run_def planner_workflow_def
        planner_step_def buildAuxSteps_def zero_StepDef_def zero_WorkflowRun_def)
  have c: "\<not> IsComplete planner_workflow [(''p'', True), (''p.x'', True)]"
    "IsComplete ?def [(''p'', True), (''p.x'', True)]"
    "wd_AuxSteps planner_workflow = buildAuxSteps (wd_Steps planner_workflow)"
    by (simp_all add: IsComplete_def planner_workflow_def planner_step_def buildAuxSteps_def
        zero_StepDef_def zero_WorkflowDef_def map_simps)
  have r: "\<forall>queued. ''b'' \<notin> set (step_ids (ResolveReady ?def [(''p'', True), (''p.x'', True)] queued))"
    by (auto simp: ResolveReady_def bget_Cons)
  show ?thesis using planner_valid handler_plan_accepted e c r by blast
qed

text \<open>After a second plan the steps of the first are listed twice. The handlers load a run with
  its effective definition, and \<open>applyFragment\<close> extends that definition by all generated steps once
  more: each earlier generated step that is ready is then dispatched twice in one pass.\<close>

theorem second_plan_repeats_generated_steps:
  assumes "(EffectiveDef def run :: ('e, WorkflowDef) res) = Ok def1" "wr_DynamicSteps run \<noteq> []"
    and "(EffectiveDef def1 (apply_fragment run new) :: ('e, WorkflowDef) res) = Ok def2"
  shows "wd_Steps def2 = wd_Steps def @ wr_DynamicSteps run @ wr_DynamicSteps run @ new
    \<and> (\<forall>s \<in> set (wr_DynamicSteps run). s \<in> set (ResolveReady def2 completed queued) \<longrightarrow>
         2 \<le> count_list (ResolveReady def2 completed queued) s)"
proof -
  have steps: "wd_Steps def2 = wd_Steps def @ wr_DynamicSteps run @ wr_DynamicSteps run @ new"
    using assms by (auto simp: EffectiveDef_def EffectiveSteps_def apply_fragment_def split: if_splits)
  have one: "1 \<le> count_list (filter P xs) s" if "s \<in> set xs" "P s" for P and xs :: "StepDef list" and s
    using that count_list_0_iff [of "filter P xs" s] by (simp add: Suc_le_eq)
  have "2 \<le> count_list (ResolveReady def2 completed queued) s"
    if "s \<in> set (wr_DynamicSteps run)" "s \<in> set (ResolveReady def2 completed queued)" for s
  proof -
    let ?P = "\<lambda>step. \<not> (bget completed (sd_ID step) \<or> bget queued (sd_ID step))
        \<and> \<not> bget (wd_AuxSteps def2) (sd_ID step) \<and> allDepsCompleted (sd_DependsOn step) completed"
    have "?P s" using that(2) by (auto simp: ResolveReady_def)
    then have "1 \<le> count_list (filter ?P (wr_DynamicSteps run)) s" by (rule one [OF that(1)])
    then show ?thesis unfolding ResolveReady_def steps filter_append count_list_append by simp
  qed
  then show ?thesis using steps by blast
qed

theorem second_plan_repeats_generated_steps_witness:
  "\<exists>def2. (EffectiveDef (planner_workflow\<lparr>wd_Steps := [planner_step, zero_StepDef\<lparr>sd_ID := ''p.y''\<rparr>]\<rparr>)
        (apply_fragment (planner_run\<lparr>wr_DynamicSteps := [zero_StepDef\<lparr>sd_ID := ''p.y''\<rparr>]\<rparr>) []) :: (unit, WorkflowDef) res) = Ok def2
     \<and> 2 \<le> count_list (ResolveReady def2 [] []) (zero_StepDef\<lparr>sd_ID := ''p.y''\<rparr>)"
proof -
  let ?y = "zero_StepDef\<lparr>sd_ID := ''p.y''\<rparr>"
  let ?run = "planner_run\<lparr>wr_DynamicSteps := [?y]\<rparr>" and ?def = "zero_WorkflowDef\<lparr>wd_Name := ''w'', wd_Steps := [planner_step]\<rparr>"
  let ?def1 = "planner_workflow\<lparr>wd_Steps := [planner_step, ?y]\<rparr>" and ?def2 = "planner_workflow\<lparr>wd_Steps := [planner_step, ?y, ?y]\<rparr>"
  have e: "(EffectiveDef ?def ?run :: (unit, WorkflowDef) res) = Ok ?def1" "wr_DynamicSteps ?run \<noteq> []"
    "(EffectiveDef ?def1 (apply_fragment ?run []) :: (unit, WorkflowDef) res) = Ok ?def2"
    by (simp_all add: EffectiveDef_def EffectiveSteps_def apply_fragment_def planner_run_def planner_workflow_def
        planner_step_def buildAuxSteps_def zero_StepDef_def zero_WorkflowDef_def zero_WorkflowRun_def)
  have "?y \<in> set (ResolveReady ?def2 [] [])"
    by (simp add: ResolveReady_def allDepsCompleted_def planner_workflow_def zero_StepDef_def zero_WorkflowDef_def map_simps)
  then have "2 \<le> count_list (ResolveReady ?def2 [] []) ?y"
    using second_plan_repeats_generated_steps [OF e, of "[]" "[]"] by simp
  then show ?thesis using e(3) by blast
qed

end
