(* ===== verification/Dag_Respond.thy ===== *)
theory Dag_Respond
  imports Dag_Resolve
begin

text \<open>
  Respond steps: their configuration (src/dag/respond_config.go), the registration-time warnings
  about them (src/dag/validate_respond.go), and how the engine resolves one
  (src/internal/engine/respond_step.go).
\<close>

section \<open>Configuration\<close>

record RespondConfig =
  rc_Status :: int
  rc_Headers :: "string gomap"
  rc_BodyFrom :: string
  rc_ContentType :: string

definition dec_RespondConfig :: "(string \<times> json) list \<Rightarrow> RespondConfig option" where
  "dec_RespondConfig kvs =
     Option.bind (dec_field ''status'' dec_int 0 kvs) (\<lambda>a.
     Option.bind (dec_field ''headers'' dec_string_map [] kvs) (\<lambda>b.
     Option.bind (dec_field ''body_from'' dec_str [] kvs) (\<lambda>c.
     Option.bind (dec_field ''content_type'' dec_str [] kvs) (\<lambda>d.
       Some \<lparr>rc_Status = a, rc_Headers = b, rc_BodyFrom = c, rc_ContentType = d\<rparr>))))"

definition respondDefaultStatus :: int where
  "respondDefaultStatus = 200"

definition respondDefaultContentType :: string where
  "respondDefaultContentType = ''application/json''"

definition Defaulted :: "RespondConfig \<Rightarrow> ('e, RespondConfig) res" where
  "Defaulted c =
     (if rc_Status c < 0 then Panic ''RespondConfig.Defaulted''
      else
        let c = (if rc_Status c = 0 then c\<lparr>rc_Status := respondDefaultStatus\<rparr> else c);
            c = (if rc_ContentType c = [] then c\<lparr>rc_ContentType := respondDefaultContentType\<rparr> else c)
        in if rc_Status c \<le> 0 then Panic ''RespondConfig.Defaulted''
           else if rc_ContentType c = [] then Panic ''RespondConfig.Defaulted''
           else Ok c)"

definition ParseRespondConfig :: "StepDef \<Rightarrow> (config_error, RespondConfig) res" where
  "ParseRespondConfig step =
     (if sd_ID step = [] then Panic ''ParseRespondConfig''
      else if sd_Type step \<noteq> StepTypeRespond
        then Err (WrongStepType (sd_ID step) StepTypeRespond (sd_Type step))
      else if sd_Config step = RNil then Err (ConfigNil (sd_ID step) StepTypeRespond)
      else if raw_empty (sd_Config step) then Panic ''ParseRespondConfig''
      else
        (case unmarshal_struct dec_RespondConfig (sd_Config step) of
           None \<Rightarrow> Err (ConfigUnmarshal (sd_ID step) StepTypeRespond)
         | Some cfg \<Rightarrow> Ok cfg))"

section \<open>Warnings\<close>

datatype WarningKind = WarnMissingRespond | WarnDuplicateRespond | WarnMissingSchemas

record Warning =
  wn_Kind :: WarningKind
  wn_Message :: string

definition validateRespondMaxSteps :: nat where
  "validateRespondMaxSteps = 10000"

text \<open>The message names which schemas are missing; only its emptiness matters to the caller.\<close>

definition missingSchemasMessage :: "WorkflowDef \<Rightarrow> string" where
  "missingSchemasMessage def =
     (let missingIn = raw_empty (wd_InputSchema def); missingOut = raw_empty (wd_OutputSchema def) in
      if missingIn \<and> missingOut then
        ''workflow has an HTTP trigger but neither input_schema nor output_schema is set; OpenAPI spec falls back to free-form objects''
      else if missingIn then
        ''workflow has an HTTP trigger but input_schema is missing; OpenAPI requestBody falls back to a free-form object''
      else if missingOut then
        ''workflow has an HTTP trigger but output_schema is missing; OpenAPI response body falls back to a free-form object''
      else [])"

definition findRespondSteps :: "WorkflowDef \<Rightarrow> string list" where
  "findRespondSteps def = map sd_ID (filter (\<lambda>s. sd_Type s = StepTypeRespond) (wd_Steps def))"

definition collectSkipIfs :: "StepDef gomap \<Rightarrow> bool gomap \<Rightarrow> ParentCond list" where
  "collectSkipIfs steps closure =
     List.map_filter (\<lambda>kv. Option.bind (map_of steps (fst kv)) sd_SkipIf) closure"

text \<open>Go's \<open>!=\<close> on two \<open>any\<close>: comparing two slices or two maps panics.\<close>

definition any_neq :: "any \<Rightarrow> any \<Rightarrow> ('e, bool) res" where
  "any_neq a b =
     (case (a, b) of
        (AArr _, AArr _) \<Rightarrow> Panic ''comparing uncomparable type''
      | (AMap _, AMap _) \<Rightarrow> Panic ''comparing uncomparable type''
      | _ \<Rightarrow> Ok (a \<noteq> b))"

definition conflicting :: "ParentCond \<Rightarrow> ParentCond \<Rightarrow> ('e, bool) res" where
  "conflicting sa sb =
     (if pc_StepID sa \<noteq> pc_StepID sb then Ok False
      else if pc_Field sa \<noteq> pc_Field sb then Ok False
      else if pc_Op sa \<noteq> pc_Op sb then Ok True
      else any_neq (pc_Value sa) (pc_Value sb))"

text \<open>A loop that returns true at the first hit.\<close>

fun exists_res :: "('a \<Rightarrow> ('e, bool) res) \<Rightarrow> 'a list \<Rightarrow> ('e, bool) res" where
  "exists_res f [] = Ok False"
| "exists_res f (x # xs) = and_then (f x) (\<lambda>b. if b then Ok True else exists_res f xs)"

definition areMutuallyExclusive :: "StepDef gomap \<Rightarrow> bool gomap \<Rightarrow> bool gomap \<Rightarrow> ('e, bool) res" where
  "areMutuallyExclusive steps a b =
     exists_res (\<lambda>sa. exists_res (conflicting sa) (collectSkipIfs steps b)) (collectSkipIfs steps a)"

fun pair_simultaneous :: "StepDef gomap \<Rightarrow> string list \<Rightarrow> ('e, bool) res" where
  "pair_simultaneous steps [] = Ok False"
| "pair_simultaneous steps (r # rs) =
     and_then (exists_res (\<lambda>r'. and_then (areMutuallyExclusive steps (ancestorClosure steps r)
                                          (ancestorClosure steps r')) (\<lambda>b. Ok (\<not> b))) rs)
       (\<lambda>b. if b then Ok True else pair_simultaneous steps rs)"

definition anyPairSimultaneous :: "WorkflowDef \<Rightarrow> string list \<Rightarrow> ('e, bool) res" where
  "anyPairSimultaneous def responds = pair_simultaneous (indexSteps (wd_Steps def)) responds"

definition ValidateRespondReachability :: "WorkflowDef \<Rightarrow> bool \<Rightarrow> ('e, Warning list) res" where
  "ValidateRespondReachability def hasHTTPTrigger =
     (if length (wd_Steps def) > validateRespondMaxSteps then Panic ''ValidateRespondReachability''
      else
        let responds = findRespondSteps def in
        and_then
          (if hasHTTPTrigger \<and> responds = [] then
             Ok [\<lparr>wn_Kind = WarnMissingRespond, wn_Message = ''workflow has an HTTP trigger but no respond step is reachable; calls will hang until timeout''\<rparr>]
           else if length responds \<ge> 2 then
             and_then (anyPairSimultaneous def responds) (\<lambda>b.
               Ok (if b then [\<lparr>wn_Kind = WarnDuplicateRespond, wn_Message = ''two or more respond steps are simultaneously reachable; only the first publish is delivered''\<rparr>] else []))
           else Ok [])
          (\<lambda>out.
             let msg = missingSchemasMessage def in
             Ok (if hasHTTPTrigger \<and> msg \<noteq> []
                 then out @ [\<lparr>wn_Kind = WarnMissingSchemas, wn_Message = msg\<rparr>] else out)))"

section \<open>Execution\<close>

datatype respond_error =
    RespondConfigError config_error
  | BodyNeedsSource string
  | BodyPath string path_error

definition pickUpstreamOutput :: "StepDef \<Rightarrow> WorkflowRun \<Rightarrow> ('e, raw) res" where
  "pickUpstreamOutput step run =
     (case sd_DependsOn step of
        [] \<Rightarrow> Ok RNil
      | [depID] \<Rightarrow> if depID = [] then Panic ''pickUpstreamOutput'' else Ok (ss_Output (step_of (wr_Steps run) depID))
      | _ \<Rightarrow> Ok RNil)"

definition resolveRespondBody :: "RespondConfig \<Rightarrow> StepDef \<Rightarrow> WorkflowRun \<Rightarrow> (respond_error, raw) res" where
  "resolveRespondBody cfg step run =
     and_then (pickUpstreamOutput step run) (\<lambda>upstream.
       if rc_BodyFrom cfg = [] then
         if \<not> raw_empty upstream then Ok upstream else Ok (wr_Input run)
       else
         let source = (if raw_empty upstream then wr_Input run else upstream) in
         if raw_empty source then Err (BodyNeedsSource (rc_BodyFrom cfg))
         else and_then (map_err (BodyPath (rc_BodyFrom cfg)) (ExtractDotPath (rc_BodyFrom cfg) source))
                (\<lambda>v. Ok (RJson (json_of_any v))))"

text \<open>\<open>planRespondStep\<close>: the run with the step completed, and the response its effect publishes.\<close>

definition planRespondStep ::
    "WorkflowRun \<Rightarrow> StepDef \<Rightarrow> (respond_error, WorkflowRun \<times> RespondConfig \<times> raw) res" where
  "planRespondStep run step =
     (if sd_Type step \<noteq> StepTypeRespond then Panic ''planRespondStep''
      else if wr_RunID run = [] then Panic ''planRespondStep''
      else
        and_then (map_err RespondConfigError (ParseRespondConfig step)) (\<lambda>cfg.
        and_then (Defaulted cfg) (\<lambda>cfg.
        and_then (resolveRespondBody cfg step run) (\<lambda>body.
          let state = step_of (wr_Steps run) (sd_ID step)
          in Ok (set_step (sd_ID step) (state\<lparr>ss_Status := StepStatusCompleted, ss_Output := body\<rparr>) run,
                 cfg, body)))))"

section \<open>The conditions on the way to a respond step\<close>

lemma exists_res_Ok:
  "(\<And>x. x \<in> set xs \<Longrightarrow> f x = Ok (g x)) \<Longrightarrow> exists_res f xs = Ok (\<exists>x \<in> set xs. g x)"
  by (induction xs) auto

lemma set_mput: "set (mput k v m) \<subseteq> insert (k, v) (set m)"
  by (induction m) auto

lemma closure_loop_all_True:
  "(\<forall>kv \<in> set visited. snd kv) \<Longrightarrow> (\<forall>kv \<in> set (closure_loop steps visited queue). snd kv)"
proof (induction steps visited queue rule: closure_loop.induct)
  case (2 steps visited x queue)
  have "\<forall>kv \<in> set (mput x True visited). snd kv"
    using 2(4) set_mput [of x True visited] by auto
  then show ?case
    using 2 by (simp add: closure_loop.simps Let_def split: option.splits)
qed simp

lemma ancestorClosure_dom:
  "mdom (ancestorClosure steps r) = {x. (r, x) \<in> (index_rel steps)\<^sup>*}"
proof -
  have all: "\<forall>kv \<in> set (ancestorClosure steps r). snd kv"
    unfolding ancestorClosure_def by (rule closure_loop_all_True) simp
  have "x \<in> mdom (ancestorClosure steps r) \<longleftrightarrow> bget (ancestorClosure steps r) x" for x
  proof
    assume "x \<in> mdom (ancestorClosure steps r)"
    then obtain v where "map_of (ancestorClosure steps r) x = Some v"
      by (metis map_of_eq_None_iff not_None_eq)
    moreover from this have v using all map_of_SomeD by fastforce
    ultimately show "bget (ancestorClosure steps r) x" by (simp add: bget_iff)
  qed (rule bget_dom)
  then show ?thesis using ancestorClosure_reach by auto
qed

lemma collectSkipIfs_iff:
  "c \<in> set (collectSkipIfs steps closure) \<longleftrightarrow>
     (\<exists>x s. x \<in> mdom closure \<and> map_of steps x = Some s \<and> sd_SkipIf s = Some c)"
  by (auto simp: collectSkipIfs_def List.map_filter_def bind_eq_Some_conv intro: rev_image_eqI) force+

lemma index_rel_dep_rel:
  assumes "distinct (step_ids steps)"
  shows "index_rel (indexSteps steps) = (dep_rel steps)\<inverse>"
proof -
  have "(\<exists>s. map_of (indexSteps steps) a = Some s \<and> b \<in> set (sd_DependsOn s)) \<longleftrightarrow> b \<in> set (deps_of steps a)" for a b
    using deps_of_step [OF assms] deps_of_cases [of steps a]
    unfolding indexSteps_lookup [OF assms] by fastforce
  then show ?thesis unfolding index_rel_def dep_rel_def by blast
qed

definition gates :: "StepDef list \<Rightarrow> string \<Rightarrow> ParentCond set" where
  "gates steps r = {c. \<exists>s \<in> set steps. (sd_ID s, r) \<in> (dep_rel steps)\<^sup>* \<and> sd_SkipIf s = Some c}"

lemma collectSkipIfs_gates:
  assumes "distinct (step_ids steps)"
  shows "set (collectSkipIfs (indexSteps steps) (ancestorClosure (indexSteps steps) r)) = gates steps r"
  unfolding gates_def collectSkipIfs_iff ancestorClosure_dom index_rel_dep_rel [OF assms]
    indexSteps_lookup [OF assms] rtrancl_converse set_eq_iff by auto

definition scalar_cond :: "ParentCond \<Rightarrow> bool" where
  "scalar_cond c = (case pc_Value c of AArr _ \<Rightarrow> False | AMap _ \<Rightarrow> False | _ \<Rightarrow> True)"

definition opposed :: "ParentCond \<Rightarrow> ParentCond \<Rightarrow> bool" where
  "opposed a b =
     (pc_StepID a = pc_StepID b \<and> pc_Field a = pc_Field b \<and> (pc_Op a \<noteq> pc_Op b \<or> pc_Value a \<noteq> pc_Value b))"

lemma conflicting_scalar: "scalar_cond a \<Longrightarrow> conflicting a b = Ok (opposed a b)"
  by (auto simp: conflicting_def opposed_def any_neq_def scalar_cond_def split: any.splits)

lemma areMutuallyExclusive_gates:
  assumes "distinct (step_ids steps)" "\<forall>c \<in> gates steps r. scalar_cond c"
  shows "areMutuallyExclusive (indexSteps steps) (ancestorClosure (indexSteps steps) r)
           (ancestorClosure (indexSteps steps) r')
         = Ok (\<exists>a \<in> gates steps r. \<exists>b \<in> gates steps r'. opposed a b)"
proof -
  have "exists_res (conflicting a) (collectSkipIfs (indexSteps steps) (ancestorClosure (indexSteps steps) r'))
      = Ok (\<exists>b \<in> gates steps r'. opposed a b)" if "a \<in> gates steps r" for a
    using that assms(2) unfolding collectSkipIfs_gates [OF assms(1), of r', symmetric]
    by (intro exists_res_Ok conflicting_scalar) blast
  then show ?thesis
    unfolding areMutuallyExclusive_def collectSkipIfs_gates [OF assms(1), of r, symmetric]
    by (rule exists_res_Ok)
qed

definition exclusive :: "StepDef list \<Rightarrow> string \<Rightarrow> string \<Rightarrow> bool" where
  "exclusive steps r r' = (\<exists>a \<in> gates steps r. \<exists>b \<in> gates steps r'. opposed a b)"

lemma pair_simultaneous_sorted:
  assumes "distinct (step_ids steps)" "\<forall>r. \<forall>c \<in> gates steps r. scalar_cond c"
  shows "(pair_simultaneous (indexSteps steps) rs :: ('e, bool) res) = Ok (\<not> sorted_wrt (exclusive steps) rs)"
proof (induction rs)
  case (Cons r rs)
  have "(exists_res (\<lambda>r'. and_then (areMutuallyExclusive (indexSteps steps)
          (ancestorClosure (indexSteps steps) r) (ancestorClosure (indexSteps steps) r')) (\<lambda>b. Ok (\<not> b))) rs :: ('e, bool) res)
      = Ok (\<exists>r' \<in> set rs. \<not> exclusive steps r r')"
    by (rule exists_res_Ok) (simp add: areMutuallyExclusive_gates [OF assms(1)] assms(2) exclusive_def)
  then show ?case using Cons by auto
qed simp

section \<open>Properties\<close>


text \<open>A workflow in the documented pattern: the paths to the two respond steps are gated by opposite
  conditions on the output of \<open>a\<close>.\<close>

definition gate :: "string \<Rightarrow> string \<Rightarrow> StepDef" where
  "gate i operator = zero_StepDef\<lparr>sd_ID := i, sd_Task := ''t'', sd_DependsOn := [''a''],
     sd_SkipIf := Some \<lparr>pc_StepID = ''a'', pc_Field = ''x'', pc_Op = operator, pc_Value = AFloat 1\<rparr>\<rparr>"

definition respond_after :: "string \<Rightarrow> string \<Rightarrow> int \<Rightarrow> StepDef" where
  "respond_after i dep status = zero_StepDef\<lparr>sd_ID := i, sd_Type := StepTypeRespond, sd_DependsOn := [dep],
     sd_Config := RJson (JObj [(''status'', JInt status)])\<rparr>"

definition two_responds :: WorkflowDef where
  "two_responds = zero_WorkflowDef\<lparr>wd_Name := ''w'',
     wd_Steps := [zero_StepDef\<lparr>sd_ID := ''a'', sd_Task := ''t''\<rparr>, gate ''g'' ''=='', gate ''h'' ''!='',
       respond_after ''q'' ''g'' 200, respond_after ''r'' ''h'' 500]\<rparr>"

lemma two_responds_acyclic: "detectCycle (wd_Steps two_responds) = Ok ()"
  by (simp add: detectCycle_eval two_responds_def gate_def respond_after_def zero_StepDef_def
      zero_WorkflowDef_def map_simps check_def)

lemma two_responds_valid: "Validate (\<lambda>_. None) two_responds = Ok ()"
  using two_responds_acyclic
  by (simp add: two_responds_def gate_def respond_after_def validate_eval validOps_def)

lemma two_responds_no_warning: "(ValidateRespondReachability two_responds False :: (unit, Warning list) res) = Ok []"
  by (simp add: ValidateRespondReachability_def validateRespondMaxSteps_def findRespondSteps_def two_responds_def
      gate_def respond_after_def anyPairSimultaneous_def indexSteps_def ancestorClosure_def closure_loop.simps
      areMutuallyExclusive_def collectSkipIfs_def List.map_filter_def conflicting_def zero_StepDef_def map_simps)

lemma two_responds_responds: "findRespondSteps two_responds = [''q'', ''r'']"
  by (simp add: findRespondSteps_def two_responds_def gate_def respond_after_def zero_StepDef_def zero_WorkflowDef_def)

lemma two_responds_scalar:
  "\<forall>s \<in> set (wd_Steps two_responds). \<forall>c. sd_SkipIf s = Some c \<longrightarrow> scalar_cond c"
  by (auto simp: two_responds_def gate_def respond_after_def zero_StepDef_def scalar_cond_def)


text \<open>Gating the path to a respond step does not keep it from responding. In the workflow above the
  validator sees no duplicate respond, because the paths carry opposite conditions. But a skipped step
  counts as completed for its dependents: when \<open>a\<close> yields \<open>x = 1\<close>, gate \<open>g\<close> is skipped, gate \<open>h\<close> runs,
  and then both respond steps are ready.\<close>

theorem gated_responds_both_run:
  "Validate (\<lambda>_. None) two_responds = Ok ()
   \<and> (ValidateRespondReachability two_responds False :: (unit, Warning list) res) = Ok []
   \<and> step_ids (ResolveSkipped two_responds [(''a'', True)] [(''a'', True)]
        [(''a'', zero_StepState\<lparr>ss_Status := StepStatusCompleted, ss_Output := RJson (JObj [(''x'', JInt 1)])\<rparr>)]) = [''g'']
   \<and> step_ids (ResolveReady two_responds [(''a'', True), (''g'', True), (''h'', True)]
        [(''a'', True), (''g'', True), (''h'', True)]) = [''q'', ''r'']"
proof -
  let ?st = "[(''a'', zero_StepState\<lparr>ss_Status := StepStatusCompleted, ss_Output := RJson (JObj [(''x'', JInt 1)])\<rparr>)]"
  have "Evaluate (Some \<lparr>pc_StepID = ''a'', pc_Field = ''x'', pc_Op = ''=='', pc_Value = AFloat 1\<rparr>) ?st"
    "\<not> Evaluate (Some \<lparr>pc_StepID = ''a'', pc_Field = ''x'', pc_Op = ''!='', pc_Value = AFloat 1\<rparr>) ?st"
    by (simp_all add: Evaluate_def unmarshal_object_def int_to_float_small compareValues_def compareFloat64_def
        compare_op_def zero_StepState_def)
  then have "step_ids (ResolveSkipped two_responds [(''a'', True)] [(''a'', True)] ?st) = [''g'']"
    by (simp add: ResolveSkipped_def two_responds_def gate_def respond_after_def allDepsCompleted_def
        zero_StepDef_def map_simps)
  moreover have "step_ids (ResolveReady two_responds [(''a'', True), (''g'', True), (''h'', True)]
        [(''a'', True), (''g'', True), (''h'', True)]) = [''q'', ''r'']"
    by (simp add: ResolveReady_def two_responds_def gate_def respond_after_def allDepsCompleted_def
        zero_StepDef_def zero_WorkflowDef_def map_simps)
  ultimately show ?thesis using two_responds_valid two_responds_no_warning by blast
qed

text \<open>The configuration of a respond step is not validated: a definition whose respond step has a
  negative status passes validation, and planning the step panics in every run of it.\<close>

theorem accepted_respond_step_panics:
  "Validate (\<lambda>_. None) (two_responds\<lparr>wd_Steps := [respond_after ''r'' ''a'' (- 1), zero_StepDef\<lparr>sd_ID := ''a'', sd_Task := ''t''\<rparr>]\<rparr>) = Ok ()
   \<and> is_panic (planRespondStep run (respond_after ''r'' ''a'' (- 1)))"
proof -
  have "detectCycle [respond_after ''r'' ''a'' (- 1), zero_StepDef\<lparr>sd_ID := ''a'', sd_Task := ''t''\<rparr>] = Ok ()"
    by (simp add: detectCycle_eval respond_after_def zero_StepDef_def map_simps check_def)
  then have "Validate (\<lambda>_. None) (two_responds\<lparr>wd_Steps := [respond_after ''r'' ''a'' (- 1),
      zero_StepDef\<lparr>sd_ID := ''a'', sd_Task := ''t''\<rparr>]\<rparr>) = Ok ()"
    by (simp add: two_responds_def respond_after_def validate_eval)
  moreover have "ParseRespondConfig (respond_after ''r'' ''a'' (- 1))
      = Ok \<lparr>rc_Status = - 1, rc_Headers = [], rc_BodyFrom = [], rc_ContentType = []\<rparr>"
    by (simp add: ParseRespondConfig_def respond_after_def zero_StepDef_def raw_empty_def unmarshal_struct_def
        dec_RespondConfig_def dec_field_def to_lower_def to_lower_char_def dec_int_def int64_ok_def)
  then have "is_panic (planRespondStep run (respond_after ''r'' ''a'' (- 1)))"
    by (simp add: planRespondStep_def Defaulted_def respond_after_def)
  ultimately show ?thesis by blast
qed

end
