(* ===== verification/Dag_Names.thy ===== *)
theory Dag_Names
  imports Dag_Types
begin

text \<open>
  Names and labels: run labels and their matching (src/dag/labels.go), and the keys under which the
  versions of a definition are stored (src/dag/defkey.go).
\<close>

section \<open>Labels\<close>

definition LabelsCountMax :: nat where
  "LabelsCountMax = 16"

definition LabelKeyLengthMax :: nat where
  "LabelKeyLengthMax = 64"

definition LabelValueLengthMax :: nat where
  "LabelValueLengthMax = 256"

datatype label_error = TooManyLabels nat | LabelKeyCharset string | LabelKeyLength string | LabelValueLength string

definition is_lower :: "char \<Rightarrow> bool" where
  "is_lower c = (let n = (of_char c :: nat) in 97 \<le> n \<and> n \<le> 122)"

definition label_char :: "char \<Rightarrow> bool" where
  "label_char c = (is_lower c \<or> is_digit c \<or> c = CHR ''_'' \<or> c = CHR ''.'' \<or> c = CHR ''-'')"

definition labelKeyPattern :: "string \<Rightarrow> bool" where
  "labelKeyPattern key = (key \<noteq> [] \<and> list_all label_char key)"

definition validateLabel :: "string \<Rightarrow> string \<Rightarrow> label_error checked" where
  "validateLabel key value =
     chain [check (\<not> labelKeyPattern key) (LabelKeyCharset key),
            check (length key > LabelKeyLengthMax) (LabelKeyLength key),
            check (length value > LabelValueLengthMax) (LabelValueLength key)]"

definition ValidateLabels :: "string gomap \<Rightarrow> label_error checked" where
  "ValidateLabels labels =
     (if labels = [] then Ok ()
      else if length labels > LabelsCountMax then Err (TooManyLabels (length labels))
      else for_each (\<lambda>key. validateLabel key (mget [] labels key)) (sort (map fst labels)))"

definition LabelsMatch :: "string gomap \<Rightarrow> string gomap \<Rightarrow> ('e, bool) res" where
  "LabelsMatch want labels =
     (if length want > LabelsCountMax then Panic ''LabelsMatch''
      else if length labels > LabelsCountMax then Panic ''LabelsMatch''
      else Ok (list_all (\<lambda>kv. mget [] labels (fst kv) = snd kv) want))"

section \<open>Version keys\<close>

definition defVersionKeyInfix :: string where
  "defVersionKeyInfix = ''.v.''"

definition hex_char :: "char \<Rightarrow> bool" where
  "hex_char c = (is_digit c \<or> (let n = (of_char c :: nat) in 97 \<le> n \<and> n \<le> 102))"

definition hex64Pattern :: "string \<Rightarrow> bool" where
  "hex64Pattern s = (length s = 64 \<and> list_all hex_char s)"

definition DefVersionKey :: "string \<Rightarrow> string \<Rightarrow> ('e, string) res" where
  "DefVersionKey name hash =
     (if name = [] then Panic ''DefVersionKey''
      else if hash = [] then Panic ''DefVersionKey''
      else Ok (name @ defVersionKeyInfix @ hash))"

text \<open>The unanchored pattern: the last 67 characters are the infix and a digest.\<close>

definition IsDefVersionKey :: "string \<Rightarrow> bool" where
  "IsDefVersionKey key =
     (length key \<ge> 67 \<and> take 3 (drop (length key - 67) key) = defVersionKeyInfix
      \<and> hex64Pattern (drop (length key - 64) key))"

definition DefVersionKeyPrefix :: "string \<Rightarrow> ('e, string) res" where
  "DefVersionKeyPrefix name =
     (if name = [] then Panic ''DefVersionKeyPrefix'' else Ok (name @ defVersionKeyInfix))"

definition DefHashFromVersionKey :: "string \<Rightarrow> string \<Rightarrow> ('e, string option) res" where
  "DefHashFromVersionKey key name =
     (if name = [] then Panic ''DefHashFromVersionKey''
      else and_then (DefVersionKeyPrefix name) (\<lambda>prefix.
        if length key \<noteq> length prefix + 64 then Ok None
        else if take (length prefix) key \<noteq> prefix then Ok None
        else let candidate = drop (length prefix) key
             in if \<not> hex64Pattern candidate then Ok None else Ok (Some candidate)))"

section \<open>Properties\<close>

lemma take_drop_split:
  "take (length xs) ys = xs \<and> drop (length xs) ys = zs \<longleftrightarrow> ys = xs @ zs"
  by (metis append_eq_conv_conj)

lemma DefHashFromVersionKey_iff:
  assumes "name \<noteq> []"
  shows "DefHashFromVersionKey key name = Ok (Some hash) \<longleftrightarrow>
    hex64Pattern hash \<and> key = name @ defVersionKeyInfix @ hash"
proof -
  let ?p = "name @ defVersionKeyInfix"
  have "DefHashFromVersionKey key name = Ok (Some hash) \<longleftrightarrow>
      length key = length ?p + 64 \<and> hex64Pattern hash \<and> (take (length ?p) key = ?p \<and> drop (length ?p) key = hash)"
    using assms by (auto simp: DefHashFromVersionKey_def DefVersionKeyPrefix_def Let_def simp del: length_append)
  also have "\<dots> \<longleftrightarrow> hex64Pattern hash \<and> key = ?p @ hash"
    unfolding take_drop_split by (auto simp: hex64Pattern_def)
  finally show ?thesis by simp
qed

text \<open>C30: version keys are unambiguous. The key of a name and a digest is recognised as a version key,
  the digest is recovered from it under that name, and under no other name: a key that belongs to two
  names as a version key does not exist, even when one name contains the infix. What is recovered is
  always a digest whose key is the one at hand.\<close>

theorem version_keys_unambiguous:
  assumes "name \<noteq> []" "hex64Pattern hash"
  shows "\<exists>key. (DefVersionKey name hash :: ('e, string) res) = Ok key \<and> IsDefVersionKey key
    \<and> (DefHashFromVersionKey key name :: ('e, string option) res) = Ok (Some hash)
    \<and> (\<forall>name' hash'. name' \<noteq> [] \<longrightarrow>
         (DefHashFromVersionKey key name' :: ('e, string option) res) = Ok (Some hash') \<longrightarrow> name' = name \<and> hash' = hash)"
proof -
  have h: "hash \<noteq> []" "length hash = 64" using assms(2) by (auto simp: hex64Pattern_def)
  have "IsDefVersionKey (name @ defVersionKeyInfix @ hash)"
    using assms(2) h by (simp add: IsDefVersionKey_def defVersionKeyInfix_def)
  moreover have "name' = name \<and> hash' = hash"
    if "name @ defVersionKeyInfix @ hash = name' @ defVersionKeyInfix @ hash'" "hex64Pattern hash'" for name' hash'
    using that h by (auto simp: hex64Pattern_def defVersionKeyInfix_def append_eq_append_conv
        simp flip: append_assoc)
  ultimately show ?thesis
    using assms h DefHashFromVersionKey_iff [where 'a = 'e]
    by (auto simp: DefVersionKey_def)
qed

theorem version_keys_unambiguous_witness:
  "(DefHashFromVersionKey (''a'' @ ''.v.'' @ replicate 64 (CHR ''0'')) ''a'' :: (unit, string option) res)
     = Ok (Some (replicate 64 (CHR ''0'')))"
proof -
  have "hex64Pattern (replicate 64 (CHR ''0''))"
    by (simp add: hex64Pattern_def list_all_iff hex_char_def is_digit_def)
  from version_keys_unambiguous [OF _ this, of "''a''", where 'e = unit] show ?thesis
    by (auto simp: DefVersionKey_def defVersionKeyInfix_def)
qed

text \<open>A label filter that passes validation is matched by a run with validated labels exactly when
  every wanted label has the wanted value, where a missing label reads as the empty value; matching
  does not panic. So a filter for an empty value also matches runs that do not carry the label.\<close>

theorem label_filter_semantics:
  assumes "ValidateLabels want = Ok ()" "ValidateLabels labels = Ok ()"
  shows "\<exists>b. LabelsMatch want labels = Ok b
    \<and> (b \<longleftrightarrow> (\<forall>(k, v) \<in> set want. map_of labels k = Some v \<or> v = [] \<and> map_of labels k = None))"
proof -
  have le: "length want \<le> LabelsCountMax" "length labels \<le> LabelsCountMax"
    using assms by (auto simp: ValidateLabels_def split: if_splits)
  have "mget [] labels k = v \<longleftrightarrow> map_of labels k = Some v \<or> v = [] \<and> map_of labels k = None" for k v
    by (auto simp: mget_def split: option.splits)
  then have "list_all (\<lambda>kv. mget [] labels (fst kv) = snd kv) want \<longleftrightarrow>
      (\<forall>(k, v) \<in> set want. map_of labels k = Some v \<or> v = [] \<and> map_of labels k = None)"
    by (simp add: list_all_iff case_prod_beta)
  then show ?thesis using le by (simp add: LabelsMatch_def)
qed

theorem label_filter_semantics_witness:
  "ValidateLabels [(''k'', [])] = Ok () \<and> (LabelsMatch [(''k'', [])] [] :: (unit, bool) res) = Ok True"
proof -
  have v: "ValidateLabels [(''k'', [])] = Ok ()" "ValidateLabels [] = Ok ()"
    by (simp_all add: ValidateLabels_def validateLabel_def labelKeyPattern_def label_char_def is_lower_def
        LabelsCountMax_def LabelKeyLengthMax_def LabelValueLengthMax_def map_simps)
  from label_filter_semantics [OF v, where 'a = unit] show ?thesis using v by auto
qed

end
