(* ===== verification/Protocol.thy ===== *)
theory Protocol
  imports Dag_Types
begin

text \<open>
  The wire protocol (src/protocol/protocol.go): events of a run, the identity of the dispatch an event
  answers, subjects and deduplication identifiers, and the waits an agent loop asks for. The
  deduplication identifier of an event that carries its identity determines that identity.
\<close>

section \<open>Events\<close>

datatype (plugins only: code size) EventType =
    EventWorkflowStarted | EventStepQueued | EventStepStarted | EventStepCompleted | EventStepFailed
  | EventStepContinue | EventStepMapStarted | EventStepMapCompleted | EventStepMapInstanceCompleted
  | EventStepSleepStarted | EventStepSleepCompleted | EventStepWaitStarted | EventStepWaitMatched
  | EventStepWaitTimeout | EventWorkflowCompleted | EventWorkflowFailed | EventWorkflowSpawn
  | EventWorkflowChildCompleted | EventWorkflowChildFailed | EventWorkflowCancelled
  | EventStepCancelled | EventCompensateStarted | EventCompensateStepCompleted
  | EventCompensateFailed | EventCompensateCompleted | EventApprovalRequested
  | EventApprovalGranted | EventApprovalRejected | EventApprovalExpired | EventPlannerMaterialized
  | EventStepInputQueued | EventStepWaitElapsed
  | EventOther string

text \<open>The string value of each constant; any other string can arrive over the wire.\<close>

fun event_name :: "EventType \<Rightarrow> string" where
  "event_name EventWorkflowStarted = ''workflow.started''"
| "event_name EventStepQueued = ''step.queued''"
| "event_name EventStepStarted = ''step.started''"
| "event_name EventStepCompleted = ''step.completed''"
| "event_name EventStepFailed = ''step.failed''"
| "event_name EventStepContinue = ''step.continue''"
| "event_name EventStepMapStarted = ''step.map.started''"
| "event_name EventStepMapCompleted = ''step.map.completed''"
| "event_name EventStepMapInstanceCompleted = ''step.map.instance.completed''"
| "event_name EventStepSleepStarted = ''step.sleep.started''"
| "event_name EventStepSleepCompleted = ''step.sleep.completed''"
| "event_name EventStepWaitStarted = ''step.wait.started''"
| "event_name EventStepWaitMatched = ''step.wait.matched''"
| "event_name EventStepWaitTimeout = ''step.wait.timeout''"
| "event_name EventWorkflowCompleted = ''workflow.completed''"
| "event_name EventWorkflowFailed = ''workflow.failed''"
| "event_name EventWorkflowSpawn = ''workflow.spawn''"
| "event_name EventWorkflowChildCompleted = ''workflow.child.completed''"
| "event_name EventWorkflowChildFailed = ''workflow.child.failed''"
| "event_name EventWorkflowCancelled = ''workflow.cancelled''"
| "event_name EventStepCancelled = ''step.cancelled''"
| "event_name EventCompensateStarted = ''compensate.started''"
| "event_name EventCompensateStepCompleted = ''compensate.step.completed''"
| "event_name EventCompensateFailed = ''compensate.failed''"
| "event_name EventCompensateCompleted = ''compensate.completed''"
| "event_name EventApprovalRequested = ''approval.requested''"
| "event_name EventApprovalGranted = ''approval.granted''"
| "event_name EventApprovalRejected = ''approval.rejected''"
| "event_name EventApprovalExpired = ''approval.expired''"
| "event_name EventPlannerMaterialized = ''planner.materialized''"
| "event_name EventStepInputQueued = ''step.input.queued''"
| "event_name EventStepWaitElapsed = ''step.wait.elapsed''"
| "event_name (EventOther s) = s"

record Event =
  ev_Type :: EventType
  ev_RunID :: string
  ev_StepID :: string
  ev_Timestamp :: gotime
  ev_Payload :: raw
  ev_WorkerID :: string
  ev_AttemptNumber :: int
  ev_Iteration :: "int option"
  ev_DispatchNonce :: string
  ev_JournalSeq :: nat
  ev_InputRequestID :: string

definition HasIdentity :: "Event \<Rightarrow> bool" where
  "HasIdentity e = (ev_Iteration e \<noteq> None \<and> ev_AttemptNumber e > 0)"

definition SetIdentity :: "int \<Rightarrow> int \<Rightarrow> string \<Rightarrow> Event \<Rightarrow> ('x, Event) res" where
  "SetIdentity iteration attempt nonce e =
     (if iteration < 0 \<or> attempt < 1 then Panic ''Event.SetIdentity''
      else Ok (e\<lparr>ev_Iteration := Some iteration, ev_AttemptNumber := attempt, ev_DispatchNonce := nonce\<rparr>))"

definition new_event :: "gotime \<Rightarrow> EventType \<Rightarrow> string \<Rightarrow> string \<Rightarrow> raw \<Rightarrow> Event" where
  "new_event now eventType runID stepID payload =
     \<lparr>ev_Type = eventType, ev_RunID = runID, ev_StepID = stepID, ev_Timestamp = now, ev_Payload = payload,
      ev_WorkerID = [], ev_AttemptNumber = 0, ev_Iteration = None, ev_DispatchNonce = [],
      ev_JournalSeq = 0, ev_InputRequestID = []\<rparr>"

definition NewStepEvent :: "gotime \<Rightarrow> EventType \<Rightarrow> string \<Rightarrow> string \<Rightarrow> raw \<Rightarrow> ('x, Event) res" where
  "NewStepEvent now eventType runID stepID payload =
     (if runID = [] then Panic ''NewStepEvent''
      else if stepID = [] then Panic ''NewStepEvent''
      else Ok (new_event now eventType runID stepID payload))"

definition NewWorkflowEvent :: "gotime \<Rightarrow> EventType \<Rightarrow> string \<Rightarrow> raw \<Rightarrow> ('x, Event) res" where
  "NewWorkflowEvent now eventType runID payload =
     (if runID = [] then Panic ''NewWorkflowEvent''
      else if event_name eventType = [] then Panic ''NewWorkflowEvent''
      else Ok (new_event now eventType runID [] payload))"

definition NATSSubject :: "Event \<Rightarrow> ('x, string) res" where
  "NATSSubject e =
     (if ev_RunID e = [] then Panic ''Event.NATSSubject''
      else if event_name (ev_Type e) = [] then Panic ''Event.NATSSubject''
      else Ok (''history.'' @ ev_RunID e))"

definition NATSMsgID :: "Event \<Rightarrow> string" where
  "NATSMsgID e =
     (if ev_StepID e = [] then ev_RunID e @ ''.'' @ event_name (ev_Type e)
      else
        let base = ev_RunID e @ ''.'' @ ev_StepID e @ ''.'' @ event_name (ev_Type e) in
        if event_name (ev_Type e) = ''step.input.queued'' \<and> ev_InputRequestID e \<noteq> []
        then base @ ''.'' @ ev_InputRequestID e
        else
          let base = (if ev_AttemptNumber e > 0 then base @ ''.'' @ itoa (ev_AttemptNumber e) else base)
          in case ev_Iteration e of
               Some it \<Rightarrow> if HasIdentity e then base @ ''.'' @ itoa it else base
             | None \<Rightarrow> base)"

definition NewInputQueuedEvent :: "gotime \<Rightarrow> string \<Rightarrow> string \<Rightarrow> string \<Rightarrow> ('x, Event) res" where
  "NewInputQueuedEvent now runID stepID requestID =
     (if requestID = [] then Panic ''NewInputQueuedEvent''
      else and_then (NewStepEvent now EventStepInputQueued runID stepID RNil) (\<lambda>evt.
        let evt = evt\<lparr>ev_InputRequestID := requestID\<rparr> in
        if NATSMsgID evt = runID @ ''.'' @ stepID @ ''.'' @ event_name EventStepInputQueued
        then Panic ''NewInputQueuedEvent'' else Ok evt))"

definition CancelSubjectPrefix :: string where
  "CancelSubjectPrefix = ''dagnats.cancel.''"

definition CancelSubject :: "string \<Rightarrow> ('x, string) res" where
  "CancelSubject runID = (if runID = [] then Panic ''CancelSubject'' else Ok (CancelSubjectPrefix @ runID))"

section \<open>Failures and waits\<close>

datatype FailureType = FailureTypeRetriable | FailureTypeNonRetriable | FailureTypeRetryAfter | FailureTypeOther string

record StepFailedPayload =
  sf_Error :: string
  sf_FailureType :: FailureType
  sf_RetryAfterMs :: int

record ContinueWait =
  cw_DelayMs :: int
  cw_Until :: "gotime option"
  cw_Input :: bool

definition ContinueWait_IsZero :: "ContinueWait option \<Rightarrow> bool" where
  "ContinueWait_IsZero w =
     (case w of None \<Rightarrow> True | Some c \<Rightarrow> cw_DelayMs c \<le> 0 \<and> cw_Until c = None \<and> \<not> cw_Input c)"

text \<open>\<open>now.Add(time.Duration(ms) * time.Millisecond)\<close>: the product wraps at 64 bits.\<close>

definition WakeAt :: "ContinueWait option \<Rightarrow> gotime \<Rightarrow> ('x, gotime option) res" where
  "WakeAt w now =
     (if now = 0 then Panic ''ContinueWait.WakeAt''
      else
        (case w of
           None \<Rightarrow> Ok None
         | Some c \<Rightarrow>
             (case cw_Until c of
                Some t \<Rightarrow> Ok (Some t)
              | None \<Rightarrow>
                  if cw_DelayMs c > 0 then Ok (Some (now + wrap64 (cw_DelayMs c * Millisecond))) else Ok None)))"

datatype wait_error = ErrWaitRequiresAgentLoop

text \<open>\<open>TaskPayload.CheckWait\<close>, on the two payload fields it reads.\<close>

definition CheckWait :: "bool \<Rightarrow> int \<Rightarrow> ContinueWait option \<Rightarrow> wait_error checked" where
  "CheckWait agentLoop stateMaxBytes wait =
     (if ContinueWait_IsZero wait \<or> agentLoop \<or> stateMaxBytes \<le> 0 then Ok ()
      else Err ErrWaitRequiresAgentLoop)"

record StepContinuePayload =
  sp_Output :: raw
  sp_State :: string
  sp_StateSet :: bool
  sp_Wait :: "ContinueWait option"

section \<open>Decimal numbers\<close>

lemma digit_char_props:
  assumes "d < 10"
  shows "is_digit (digit_char d)" "of_char (digit_char d) = int d + 48"
proof -
  have "of_char (digit_char d) = 48 + d" using assms by (simp add: digit_char_def)
  then show "is_digit (digit_char d)" "of_char (digit_char d) = int d + 48"
    using assms of_nat_of_char [of "digit_char d", where 'a = int] by (simp_all add: is_digit_def)
qed

lemma nat_itoa_digits: "list_all is_digit (nat_itoa n) \<and> nat_itoa n \<noteq> []"
proof (induction n rule: nat_itoa.induct)
  case (1 n)
  then show ?case by (subst nat_itoa.simps) (auto simp: nat_itoa.simps [of n] digit_char_props)
qed

lemma digits_val_snoc: "digits_val (s @ [c]) = digits_val s * 10 + (of_char c - 48)"
  by (simp add: digits_val_def)

lemma digits_val_itoa: "digits_val (nat_itoa n) = int n"
proof (induction n rule: nat_itoa.induct)
  case (1 n)
  show ?case
  proof (cases "n < 10")
    case True
    then show ?thesis
      by (simp add: nat_itoa.simps [of n] digits_val_def digit_char_props)
  next
    case False
    then have "digits_val (nat_itoa n) = digits_val (nat_itoa (n div 10)) * 10 + int (n mod 10)"
      by (simp add: nat_itoa.simps [of n] digits_val_snoc digit_char_props)
    also have "\<dots> = int (n div 10 * 10 + n mod 10)" by (simp only: 1 [OF False] of_nat_add of_nat_mult of_nat_numeral)
    finally show ?thesis by (simp only: div_mult_mod_eq)
  qed
qed

lemma nat_itoa_inj: "nat_itoa m = nat_itoa n \<longleftrightarrow> m = n"
  by (metis digits_val_itoa of_nat_eq_iff)

lemma is_digit_not_dot: "is_digit c \<Longrightarrow> c \<noteq> CHR ''.'' \<and> c \<noteq> CHR ''-''"
  by (auto simp: is_digit_def)

lemma itoa_no_dot: "CHR ''.'' \<notin> set (itoa n)"
  using nat_itoa_digits [of "nat n"] nat_itoa_digits [of "nat (- n)"] is_digit_not_dot
  by (auto simp: itoa_def list_all_iff)

lemma itoa_inj: "itoa m = itoa n \<longleftrightarrow> m = n"
proof -
  have "hd (nat_itoa k) \<noteq> CHR ''-''" for k
    using nat_itoa_digits [of k] is_digit_not_dot by (auto simp: list_all_iff)
  then have "nat_itoa k \<noteq> CHR ''-'' # s" for k s by (metis list.sel(1))
  then show ?thesis by (auto simp: itoa_def nat_itoa_inj dest: sym)
qed

section \<open>Deduplication identifiers\<close>

lemma split_last_dot:
  assumes "CHR ''.'' \<notin> set s" "CHR ''.'' \<notin> set t"
  shows "a @ CHR ''.'' # s = b @ CHR ''.'' # t \<longleftrightarrow> a = b \<and> s = t"
proof
  assume eq: "a @ CHR ''.'' # s = b @ CHR ''.'' # t"
  have r: "rev s @ CHR ''.'' # rev a = rev t @ CHR ''.'' # rev b"
    using arg_cong [OF eq, of rev] by simp
  have tw: "takeWhile (\<lambda>c. c \<noteq> CHR ''.'') (rev u @ CHR ''.'' # v) = rev u" if "CHR ''.'' \<notin> set u" for u v
    using that takeWhile_append2 [of "rev u" "\<lambda>c. c \<noteq> CHR ''.''" "CHR ''.'' # v"] by auto
  have "rev s = rev t" using tw [OF assms(1), of "rev a"] tw [OF assms(2), of "rev b"] r by simp
  then show "a = b \<and> s = t" using r by simp
qed simp

text \<open>The three events a worker answers a dispatch with.\<close>

definition fencedEventType :: "EventType \<Rightarrow> bool" where
  "fencedEventType t = (t = EventStepContinue \<or> t = EventStepCompleted \<or> t = EventStepFailed)"

lemma fenced_name_suffix:
  assumes "fencedEventType t" "fencedEventType t'"
    "a @ CHR ''.'' # event_name t = b @ CHR ''.'' # event_name t'"
  shows "a = b \<and> t = t'"
proof -
  have n: "event_name EventStepContinue = ''step'' @ CHR ''.'' # ''continue''"
    "event_name EventStepCompleted = ''step'' @ CHR ''.'' # ''completed''"
    "event_name EventStepFailed = ''step'' @ CHR ''.'' # ''failed''" by simp_all
  obtain u u' where u: "event_name t = ''step'' @ CHR ''.'' # u" "CHR ''.'' \<notin> set u"
    "event_name t' = ''step'' @ CHR ''.'' # u'" "CHR ''.'' \<notin> set u'" "u = u' \<longrightarrow> t = t'"
    using assms(1,2) n unfolding fencedEventType_def by (elim disjE) fastforce+
  have "(a @ ''.step'') @ CHR ''.'' # u = (b @ ''.step'') @ CHR ''.'' # u'" using assms(3) u by simp
  then have "a @ ''.step'' = b @ ''.step'' \<and> u = u'" using split_last_dot [OF u(2,4)] by blast
  then show ?thesis using u(5) by simp
qed

lemma NATSMsgID_identity:
  assumes "HasIdentity e" "ev_StepID e \<noteq> []" "fencedEventType (ev_Type e)" "ev_Iteration e = Some it"
  shows "NATSMsgID e = (((ev_RunID e @ ''.'' @ ev_StepID e) @ CHR ''.'' # event_name (ev_Type e))
    @ CHR ''.'' # itoa (ev_AttemptNumber e)) @ CHR ''.'' # itoa it"
proof -
  have "event_name (ev_Type e) \<noteq> ''step.input.queued''" using assms(3) by (auto simp: fencedEventType_def)
  then show ?thesis using assms by (simp add: NATSMsgID_def HasIdentity_def Let_def)
qed

section \<open>Properties\<close>

text \<open>C19: two worker events of a run that carry their dispatch identity have the same deduplication
  identifier exactly when they agree on step, event type, attempt and iteration. So JetStream drops
  repetitions of one event and never two events of different attempts, iterations or steps, whatever
  characters the step identifiers contain.\<close>

theorem msg_id_identifies_dispatch:
  assumes "HasIdentity e" "HasIdentity e'" "ev_StepID e \<noteq> []" "ev_StepID e' \<noteq> []"
    "fencedEventType (ev_Type e)" "fencedEventType (ev_Type e')" "ev_RunID e = ev_RunID e'"
  shows "NATSMsgID e = NATSMsgID e' \<longleftrightarrow>
    ev_StepID e = ev_StepID e' \<and> ev_Type e = ev_Type e' \<and> ev_AttemptNumber e = ev_AttemptNumber e'
    \<and> ev_Iteration e = ev_Iteration e'"
proof -
  obtain i i' where i: "ev_Iteration e = Some i" "ev_Iteration e' = Some i'"
    using assms(1,2) by (auto simp: HasIdentity_def)
  show ?thesis
    unfolding NATSMsgID_identity [OF assms(1,3,5) i(1)] NATSMsgID_identity [OF assms(2,4,6) i(2)]
      split_last_dot [OF itoa_no_dot itoa_no_dot] itoa_inj
    using fenced_name_suffix [OF assms(5,6)] assms(7) i by auto
qed

theorem msg_id_identifies_dispatch_witness:
  "NATSMsgID ((new_event 0 EventStepCompleted ''r'' ''a'' RNil)\<lparr>ev_Iteration := Some 0, ev_AttemptNumber := 1\<rparr>)
   \<noteq> NATSMsgID ((new_event 0 EventStepCompleted ''r'' ''a'' RNil)\<lparr>ev_Iteration := Some 1, ev_AttemptNumber := 1\<rparr>)"
  using msg_id_identifies_dispatch
      [of "(new_event 0 EventStepCompleted ''r'' ''a'' RNil)\<lparr>ev_Iteration := Some 0, ev_AttemptNumber := 1\<rparr>"
          "(new_event 0 EventStepCompleted ''r'' ''a'' RNil)\<lparr>ev_Iteration := Some 1, ev_AttemptNumber := 1\<rparr>"]
  by (simp add: HasIdentity_def new_event_def fencedEventType_def)

end
