(* ===== verification/Task_Subjects.thy ===== *)
theory Task_Subjects
  imports Dag_Validated
begin

text \<open>
  Names of task consumers and subjects of task messages (src/internal/consumername/consumername.go and
  \<open>StepSubject\<close> of src/internal/engine/task_publisher.go). NATS decides which subjects a filter
  matches, so its matching is a parameter with its documented rule as a hypothesis: a filter without
  the trailing wildcard matches token by token, a star standing for any one token. Under it a task
  consumer receives exactly the tasks of its own type and group.
\<close>

section \<open>Names and filters\<close>

definition GroupSentinel :: string where
  "GroupSentinel = ''=''"

definition sanitize_char :: "char \<Rightarrow> char" where
  "sanitize_char c = (if task_char c then c else if c = CHR ''.'' then CHR ''-'' else CHR ''_'')"

definition Sanitize :: "string \<Rightarrow> ('e, string) res" where
  "Sanitize s = (if s = [] then Panic ''consumername.Sanitize'' else Ok (map sanitize_char s))"

definition NameFor :: "string \<Rightarrow> string \<Rightarrow> ('e, string) res" where
  "NameFor taskType grp =
     (if taskType = [] then Panic ''consumername.NameFor''
      else and_then (Sanitize taskType) (\<lambda>t.
        if grp = [] then Ok (''workers-'' @ t)
        else and_then (Sanitize grp) (\<lambda>g. Ok (''workers-'' @ t @ ''-'' @ GroupSentinel @ g))))"

definition FilterFor :: "string \<Rightarrow> string \<Rightarrow> ('e, string) res" where
  "FilterFor taskType grp =
     (if taskType = [] then Panic ''consumername.FilterFor''
      else if grp = [] then Ok (''task.'' @ taskType @ ''.*'')
      else Ok (''task.'' @ taskType @ ''.'' @ GroupSentinel @ grp @ ''.*''))"

definition LegacyFilterFor :: "string \<Rightarrow> string \<Rightarrow> ('e, string list) res" where
  "LegacyFilterFor taskType grp =
     (if taskType = [] then Panic ''consumername.LegacyFilterFor''
      else if grp = [] then Ok [''task.'' @ taskType @ ''.>'']
      else Ok [''task.'' @ taskType @ ''.'' @ grp @ ''.>'', ''task.'' @ taskType @ ''.'' @ grp @ ''.*''])"

definition LegacyNameFor :: "string \<Rightarrow> string \<Rightarrow> ('e, string) res" where
  "LegacyNameFor taskType grp =
     (if taskType = [] then Panic ''consumername.LegacyNameFor''
      else if grp = [] then Panic ''consumername.LegacyNameFor''
      else and_then (Sanitize taskType) (\<lambda>t. and_then (Sanitize grp) (\<lambda>g. Ok (''workers-'' @ t @ ''-'' @ g))))"

definition FilterIsLegacyUpgrade :: "string \<Rightarrow> string \<Rightarrow> ('e, bool) res" where
  "FilterIsLegacyUpgrade newFilter oldFilter =
     (if newFilter = [] then Panic ''consumername.FilterIsLegacyUpgrade''
      else if oldFilter = [] then Panic ''consumername.FilterIsLegacyUpgrade''
      else if \<not> has_suffix newFilter ''.*'' then Ok False
      else
        let trimmed = butlast newFilter in
        if oldFilter = trimmed @ ''>'' then Ok True
        else
          (case index_of (''.'' @ GroupSentinel) trimmed of
             None \<Rightarrow> Ok False
           | Some i \<Rightarrow>
               let desentineled = take (i + 1) trimmed @ drop (i + 1 + length GroupSentinel) trimmed
               in Ok (oldFilter = desentineled @ ''*'' \<or> oldFilter = desentineled @ ''>'')))"

text \<open>\<open>routes\<close> are the configured subject prefixes by step type.\<close>

definition StepSubject :: "(StepType \<Rightarrow> string option) \<Rightarrow> StepDef \<Rightarrow> string \<Rightarrow> ('e, string) res" where
  "StepSubject routes step runID =
     (if runID = [] then Panic ''StepSubject''
      else if sd_Task step = [] then Panic ''StepSubject''
      else
        let prefix = (case routes (sd_Type step) of Some p \<Rightarrow> p | None \<Rightarrow> ''task'');
            subject = prefix @ ''.'' @ sd_Task step;
            subject = (if sd_WorkerGroup step \<noteq> [] then subject @ ''.'' @ GroupSentinel @ sd_WorkerGroup step
                       else subject)
        in Ok (subject @ ''.'' @ runID))"

section \<open>Tokens\<close>

lemma split_on_no_sep: "c \<notin> set s \<Longrightarrow> split_on c s = [s]"
  by (induction s) auto

lemma split_on_append: "split_on c (a @ c # b) = split_on c a @ split_on c b"
  by (induction a) (auto split: list.splits simp: split_on_ne dest: sym)

lemma split_on_chars: "w \<in> set (split_on c s) \<Longrightarrow> set w \<subseteq> set s"
proof (induction s arbitrary: w)
  case (Cons x s)
  then show ?case by (cases "split_on c s") (fastforce split: if_splits)+
qed simp

lemma split_on_inj: "split_on c s = split_on c t \<longleftrightarrow> s = t"
  by (metis join_split)

definition group_tokens :: "string \<Rightarrow> string list" where
  "group_tokens grp = (if grp = [] then [] else [CHR ''='' # grp])"

lemma safe_chars:
  assumes "subject_safe s"
  shows "CHR ''*'' \<notin> set s" "CHR ''>'' \<notin> set s" "CHR ''='' \<notin> set s"
  using assms by (auto simp: subject_safe_def task_char_def)

lemma safe_tokens:
  assumes "subject_safe s" "w \<in> set (split_on (CHR ''.'') s)"
  shows "w \<noteq> ''*''" "w \<noteq> ''>''" "w \<noteq> CHR ''='' # g"
  using split_on_chars [OF assms(2)] safe_chars [OF assms(1)] by auto

abbreviation group_ok :: "string \<Rightarrow> bool" where
  "group_ok g \<equiv> g = [] \<or> subject_safe g \<and> CHR ''.'' \<notin> set g"

lemma subject_tokens:
  assumes "group_ok g" "CHR ''.'' \<notin> set r"
    "s = ''task'' @ CHR ''.'' # (t @ CHR ''.'' # (if g = [] then r else (CHR ''='' # g) @ CHR ''.'' # r))"
  shows "split_on (CHR ''.'') s = (''task'' # split_on (CHR ''.'') t @ group_tokens g) @ [r]"
proof -
  have parts: "split_on (CHR ''.'') ''task'' = [''task'']" "split_on (CHR ''.'') r = [r]"
    using split_on_no_sep [OF assms(2)] by simp_all
  have g: "split_on (CHR ''.'') (CHR ''='' # g) = [CHR ''='' # g]"
    using assms(1) by (intro split_on_no_sep) auto
  have "split_on (CHR ''.'') s = split_on (CHR ''.'') ''task'' @ split_on (CHR ''.'') t
      @ (if g = [] then split_on (CHR ''.'') r else split_on (CHR ''.'') (CHR ''='' # g) @ split_on (CHR ''.'') r)"
    unfolding assms(3) by (cases "g = []") (simp_all only: if_True if_False split_on_append simp_thms)
  then show ?thesis unfolding parts g group_tokens_def by simp
qed

lemma FilterFor_tokens:
  assumes "subject_safe t" "group_ok g" "FilterFor t g = Ok f"
  shows "split_on (CHR ''.'') f = (''task'' # split_on (CHR ''.'') t @ group_tokens g) @ [''*'']"
  by (rule subject_tokens [OF assms(2)])
    (use assms in \<open>auto simp: FilterFor_def GroupSentinel_def split: if_splits\<close>)

lemma StepSubject_tokens:
  assumes "group_ok (sd_WorkerGroup step)" "routes (sd_Type step) = None" "CHR ''.'' \<notin> set runID"
    "StepSubject routes step runID = Ok s"
  shows "split_on (CHR ''.'') s
    = (''task'' # split_on (CHR ''.'') (sd_Task step) @ group_tokens (sd_WorkerGroup step)) @ [runID]"
  by (rule subject_tokens [OF assms(1,3)])
    (use assms in \<open>auto simp: StepSubject_def GroupSentinel_def split: if_splits\<close>)

lemma group_tokens_inj:
  assumes "subject_safe t" "subject_safe t'"
    "split_on (CHR ''.'') t @ group_tokens g = split_on (CHR ''.'') t' @ group_tokens g'"
  shows "t = t' \<and> g = g'"
proof -
  have last: "last (split_on (CHR ''.'') u) \<noteq> CHR ''='' # h" if "subject_safe u" for u h
    using safe_tokens(3) [OF that] split_on_ne last_in_set by metis
  have "g = [] \<longleftrightarrow> g' = []"
    using arg_cong [OF assms(3), of last] last [OF assms(1), of g'] last [OF assms(2), of g]
    by (auto simp: group_tokens_def split: if_splits)
  then show ?thesis
    using assms(3) by (auto simp: group_tokens_def split_on_inj split: if_splits)
qed

lemma list_all2_exact: "(\<forall>p \<in> set ps. p \<noteq> ''*'') \<Longrightarrow> list_all2 (\<lambda>p w. p = ''*'' \<or> p = w) ps ws \<longleftrightarrow> ps = ws"
  by (induction ps arbitrary: ws) (auto simp: list_all2_Cons1)

lemma list_all2_snoc_iff: "list_all2 P (xs @ [x]) (ys @ [y]) \<longleftrightarrow> list_all2 P xs ys \<and> P x y"
proof (cases "length xs = length ys")
  case False
  then show ?thesis using list_all2_lengthD [of P "xs @ [x]" "ys @ [y]"] list_all2_lengthD [of P xs ys] by auto
qed (simp add: list_all2_append)

section \<open>Properties\<close>

text \<open>C20: tasks are routed exactly. For task types and worker groups that pass validation, and a run
  identifier without dots, the filter of a consumer matches the subject of a step's task message if and
  only if the consumer is for the step's task type and worker group, whatever dots the task types
  contain. The hypothesis on \<open>matches\<close> is the documented meaning of filters whose only wildcard is the
  star.\<close>

theorem tasks_routed_exactly:
  assumes nats: "\<forall>f s. ''>'' \<notin> set (split_on (CHR ''.'') f) \<longrightarrow>
      (matches f s \<longleftrightarrow> list_all2 (\<lambda>p w. p = ''*'' \<or> p = w) (split_on (CHR ''.'') f) (split_on (CHR ''.'') s))"
    and "ValidTaskType taskType = Ok ()" "grp = [] \<or> ValidWorkerGroup grp = Ok ()"
    and "ValidTaskType (sd_Task step) = Ok ()" "sd_WorkerGroup step = [] \<or> ValidWorkerGroup (sd_WorkerGroup step) = Ok ()"
    and "routes (sd_Type step) = None" "runID \<noteq> []" "CHR ''.'' \<notin> set runID"
  shows "\<exists>f s. (FilterFor taskType grp :: ('e, string) res) = Ok f
    \<and> (StepSubject routes step runID :: ('e, string) res) = Ok s
    \<and> (matches f s \<longleftrightarrow> taskType = sd_Task step \<and> grp = sd_WorkerGroup step)"
proof -
  have safe: "subject_safe taskType" "group_ok grp" "subject_safe (sd_Task step)" "group_ok (sd_WorkerGroup step)"
    using assms(2-5) ValidTaskType_Ok ValidWorkerGroup_Ok by auto
  then have "taskType \<noteq> []" "sd_Task step \<noteq> []" by (auto simp: subject_safe_def)
  then obtain f s where f: "(FilterFor taskType grp :: ('e, string) res) = Ok f"
    and s: "(StepSubject routes step runID :: ('e, string) res) = Ok s"
    using assms(7) by (cases "grp = []") (auto simp: FilterFor_def StepSubject_def Let_def)
  let ?P = "''task'' # split_on (CHR ''.'') taskType @ group_tokens grp"
  let ?S = "''task'' # split_on (CHR ''.'') (sd_Task step) @ group_tokens (sd_WorkerGroup step)"
  have tok: "split_on (CHR ''.'') f = ?P @ [''*'']" "split_on (CHR ''.'') s = ?S @ [runID]"
    using FilterFor_tokens [OF safe(1,2) f] StepSubject_tokens [OF safe(4) assms(6,8) s] by auto
  have plain: "\<forall>p \<in> set ?P. p \<noteq> ''*'' \<and> p \<noteq> ''>''"
    using safe_tokens(1,2) [OF safe(1)] by (auto simp: group_tokens_def)
  then have "''>'' \<notin> set (split_on (CHR ''.'') f)" unfolding tok by auto
  then have "matches f s \<longleftrightarrow> list_all2 (\<lambda>p w. p = ''*'' \<or> p = w) (?P @ [''*'']) (?S @ [runID])"
    using nats tok by simp
  also have "\<dots> \<longleftrightarrow> ?P = ?S"
    using list_all2_exact [of ?P ?S] plain unfolding list_all2_snoc_iff by blast
  also have "\<dots> \<longleftrightarrow> taskType = sd_Task step \<and> grp = sd_WorkerGroup step"
    using group_tokens_inj [OF safe(1,3)] by auto
  finally show ?thesis using f s by blast
qed

definition star_matches :: "string \<Rightarrow> string \<Rightarrow> bool" where
  "star_matches f s = list_all2 (\<lambda>p w. p = ''*'' \<or> p = w) (split_on (CHR ''.'') f) (split_on (CHR ''.'') s)"

theorem tasks_routed_exactly_witness:
  "\<exists>f s. (FilterFor ''build'' [] :: (unit, string) res) = Ok f
     \<and> (StepSubject (\<lambda>_. None) (zero_StepDef\<lparr>sd_Task := ''build.linux''\<rparr>) ''r'' :: (unit, string) res) = Ok s
     \<and> \<not> star_matches f s"
proof -
  have v: "ValidTaskType ''build'' = Ok ()" "ValidTaskType ''build.linux'' = Ok ()"
    by (simp_all add: ValidTaskType_def task_char_def)
  from tasks_routed_exactly [of star_matches "''build''" "[]" "zero_StepDef\<lparr>sd_Task := ''build.linux''\<rparr>"
      "\<lambda>_. None" "''r''", where 'e = unit]
  show ?thesis using v by (simp add: star_matches_def zero_StepDef_def)
qed

end
