(* ===== verification/Nats_Kv.thy ===== *)
theory Nats_Kv
  imports Go_Json
begin

text \<open>
  The JetStream key-value bucket the engine keeps its shared state in. It is not part of the
  sources: a bucket is an argument (\<open>kv\<close>), its documented behaviour is the locale \<open>nats_kv\<close>. A
  failed call may still have been applied, because the reply can be lost. The locale proves what
  makes optimistic locking work: a value once read at a revision is the value of that revision
  for ever, whatever other writers do.
\<close>

datatype kv_error = ErrKeyNotFound | ErrKeyExists | ErrKeyRevisionMismatch | ErrInvalidKey | ErrUnavailable string

record 's kv =
  kv_Get :: "'s \<Rightarrow> string \<Rightarrow> (kv_error, raw \<times> nat) res"
  kv_Put :: "'s \<Rightarrow> string \<Rightarrow> raw \<Rightarrow> 's \<times> (kv_error, nat) res"
  kv_Create :: "'s \<Rightarrow> string \<Rightarrow> raw \<Rightarrow> 's \<times> (kv_error, nat) res"
  kv_Update :: "'s \<Rightarrow> string \<Rightarrow> raw \<Rightarrow> nat \<Rightarrow> 's \<times> (kv_error, nat) res"
  kv_Delete :: "'s \<Rightarrow> string \<Rightarrow> nat \<Rightarrow> 's \<times> kv_error checked"

text \<open>What a call leaves behind: nothing, or the entry it writes at a revision above all before.\<close>

definition untouched :: "('s \<Rightarrow> string \<Rightarrow> (raw \<times> nat) option) \<Rightarrow> ('s \<Rightarrow> nat) \<Rightarrow> 's \<Rightarrow> 's \<Rightarrow> bool" where
  "untouched entry seq s s' \<longleftrightarrow> entry s' = entry s \<and> seq s \<le> seq s'"

definition wrote ::
  "('s \<Rightarrow> string \<Rightarrow> (raw \<times> nat) option) \<Rightarrow> ('s \<Rightarrow> nat) \<Rightarrow> 's \<Rightarrow> 's \<Rightarrow> string \<Rightarrow> raw \<Rightarrow> bool" where
  "wrote entry seq s s' k v \<longleftrightarrow> seq s < seq s' \<and> entry s' = (entry s)(k \<mapsto> (v, seq s'))"

locale nats_kv =
  fixes kv :: "'s kv"
    and entry :: "'s \<Rightarrow> string \<Rightarrow> (raw \<times> nat) option"
    and seq :: "'s \<Rightarrow> nat"
  assumes entry_rev: "entry s k = Some (v, n) \<Longrightarrow> 0 < n \<and> n \<le> seq s"
    and get_Ok: "kv_Get kv s k = Ok e \<Longrightarrow> entry s k = Some e"
    and get_missing: "kv_Get kv s k = Err ErrKeyNotFound \<Longrightarrow> entry s k = None"
    and get_safe: "safe (kv_Get kv s k)"
    and put_safe: "safe (snd (kv_Put kv s k v))"
    and put_cases: "kv_Put kv s k v = (s', r) \<Longrightarrow>
          untouched entry seq s s' \<and> \<not> is_ok r
        \<or> wrote entry seq s s' k v \<and> (is_ok r \<longrightarrow> r = Ok (seq s'))"
    and create_safe: "safe (snd (kv_Create kv s k v))"
    and create_cases: "kv_Create kv s k v = (s', r) \<Longrightarrow>
          untouched entry seq s s' \<and> \<not> is_ok r
        \<or> entry s k = None \<and> wrote entry seq s s' k v \<and> (is_ok r \<longrightarrow> r = Ok (seq s'))"
    and update_safe: "safe (snd (kv_Update kv s k v n))"
    and update_cases: "0 < n \<Longrightarrow> kv_Update kv s k v n = (s', r) \<Longrightarrow>
          untouched entry seq s s' \<and> \<not> is_ok r
        \<or> (\<exists>old. entry s k = Some (old, n)) \<and> wrote entry seq s s' k v \<and> (is_ok r \<longrightarrow> r = Ok (seq s'))"
    and delete_safe: "safe (snd (kv_Delete kv s k n))"
    and delete_cases: "kv_Delete kv s k n = (s', r') \<Longrightarrow>
          untouched entry seq s s' \<and> \<not> is_ok r'
        \<or> (\<exists>old. entry s k = Some (old, n)) \<and> entry s' = (entry s)(k := None) \<and> seq s < seq s'"
begin

text \<open>The bucket moves on: an entry of the later state was there before or is newer than anything
  before.\<close>

definition later :: "'s \<Rightarrow> 's \<Rightarrow> bool" where
  "later s s' \<longleftrightarrow> seq s \<le> seq s' \<and>
     (\<forall>k v n. entry s' k = Some (v, n) \<longrightarrow> entry s k = Some (v, n) \<or> seq s < n)"

lemma later_refl [intro]: "later s s"
  by (simp add: later_def)

lemma later_trans [trans]: "later s s' \<Longrightarrow> later s' s'' \<Longrightarrow> later s s''"
  unfolding later_def by (metis le_trans le_less_trans)

lemma untouched_later: "untouched entry seq s s' \<Longrightarrow> later s s'"
  by (simp add: untouched_def later_def)

lemma wrote_later: "wrote entry seq s s' k v \<Longrightarrow> later s s'"
  by (auto simp: wrote_def later_def)

lemma put_later: "kv_Put kv s k v = (s', r) \<Longrightarrow> later s s'"
  by (auto dest!: put_cases intro: untouched_later wrote_later)

lemma create_later: "kv_Create kv s k v = (s', r) \<Longrightarrow> later s s'"
  by (auto dest!: create_cases intro: untouched_later wrote_later)

lemma update_later: "0 < n \<Longrightarrow> kv_Update kv s k v n = (s', r) \<Longrightarrow> later s s'"
  by (auto dest!: update_cases intro: untouched_later wrote_later)

lemma delete_later: "kv_Delete kv s k n = (s', r) \<Longrightarrow> later s s'"
  by (drule delete_cases) (auto simp: later_def untouched_def split: if_splits)

text \<open>A client's view \<open>(v, n)\<close> of a key: if the key still is at revision \<open>n\<close>, its value is \<open>v\<close>.\<close>

definition view :: "'s \<Rightarrow> string \<Rightarrow> raw \<Rightarrow> nat \<Rightarrow> bool" where
  "view s k v n \<longleftrightarrow> n \<le> seq s \<and> (\<forall>v'. entry s k = Some (v', n) \<longrightarrow> v' = v)"

lemma view_read: "entry s k = Some (v, n) \<Longrightarrow> view s k v n"
  by (auto simp: view_def dest: entry_rev)

lemma view_stable: "view s k v n \<Longrightarrow> later s s' \<Longrightarrow> view s' k v n"
  unfolding view_def later_def by (metis le_trans not_le)

text \<open>A successful compare-and-set replaces the very value its client saw.\<close>

lemma update_sees:
  assumes "view s k v n" "0 < n" "kv_Update kv s k w n = (s', r)" "\<not> untouched entry seq s s'"
  shows "entry s k = Some (v, n)" "entry s' = (entry s)(k \<mapsto> (w, seq s'))"
  using update_cases [OF assms(2,3)] assms(1,4) by (auto simp: view_def wrote_def)

end

section \<open>A bucket in memory\<close>

text \<open>The documented behaviour without failures, for evaluating the model on concrete input. A bucket
  is a stream of writes, newest first; a deletion is a write without value, and the revision of an
  entry is its position in the stream.\<close>

type_synonym bucket = "(string \<times> raw option) list"

fun bk_entry :: "bucket \<Rightarrow> string \<Rightarrow> (raw \<times> nat) option" where
  "bk_entry [] k = None"
| "bk_entry ((k', v) # older) k = (if k' = k then map_option (\<lambda>v. (v, Suc (length older))) v else bk_entry older k)"

definition bk_write :: "bucket \<Rightarrow> string \<Rightarrow> raw \<Rightarrow> bucket \<times> (kv_error, nat) res" where
  "bk_write s k v = ((k, Some v) # s, Ok (Suc (length s)))"

definition mem_kv :: "bucket kv" where
  "mem_kv = \<lparr>
     kv_Get = (\<lambda>s k. case bk_entry s k of None \<Rightarrow> Err ErrKeyNotFound | Some e \<Rightarrow> Ok e),
     kv_Put = bk_write,
     kv_Create = (\<lambda>s k v. if bk_entry s k = None then bk_write s k v else (s, Err ErrKeyExists)),
     kv_Update = (\<lambda>s k v n. if map_option snd (bk_entry s k) = Some n then bk_write s k v
                            else (s, Err ErrKeyRevisionMismatch)),
     kv_Delete = (\<lambda>s k n. if map_option snd (bk_entry s k) = Some n then ((k, None) # s, Ok ())
                          else (s, Err ErrKeyRevisionMismatch))\<rparr>"

lemma bk_entry_rev: "bk_entry s k = Some (v, n) \<Longrightarrow> 0 < n \<and> n \<le> length s"
  by (induction s k rule: bk_entry.induct) (auto split: if_splits)

lemma bk_wrote: "wrote bk_entry length s ((k, Some v) # s) k v"
  by (simp add: wrote_def fun_eq_iff)

interpretation mem: nats_kv mem_kv bk_entry length
proof
  show "0 < n \<and> n \<le> length s" if "bk_entry s k = Some (v, n)" for s k v n
    by (rule bk_entry_rev [OF that])
qed (auto simp: mem_kv_def bk_write_def bk_wrote untouched_def fun_eq_iff split: option.splits if_splits)

end
