(* ===== verification/Engine_Concurrency.thy ===== *)
theory Engine_Concurrency
  imports Nats_Kv Dag_Config
begin

text \<open>
  The concurrency limits of src/internal/engine/concurrency.go: a set of holders per workflow or
  task type, kept in a bucket and changed by compare-and-set. The functions are the code's; the
  relation \<open>mstep\<close> lets any number of engines run them against one bucket, interleaved between
  every read and write, with failing calls and lost replies.
\<close>

section \<open>Member sets\<close>

record runMembership =
  rm_Members :: "string list"

definition dec_runMembership :: "(string \<times> json) list \<Rightarrow> runMembership option" where
  "dec_runMembership kvs =
     map_option (\<lambda>ms. \<lparr>rm_Members = ms\<rparr>) (dec_field ''members'' dec_string_list [] kvs)"

definition marshal_membership :: "string list \<Rightarrow> raw" where
  "marshal_membership ms = RJson (JObj [(''members'', JArr (map JStr ms))])"

definition members_of :: "raw \<Rightarrow> string list" where
  "members_of v = (case unmarshal_struct dec_runMembership v of None \<Rightarrow> [] | Some m \<Rightarrow> rm_Members m)"

definition containsMember :: "string list \<Rightarrow> string \<Rightarrow> bool" where
  "containsMember members runID = list_ex (\<lambda>m. m = runID) members"

definition removeMember :: "string list \<Rightarrow> string \<Rightarrow> string list" where
  "removeMember members runID = filter (\<lambda>m. m \<noteq> runID) members"

definition readMembers :: "'s kv \<Rightarrow> 's \<Rightarrow> string \<Rightarrow> (kv_error, string list \<times> nat) res" where
  "readMembers kv s key =
     (case kv_Get kv s key of
        Err e \<Rightarrow> if e = ErrKeyNotFound then Ok ([], 0) else Err e
      | Panic p \<Rightarrow> Panic p
      | Ok (v, n) \<Rightarrow> Ok (members_of v, n))"

definition casWriteMembers :: "'s kv \<Rightarrow> 's \<Rightarrow> string \<Rightarrow> string list \<Rightarrow> nat \<Rightarrow> 's \<times> bool" where
  "casWriteMembers kv s key members n =
     (let (s', r) = (if n = 0 then kv_Create kv s key (marshal_membership members)
                     else kv_Update kv s key (marshal_membership members) n)
      in (s', is_ok r))"

section \<open>Acquire and release\<close>

datatype cm_error = KvError kv_error | TooManyRetries string

text \<open>A call, and what one pass of its loop decides after reading the set: the answer, or the set to
  write. A release answers True when the code returns no error.\<close>

datatype call = AcquireCall string string int | ReleaseCall string string

datatype attempt = Answer bool | Swap "string list" nat

fun call_key :: "call \<Rightarrow> string" where
  "call_key (AcquireCall k m l) = k"
| "call_key (ReleaseCall k m) = k"

fun decide :: "call \<Rightarrow> string list \<times> nat \<Rightarrow> ('e, attempt) res" where
  "decide (AcquireCall k m l) (members, n) =
     (if containsMember members m then Ok (Answer True)
      else if int (length members) \<ge> l then Ok (Answer False)
      else let newMembers = members @ [m]
           in if int (length newMembers) > l then Panic ''acquireMember: member set grew beyond limit''
              else Ok (Swap newMembers n))"
| "decide (ReleaseCall k m) (members, n) =
     (if \<not> containsMember members m then Ok (Answer True) else Ok (Swap (removeMember members m) n))"

definition concurrencyCASRetriesMax :: nat where
  "concurrencyCASRetriesMax = 10"

fun cas_loop :: "'s kv \<Rightarrow> call \<Rightarrow> nat \<Rightarrow> 's \<Rightarrow> 's \<times> (cm_error, bool) res" where
  "cas_loop kv c 0 s = (s, Err (TooManyRetries (call_key c)))"
| "cas_loop kv c (Suc n) s =
     (case readMembers kv s (call_key c) of
        Err e \<Rightarrow> (s, Err (KvError e))
      | Panic p \<Rightarrow> (s, Panic p)
      | Ok seen \<Rightarrow>
         (case decide c seen of
            Err e \<Rightarrow> (s, Err e)
          | Panic p \<Rightarrow> (s, Panic p)
          | Ok (Answer b) \<Rightarrow> (s, Ok b)
          | Ok (Swap members r) \<Rightarrow>
              (let (s', done) = casWriteMembers kv s (call_key c) members r
               in if done then (s', Ok True) else cas_loop kv c n s')))"

definition acquireMember :: "'s kv \<Rightarrow> 's \<Rightarrow> string \<Rightarrow> string \<Rightarrow> int \<Rightarrow> 's \<times> (cm_error, bool) res" where
  "acquireMember kv s key member limit =
     (if member = [] then (s, Panic ''acquireMember: member must not be empty'')
      else if limit \<le> 0 then (s, Panic ''acquireMember: limit must be positive'')
      else cas_loop kv (AcquireCall key member limit) concurrencyCASRetriesMax s)"

definition releaseMember :: "'s kv \<Rightarrow> 's \<Rightarrow> string \<Rightarrow> string \<Rightarrow> 's \<times> cm_error checked" where
  "releaseMember kv s key member =
     (if member = [] then (s, Panic ''releaseMember: member must not be empty'')
      else if key = [] then (s, Panic ''releaseMember: key must not be empty'')
      else let (s', r) = cas_loop kv (ReleaseCall key member) concurrencyCASRetriesMax s
           in (s', and_then r (\<lambda>_. Ok ())))"

definition AcquireRun :: "'s kv \<Rightarrow> 's \<Rightarrow> string \<Rightarrow> string \<Rightarrow> int \<Rightarrow> 's \<times> (cm_error, bool) res" where
  "AcquireRun kv s workflowID runID limit =
     (if workflowID = [] then (s, Panic ''AcquireRun: workflowID must not be empty'')
      else if runID = [] then (s, Panic ''AcquireRun: runID must not be empty'')
      else if limit \<le> 0 then (s, Ok True)
      else acquireMember kv s (''workflow.'' @ workflowID) runID limit)"

definition ReleaseRun :: "'s kv \<Rightarrow> 's \<Rightarrow> string \<Rightarrow> string \<Rightarrow> 's \<times> cm_error checked" where
  "ReleaseRun kv s workflowID runID =
     (if workflowID = [] then (s, Panic ''ReleaseRun: workflowID must not be empty'')
      else if runID = [] then (s, Panic ''ReleaseRun: runID must not be empty'')
      else releaseMember kv s (''workflow.'' @ workflowID) runID)"

definition taskSlotHolder :: "string \<Rightarrow> string \<Rightarrow> ('e, string) res" where
  "taskSlotHolder runID stepID =
     (if runID = [] then Panic ''taskSlotHolder: runID must not be empty''
      else if stepID = [] then Panic ''taskSlotHolder: stepID must not be empty''
      else Ok (runID @ ''/'' @ stepID))"

text \<open>The task bucket is optional (\<open>kvo\<close>).\<close>

definition AcquireTask :: "'s kv option \<Rightarrow> 's \<Rightarrow> string \<Rightarrow> int \<Rightarrow> string \<Rightarrow> 's \<times> (cm_error, bool) res" where
  "AcquireTask kvo s taskType limit holder =
     (if taskType = [] then (s, Panic ''AcquireTask: taskType must not be empty'')
      else if holder = [] then (s, Panic ''AcquireTask: holder must not be empty'')
      else case kvo of
             None \<Rightarrow> (s, Ok True)
           | Some kv \<Rightarrow> if limit \<le> 0 then (s, Ok True) else acquireMember kv s (''task.'' @ taskType) holder limit)"

definition ReleaseTask :: "'s kv option \<Rightarrow> 's \<Rightarrow> string \<Rightarrow> string \<Rightarrow> 's \<times> cm_error checked" where
  "ReleaseTask kvo s taskType holder =
     (if taskType = [] then (s, Panic ''ReleaseTask: taskType must not be empty'')
      else if holder = [] then (s, Panic ''ReleaseTask: holder must not be empty'')
      else case kvo of None \<Rightarrow> (s, Ok ()) | Some kv \<Rightarrow> releaseMember kv s (''task.'' @ taskType) holder)"

definition taskSlotKeysMax :: nat where
  "taskSlotKeysMax = 10000"

text \<open>The walk over all task keys goes on after an error and reports the first.\<close>

fun release_all :: "'s kv \<Rightarrow> 's \<Rightarrow> (string \<times> string) list \<Rightarrow> 's \<times> cm_error checked" where
  "release_all kv s [] = (s, Ok ())"
| "release_all kv s ((key, holder) # rest) =
     (case releaseMember kv s key holder of
        (s', Panic p) \<Rightarrow> (s', Panic p)
      | (s', Ok u) \<Rightarrow> release_all kv s' rest
      | (s', Err e) \<Rightarrow> (case release_all kv s' rest of (s'', Panic p) \<Rightarrow> (s'', Panic p) | (s'', _) \<Rightarrow> (s'', Err e)))"

datatype holders_error = ListKeys kv_error | TooManyTaskKeys nat | ReleaseError cm_error

definition ReleaseTaskHolders ::
  "'s kv option \<Rightarrow> ('s \<Rightarrow> (kv_error, string list) res) \<Rightarrow> 's \<Rightarrow> string list \<Rightarrow> 's \<times> holders_error checked" where
  "ReleaseTaskHolders kvo listKeys s holders =
     (case kvo of
        None \<Rightarrow> (s, Ok ())
      | Some kv \<Rightarrow>
          if holders = [] then (s, Ok ())
          else case listKeys s of
                 Err e \<Rightarrow> (s, Err (ListKeys e))
               | Panic p \<Rightarrow> (s, Panic p)
               | Ok keys \<Rightarrow>
                   if length keys > taskSlotKeysMax then (s, Err (TooManyTaskKeys (length keys)))
                   else let (s', r) = release_all kv s (List.product keys holders) in (s', map_err ReleaseError r))"

section \<open>Any number of engines\<close>

text \<open>A thread is inside a call: about to read with some passes left, about to write what it decided, or
  back with an answer. \<open>cas_loop\<close> is a thread running alone (lemma \<open>cas_loop_runs\<close>).\<close>

datatype thread = Reading call nat | Writing call nat "string list" nat | Returned call "(cm_error, bool) res"

fun thread_call :: "thread \<Rightarrow> call" where
  "thread_call (Reading c n) = c"
| "thread_call (Writing c n members r) = c"
| "thread_call (Returned c r) = c"

fun is_back :: "thread \<Rightarrow> bool" where
  "is_back (Returned c r) = True"
| "is_back t = False"

fun thread_step :: "'s kv \<Rightarrow> 's \<Rightarrow> thread \<Rightarrow> ('s \<times> thread) option" where
  "thread_step kv s (Reading c 0) = Some (s, Returned c (Err (TooManyRetries (call_key c))))"
| "thread_step kv s (Reading c (Suc n)) =
     Some (s, case readMembers kv s (call_key c) of
                Err e \<Rightarrow> Returned c (Err (KvError e))
              | Panic p \<Rightarrow> Returned c (Panic p)
              | Ok seen \<Rightarrow>
                 (case decide c seen of
                    Err e \<Rightarrow> Returned c (Err e)
                  | Panic p \<Rightarrow> Returned c (Panic p)
                  | Ok (Answer b) \<Rightarrow> Returned c (Ok b)
                  | Ok (Swap members r) \<Rightarrow> Writing c n members r))"
| "thread_step kv s (Writing c n members r) =
     (let (s', done) = casWriteMembers kv s (call_key c) members r
      in Some (s', if done then Returned c (Ok True) else Reading c n))"
| "thread_step kv s (Returned c r) = None"

text \<open>One step of the system: a thread starts an allowed call, a thread takes a step, or the state of
  the network changes without a write (so that calls fail or succeed again).\<close>

inductive mstep ::
  "'s kv \<Rightarrow> ('s \<Rightarrow> string \<Rightarrow> (raw \<times> nat) option) \<Rightarrow> ('s \<Rightarrow> nat) \<Rightarrow> (call \<Rightarrow> bool) \<Rightarrow>
   's \<times> (nat \<Rightarrow> thread) \<Rightarrow> 's \<times> (nat \<Rightarrow> thread) \<Rightarrow> bool" for kv entry seq allowed where
  start: "ts i = Returned c' r \<Longrightarrow> allowed c \<Longrightarrow>
    mstep kv entry seq allowed (s, ts) (s, ts(i := Reading c concurrencyCASRetriesMax))"
| run: "thread_step kv s (ts i) = Some (s', t) \<Longrightarrow> mstep kv entry seq allowed (s, ts) (s', ts(i := t))"
| drift: "untouched entry seq s s' \<Longrightarrow> mstep kv entry seq allowed (s, ts) (s', ts)"

inductive_cases mstepE: "mstep kv entry seq allowed (s, ts) cfg"

text \<open>Who holds a slot, as stored.\<close>

definition holders :: "('s \<Rightarrow> string \<Rightarrow> (raw \<times> nat) option) \<Rightarrow> 's \<Rightarrow> string \<Rightarrow> string list" where
  "holders entry s k = (case entry s k of None \<Rightarrow> [] | Some (v, n) \<Rightarrow> members_of v)"

text \<open>The calls of the threads respect the limits \<open>L\<close>.\<close>

fun in_limits :: "(string \<Rightarrow> int) \<Rightarrow> call \<Rightarrow> bool" where
  "in_limits L (AcquireCall k m l) = (l \<le> L k)"
| "in_limits L (ReleaseCall k m) = True"

text \<open>The specification is a set of holders per key. A call takes effect at once: an acquire adds its
  member when there is room, a release removes its member. An answer is right about the set at the
  moment it is given.\<close>

definition held :: "('s \<Rightarrow> string \<Rightarrow> (raw \<times> nat) option) \<Rightarrow> 's \<Rightarrow> string \<Rightarrow> string set" where
  "held entry s k = set (holders entry s k)"

fun takes_effect :: "call \<Rightarrow> (string \<Rightarrow> string set) \<Rightarrow> (string \<Rightarrow> string set) \<Rightarrow> bool" where
  "takes_effect (AcquireCall k m l) H H' =
     (m \<notin> H k \<and> int (card (H k)) < l \<and> H' = H(k := insert m (H k)))"
| "takes_effect (ReleaseCall k m) H H' = (m \<in> H k \<and> H' = H(k := H k - {m}))"

fun answers :: "call \<Rightarrow> bool \<Rightarrow> (string \<Rightarrow> string set) \<Rightarrow> bool" where
  "answers (AcquireCall k m l) b H = (if b then m \<in> H k else m \<notin> H k \<and> l \<le> int (card (H k)))"
| "answers (ReleaseCall k m) b H = (b \<and> m \<notin> H k)"

section \<open>Lemmas\<close>

lemma containsMember_iff [simp]: "containsMember members m \<longleftrightarrow> m \<in> set members"
  by (auto simp: containsMember_def list_ex_iff)

lemma set_removeMember [simp]: "set (removeMember members m) = set members - {m}"
  by (auto simp: removeMember_def)

lemma dec_strings_JStr: "dec_strings (map JStr ws) = Some ws"
  by (induction ws) (simp_all add: dec_str_def)

lemma members_of_marshal [simp]: "members_of (marshal_membership ms) = ms"
  by (simp add: members_of_def marshal_membership_def unmarshal_struct_def dec_runMembership_def
      dec_field_def dec_string_list_def dec_strings_JStr)

lemma decide_cases:
  "\<exists>a. (decide c (ms, n) :: ('e, attempt) res) = Ok a"
  by (cases c) (auto simp: Let_def)

lemma decide_Swap:
  "(decide c (ms, n) :: ('e, attempt) res) = Ok (Swap ms' n') \<longleftrightarrow> n' = n \<and>
    (case c of AcquireCall k m l \<Rightarrow> m \<notin> set ms \<and> int (length ms) < l \<and> ms' = ms @ [m]
             | ReleaseCall k m \<Rightarrow> m \<in> set ms \<and> ms' = removeMember ms m)"
  by (cases c) (auto simp: Let_def)

lemma decide_Answer:
  "(decide c (ms, n) :: ('e, attempt) res) = Ok (Answer b) \<longleftrightarrow>
    (case c of AcquireCall k m l \<Rightarrow> (if b then m \<in> set ms else m \<notin> set ms \<and> l \<le> int (length ms))
             | ReleaseCall k m \<Rightarrow> b \<and> m \<notin> set ms)"
  by (cases c) (auto simp: Let_def)

lemma cas_loop_runs:
  "cas_loop kv c n s = (s', r) \<Longrightarrow>
     (mstep kv entry seq allowed)\<^sup>*\<^sup>* (s, ts(i := Reading c n)) (s', ts(i := Returned c r))"
proof (induction n arbitrary: s)
  case 0
  then show ?case
    by (intro r_into_rtranclp mstep.run [where i = i and ts = "ts(i := Reading c 0)", simplified]) auto
next
  case (Suc n)
  let ?read = "\<lambda>t. mstep kv entry seq allowed (s, ts(i := Reading c (Suc n))) (s, ts(i := t))"
  have rd: "?read (snd (the (thread_step kv s (Reading c (Suc n)))))"
    using mstep.run [where i = i and ts = "ts(i := Reading c (Suc n))" and kv = kv and s = s] by simp
  show ?case
  proof (cases "\<exists>seen ms r'. readMembers kv s (call_key c) = Ok seen
      \<and> (decide c seen :: (cm_error, attempt) res) = Ok (Swap ms r')")
    case False
    then have "s' = s \<and> snd (the (thread_step kv s (Reading c (Suc n)))) = Returned c r"
      using Suc.prems by (auto split: res.splits attempt.splits)
    then have "s' = s" and "?read (Returned c r)" using rd by (simp_all only:)
    then show ?thesis by (simp only: r_into_rtranclp)
  next
    case True
    then obtain seen ms r' where S: "readMembers kv s (call_key c) = Ok seen"
      "(decide c seen :: (cm_error, attempt) res) = Ok (Swap ms r')" by blast
    obtain s1 b where w: "casWriteMembers kv s (call_key c) ms r' = (s1, b)" by fastforce
    have wr: "mstep kv entry seq allowed (s, ts(i := Writing c n ms r'))
        (s1, ts(i := if b then Returned c (Ok True) else Reading c n))"
      using mstep.run [where i = i and ts = "ts(i := Writing c n ms r')" and kv = kv and s = s] w by simp
    have "?read (Writing c n ms r')" using rd S by simp
    then have two: "(mstep kv entry seq allowed)\<^sup>*\<^sup>* (s, ts(i := Reading c (Suc n)))
        (s1, ts(i := if b then Returned c (Ok True) else Reading c n))"
      using wr by (rule converse_rtranclp_into_rtranclp [OF _ r_into_rtranclp])
    show ?thesis
    proof (cases b)
      case True
      then have "s' = s1" "r = Ok True" using Suc.prems S w by simp_all
      then show ?thesis using two True by (simp only: if_True)
    next
      case False
      then have "cas_loop kv c n s1 = (s', r)" using Suc.prems S w by simp
      from rtranclp_trans [OF two [unfolded if_not_P [OF False]] Suc.IH [OF this]] show ?thesis .
    qed
  qed
qed

text \<open>The invariant of a configuration: every stored set is within its limit and without repetition,
  and what a thread is about to write was decided from a set that still is the stored one if the
  revision still is.\<close>

context nats_kv
begin

definition saw :: "'s \<Rightarrow> string \<Rightarrow> string list \<Rightarrow> nat \<Rightarrow> bool" where
  "saw s k ms n \<longleftrightarrow> (n = 0 \<and> ms = []) \<or> (0 < n \<and> (\<exists>v. view s k v n \<and> members_of v = ms))"

fun thread_inv :: "'s \<Rightarrow> thread \<Rightarrow> bool" where
  "thread_inv s (Writing c n ms' r) =
     (\<exists>ms. saw s (call_key c) ms r \<and> (decide c (ms, r) :: (cm_error, attempt) res) = Ok (Swap ms' r))"
| "thread_inv s _ = True"

definition slots_inv :: "(string \<Rightarrow> int) \<Rightarrow> 's \<Rightarrow> bool" where
  "slots_inv L s \<longleftrightarrow> (\<forall>k. distinct (holders entry s k) \<and> int (length (holders entry s k)) \<le> L k)"

definition minv :: "(string \<Rightarrow> int) \<Rightarrow> 's \<times> (nat \<Rightarrow> thread) \<Rightarrow> bool" where
  "minv L cfg \<longleftrightarrow> slots_inv L (fst cfg)
     \<and> (\<forall>i. thread_inv (fst cfg) (snd cfg i) \<and> (is_back (snd cfg i) \<or> in_limits L (thread_call (snd cfg i))))"

lemma saw_stable: "saw s k ms n \<Longrightarrow> later s s' \<Longrightarrow> saw s' k ms n"
  by (auto simp: saw_def intro: view_stable)

lemma thread_inv_stable: "thread_inv s t \<Longrightarrow> later s s' \<Longrightarrow> thread_inv s' t"
  by (cases t) (auto intro: saw_stable)

lemma readMembers_Ok:
  assumes "readMembers kv s k = Ok (ms, n)"
  shows "holders entry s k = ms \<and> saw s k ms n"
proof (cases "kv_Get kv s k")
  case (Ok e)
  then have e: "entry s k = Some e" by (rule get_Ok)
  then have "0 < snd e" "view s k (fst e) (snd e)" using entry_rev [of s k "fst e" "snd e"] view_read by simp_all
  then show ?thesis using assms Ok e by (auto simp: readMembers_def holders_def saw_def split: prod.splits)
next
  case (Err e)
  then show ?thesis using assms get_missing [of s k]
    by (auto simp: readMembers_def holders_def saw_def split: if_splits)
qed (use assms in \<open>simp add: readMembers_def\<close>)

lemma readMembers_safe: "safe (readMembers kv s k)"
  using get_safe [of s k] by (auto simp: readMembers_def split: res.splits)

lemma casWrite_later: "casWriteMembers kv s k ms n = (s', done) \<Longrightarrow> later s s'"
  by (auto simp: casWriteMembers_def Let_def split: prod.splits if_splits dest: create_later update_later)

lemma wrote_holders: "wrote entry seq s s' k v \<Longrightarrow> holders entry s' = (holders entry s)(k := members_of v)"
  by (auto simp: wrote_def holders_def fun_eq_iff)

lemma untouched_holders: "untouched entry seq s s' \<Longrightarrow> holders entry s' = holders entry s"
  by (simp add: untouched_def holders_def fun_eq_iff)

text \<open>A compare-and-set either changes nothing and fails, or replaces exactly the set its thread saw;
  in the second case it may still report failure.\<close>

lemma casWrite_effect:
  assumes "casWriteMembers kv s k ms' n = (s', done)" "saw s k ms n"
  shows "(holders entry s' = holders entry s \<and> \<not> done)
    \<or> (holders entry s k = ms \<and> holders entry s' = (holders entry s)(k := ms'))"
proof (cases "n = 0")
  case True
  then obtain r where "kv_Create kv s k (marshal_membership ms') = (s', r)" "done = is_ok r"
    using assms(1) by (auto simp: casWriteMembers_def Let_def split: prod.splits)
  moreover have "ms = []" using assms(2) True by (simp add: saw_def)
  ultimately show ?thesis
    using create_cases [of s k "marshal_membership ms'" s'] untouched_holders [of s s'] wrote_holders [of s s' k]
    by (auto simp: holders_def [of _ s k])
next
  case False
  then obtain r where u: "kv_Update kv s k (marshal_membership ms') n = (s', r)" "done = is_ok r"
    using assms(1) by (auto simp: casWriteMembers_def Let_def split: prod.splits)
  obtain v where v: "view s k v n" "members_of v = ms" using assms(2) False by (auto simp: saw_def)
  then have "holders entry s k = ms" if "entry s k = Some (old, n)" for old
    using that by (auto simp: view_def holders_def)
  then show ?thesis
    using update_cases [OF _ u(1)] False u(2) untouched_holders [of s s'] wrote_holders [of s s' k] by auto
qed

text \<open>The effect of a step on the sets, and what a returning call may answer.\<close>

lemma thread_step_read:
  assumes "slots_inv L s" "thread_step kv s (Reading c n) = Some (s', t')"
  shows "s' = s \<and> thread_inv s t' \<and> thread_call t' = c
    \<and> (\<forall>r. t' = Returned c r \<longrightarrow> safe r \<and> (\<forall>b. r = Ok b \<longrightarrow> answers c b (held entry s)))"
proof (cases n)
  case 0
  then show ?thesis using assms by auto
next
  case (Suc m)
  have safe: "safe (readMembers kv s (call_key c))" by (rule readMembers_safe)
  show ?thesis
  proof (cases "readMembers kv s (call_key c)")
    case (Ok seen)
    obtain ms r where seen: "seen = (ms, r)" by fastforce
    have H: "holders entry s (call_key c) = ms" "saw s (call_key c) ms r" "distinct ms"
      using readMembers_Ok [OF Ok [unfolded seen]] assms(1) by (auto simp: slots_inv_def)
    obtain a where a: "(decide c (ms, r) :: (cm_error, attempt) res) = Ok a" using decide_cases by blast
    show ?thesis
    proof (cases a)
      case (Answer b)
      have "answers c b (held entry s)"
        using a H unfolding Answer decide_Answer by (cases c) (auto simp: held_def distinct_card split: if_splits)
      then show ?thesis using assms(2) Suc Ok seen a Answer by auto
    next
      case (Swap ms' r')
      then have "r' = r" using a decide_Swap [where 'e = cm_error] by blast
      then show ?thesis using assms(2) Suc Ok seen a Swap H by auto
    qed
  next
    case (Err e)
    then show ?thesis using assms(2) Suc by auto
  next
    case (Panic p)
    then show ?thesis using safe by simp
  qed
qed

lemma swap_effect:
  assumes "holders entry s (call_key c) = ms" "(decide c (ms, r) :: (cm_error, attempt) res) = Ok (Swap ms' r)"
    and "holders entry s' = (holders entry s)(call_key c := ms')" "slots_inv L s" "in_limits L c"
  shows "takes_effect c (held entry s) (held entry s') \<and> slots_inv L s' \<and> answers c True (held entry s')"
proof -
  have d: "distinct ms" "int (length ms) \<le> L (call_key c)" using assms(1,4) by (auto simp: slots_inv_def)
  have H': "held entry s' = (held entry s)(call_key c := set ms')"
    using assms(3) by (simp add: held_def fun_eq_iff)
  have H: "held entry s (call_key c) = set ms" using assms(1) by (simp add: held_def)
  have n: "length (removeMember ms m) \<le> length ms" "distinct (removeMember ms m)" for m
    using d(1) by (simp_all add: removeMember_def)
  show ?thesis
    using assms(2,3,4,5) d H' H n unfolding decide_Swap
    by (cases c) (auto simp: slots_inv_def distinct_card intro: order_trans [of _ "int (length ms)"])
qed

lemma thread_step_write:
  assumes "slots_inv L s" "in_limits L c" "thread_inv s (Writing c n ms' r)"
    and "thread_step kv s (Writing c n ms' r) = Some (s', t')"
  shows "later s s' \<and> slots_inv L s' \<and> thread_inv s' t' \<and> thread_call t' = c
    \<and> (held entry s' = held entry s \<or> takes_effect c (held entry s) (held entry s'))
    \<and> (\<forall>r. t' = Returned c r \<longrightarrow> r = Ok True \<and> answers c True (held entry s'))"
proof -
  obtain ms where ms: "saw s (call_key c) ms r" "(decide c (ms, r) :: (cm_error, attempt) res) = Ok (Swap ms' r)"
    using assms(3) by auto
  obtain ok where w: "casWriteMembers kv s (call_key c) ms' r = (s', ok)"
    and t': "t' = (if ok then Returned c (Ok True) else Reading c n)"
    using assms(4) by (auto split: prod.splits)
  have l: "later s s'" using w by (rule casWrite_later)
  from casWrite_effect [OF w ms(1)] show ?thesis
  proof (elim disjE conjE)
    assume "holders entry s' = holders entry s" "\<not> ok"
    then show ?thesis using l t' assms(1) by (simp add: held_def slots_inv_def fun_eq_iff)
  next
    assume "holders entry s (call_key c) = ms" "holders entry s' = (holders entry s)(call_key c := ms')"
    from swap_effect [OF this(1) ms(2) this(2) assms(1,2)] show ?thesis using l t' by simp
  qed
qed

lemma thread_step_refines:
  assumes "slots_inv L s" "thread_inv s t" "is_back t \<or> in_limits L (thread_call t)"
    and "thread_step kv s t = Some (s', t')"
  shows "later s s'" "slots_inv L s'" "thread_inv s' t'" "thread_call t' = thread_call t" "\<not> is_back t"
    and "held entry s' = held entry s \<or> takes_effect (thread_call t) (held entry s) (held entry s')"
    and "t' = Returned c r \<Longrightarrow> safe r \<and> (\<forall>b. r = Ok b \<longrightarrow> answers c b (held entry s'))"
proof -
  have "later s s' \<and> slots_inv L s' \<and> thread_inv s' t' \<and> thread_call t' = thread_call t \<and> \<not> is_back t
    \<and> (held entry s' = held entry s \<or> takes_effect (thread_call t) (held entry s) (held entry s'))
    \<and> (\<forall>c r. t' = Returned c r \<longrightarrow> safe r \<and> (\<forall>b. r = Ok b \<longrightarrow> answers c b (held entry s')))"
  proof (cases t)
    case (Reading c n)
    then show ?thesis using thread_step_read [OF assms(1) assms(4) [unfolded Reading]] assms(1) by auto
  next
    case (Writing c n ms r)
    then have "in_limits L c" using assms(3) by simp
    from thread_step_write [OF assms(1) this assms(2,4) [unfolded Writing]] Writing show ?thesis by auto
  next
    case (Returned c r)
    then show ?thesis using assms(4) by simp
  qed
  then show "later s s'" "slots_inv L s'" "thread_inv s' t'" "thread_call t' = thread_call t" "\<not> is_back t"
    "held entry s' = held entry s \<or> takes_effect (thread_call t) (held entry s) (held entry s')"
    "t' = Returned c r \<Longrightarrow> safe r \<and> (\<forall>b. r = Ok b \<longrightarrow> answers c b (held entry s'))"
    by blast+
qed

lemma minvD:
  assumes "minv L (s, ts)"
  shows "slots_inv L s" "thread_inv s (ts i)" "is_back (ts i) \<or> in_limits L (thread_call (ts i))"
  using assms by (simp_all add: minv_def)

lemma mstep_inv:
  assumes "mstep kv entry seq allowed (s, ts) (s', ts')" "minv L (s, ts)" "\<forall>c. allowed c \<longrightarrow> in_limits L c"
  shows "minv L (s', ts')"
  using assms(1)
proof (cases rule: mstep.cases)
  case (start i c' r c)
  then show ?thesis using assms(2,3) by (simp add: minv_def)
next
  case (run i t)
  note D = minvD [OF assms(2)]
  note R = thread_step_refines [OF D(1) D(2) D(3) run(2)]
  have "thread_inv s' (ts j)" for j by (rule thread_inv_stable [OF D(2) R(1)])
  moreover have "in_limits L (thread_call t)" using D(3) [of i] R(4,5) by simp
  ultimately show ?thesis using D(3) R(2,3) run(1) by (auto simp: minv_def)
next
  case drift
  then have "thread_inv s' (ts j)" for j by (intro thread_inv_stable [OF minvD(2) [OF assms(2)]] untouched_later)
  then show ?thesis
    using minvD(1,3) [OF assms(2)] drift untouched_holders by (auto simp: minv_def slots_inv_def)
qed

lemma reachable_minv:
  assumes "(mstep kv entry seq allowed)\<^sup>*\<^sup>* (s0, ts0) (s, ts)" "minv L (s0, ts0)" "\<forall>c. allowed c \<longrightarrow> in_limits L c"
  shows "minv L (s, ts)"
  using assms(1)
proof (induction rule: rtranclp_induct2)
  case refl
  then show ?case by (rule assms(2))
next
  case (step s1 ts1 s2 ts2)
  then show ?case using mstep_inv assms(3) by blast
qed

lemma idle_minv:
  "\<forall>k. entry s k = None \<Longrightarrow> \<forall>k. 0 \<le> L k \<Longrightarrow> \<forall>i. is_back (ts i) \<Longrightarrow> minv L (s, ts)"
proof -
  assume a: "\<forall>k. entry s k = None" "\<forall>k. 0 \<le> L k" "\<forall>i. is_back (ts i)"
  have "thread_inv s (ts i)" for i using a(3) by (cases "ts i") (auto dest: spec [of _ i])
  then show ?thesis using a by (simp add: minv_def slots_inv_def holders_def)
qed

lemma mstep_refines:
  assumes "mstep kv entry seq allowed (s, ts) (s', ts')" "minv L (s, ts)"
  shows "held entry s' = held entry s \<or> (\<exists>i. \<not> is_back (ts i) \<and> takes_effect (thread_call (ts i)) (held entry s) (held entry s'))"
    and "ts' i = Returned c r \<Longrightarrow> ts i \<noteq> ts' i \<Longrightarrow> safe r \<and> (\<forall>b. r = Ok b \<longrightarrow> answers c b (held entry s'))"
proof -
  note D = minvD [OF assms(2)]
  show "held entry s' = held entry s \<or> (\<exists>i. \<not> is_back (ts i) \<and> takes_effect (thread_call (ts i)) (held entry s) (held entry s'))"
    using assms(1)
  proof (cases rule: mstep.cases)
    case (run i t)
    then show ?thesis using thread_step_refines(5,6) [OF D(1) D(2) D(3) run(2)] by blast
  next
    case drift
    then show ?thesis by (simp add: held_def untouched_holders fun_eq_iff)
  qed simp
  show "safe r \<and> (\<forall>b. r = Ok b \<longrightarrow> answers c b (held entry s'))" if "ts' i = Returned c r" "ts i \<noteq> ts' i"
    using assms(1)
  proof (cases rule: mstep.cases)
    case (run j t)
    then have "j = i" "t = Returned c r" using that by (auto split: if_splits)
    then show ?thesis using thread_step_refines(7) [OF D(1) D(2) D(3) run(2)] by blast
  qed (use that in \<open>auto split: if_splits\<close>)
qed

end

section \<open>Properties\<close>


text \<open>Two runs of a workflow that allows one: the first is admitted, the second is not.\<close>

abbreviation one_run :: "string \<Rightarrow> call" where
  "one_run runID \<equiv> AcquireCall ''workflow.w'' runID 1"

definition idle :: "nat \<Rightarrow> thread" where
  "idle i = Returned (one_run ''r'') (Ok False)"

definition admitted :: bucket where
  "admitted = fst (cas_loop mem_kv (one_run ''a'') concurrencyCASRetriesMax [])"

lemma admit_first:
  "AcquireRun mem_kv [] ''w'' ''a'' 1 = (admitted, Ok True)"
  "cas_loop mem_kv (one_run ''a'') concurrencyCASRetriesMax [] = (admitted, Ok True)"
  "admitted = [(''workflow.w'', Some (marshal_membership [''a'']))]"
  by (simp_all add: AcquireRun_def acquireMember_def admitted_def concurrencyCASRetriesMax_def eval_nat_numeral
      readMembers_def casWriteMembers_def mem_kv_def bk_write_def containsMember_def)

lemma refuse_second:
  "AcquireRun mem_kv admitted ''w'' ''b'' 1 = (admitted, Ok False)"
  "cas_loop mem_kv (one_run ''b'') concurrencyCASRetriesMax admitted = (admitted, Ok False)"
  by (simp_all add: admit_first(3) AcquireRun_def acquireMember_def concurrencyCASRetriesMax_def eval_nat_numeral
      readMembers_def mem_kv_def containsMember_def)

lemma starts:
  "in_limits (\<lambda>_. 1) c \<Longrightarrow> is_back (ts i) \<Longrightarrow>
     mstep mem_kv bk_entry length (in_limits (\<lambda>_. 1)) (s, ts) (s, ts(i := Reading c concurrencyCASRetriesMax))"
  by (cases "ts i") (auto intro: mstep.start)

lemma two_calls:
  "(mstep mem_kv bk_entry length (in_limits (\<lambda>_. 1)))\<^sup>*\<^sup>* ([], idle)
     (admitted, idle(0 := Returned (one_run ''a'') (Ok True), 1 := Returned (one_run ''b'') (Ok False)))"
proof -
  let ?M = "mstep mem_kv bk_entry length (in_limits (\<lambda>_. 1))"
    and ?t = "idle(0 := Returned (one_run ''a'') (Ok True))"
  have "?M ([], idle) ([], idle(0 := Reading (one_run ''a'') concurrencyCASRetriesMax))"
    by (rule starts) (simp_all add: idle_def)
  moreover have "?M\<^sup>*\<^sup>* ([], idle(0 := Reading (one_run ''a'') concurrencyCASRetriesMax)) (admitted, ?t)"
    by (rule cas_loop_runs [OF admit_first(2)])
  moreover have "?M (admitted, ?t) (admitted, ?t(1 := Reading (one_run ''b'') concurrencyCASRetriesMax))"
    by (rule starts) (simp_all add: idle_def)
  moreover have "?M\<^sup>*\<^sup>* (admitted, ?t(1 := Reading (one_run ''b'') concurrencyCASRetriesMax))
      (admitted, ?t(1 := Returned (one_run ''b'') (Ok False)))"
    by (rule cas_loop_runs [OF refuse_second(2)])
  ultimately show ?thesis
    by (meson converse_rtranclp_into_rtranclp rtranclp_trans)
qed



text \<open>The write of an acquire takes effect as a whole.\<close>

lemma write_step:
  "mstep mem_kv bk_entry length (in_limits (\<lambda>_. 1))
     ([], idle(0 := Writing (one_run ''a'') 9 [''a''] 0))
     (admitted, idle(0 := Writing (one_run ''a'') 9 [''a''] 0, 0 := Returned (one_run ''a'') (Ok True)))"
  by (rule mstep.run) (simp add: admit_first(3) casWriteMembers_def mem_kv_def bk_write_def)

lemma read_steps:
  "(mstep mem_kv bk_entry length (in_limits (\<lambda>_. 1)))\<^sup>*\<^sup>* ([], idle)
     ([], idle(0 := Writing (one_run ''a'') 9 [''a''] 0))"
proof -
  let ?M = "mstep mem_kv bk_entry length (in_limits (\<lambda>_. 1))"
    and ?t = "idle(0 := Reading (one_run ''a'') concurrencyCASRetriesMax)"
  have "?M ([], idle) ([], ?t)" by (rule starts) (simp_all add: idle_def)
  moreover have "?M ([], ?t) ([], ?t(0 := Writing (one_run ''a'') 9 [''a''] 0))"
    by (rule mstep.run) (simp add: concurrencyCASRetriesMax_def eval_nat_numeral readMembers_def mem_kv_def)
  ultimately show ?thesis by (simp add: rtranclp.rtrancl_into_rtrancl)
qed


end
