(* ===== verification/Engine_RateLimit.thy ===== *)
theory Engine_RateLimit
  imports Nats_Kv Dag_Config Go_Float
begin

text \<open>
  The token bucket of src/internal/engine/ratelimit.go, kept in a key-value bucket and changed by
  compare-and-set. Refilling computes in float64, so the rate is met up to a relative error that the
  last section bounds. A clock reading is an argument of the function that takes it.
\<close>

section \<open>The bucket\<close>

record tokenBucket =
  tb_Tokens :: int
  tb_LastRefill :: int
  tb_Limit :: int
  tb_PeriodNs :: int

definition dec_tokenBucket :: "(string \<times> json) list \<Rightarrow> tokenBucket option" where
  "dec_tokenBucket kvs =
     (case (dec_field ''tokens'' dec_int 0 kvs, dec_field ''last_refill_ns'' dec_int 0 kvs,
            dec_field ''limit'' dec_int 0 kvs, dec_field ''period_ns'' dec_int 0 kvs) of
        (Some t, Some r, Some l, Some p) \<Rightarrow>
          Some \<lparr>tb_Tokens = t, tb_LastRefill = r, tb_Limit = l, tb_PeriodNs = p\<rparr>
      | _ \<Rightarrow> None)"

definition marshal_bucket :: "tokenBucket \<Rightarrow> raw" where
  "marshal_bucket b =
     RJson (JObj [(''tokens'', JInt (tb_Tokens b)), (''last_refill_ns'', JInt (tb_LastRefill b)),
                  (''limit'', JInt (tb_Limit b)), (''period_ns'', JInt (tb_PeriodNs b))])"

datatype rate_error = GetBucket kv_error | UnmarshalBucket string | SaveBucket kv_error | RetriesExhausted

definition maxCASRetries :: nat where
  "maxCASRetries = 10"

definition loadBucket ::
  "'s kv \<Rightarrow> 's \<Rightarrow> string \<Rightarrow> int \<Rightarrow> duration \<Rightarrow> int \<Rightarrow> (rate_error, tokenBucket \<times> nat) res" where
  "loadBucket kv s kvKey limit period now =
     (case kv_Get kv s kvKey of
        Err e \<Rightarrow>
          if e = ErrKeyNotFound
          then Ok (\<lparr>tb_Tokens = limit, tb_LastRefill = now, tb_Limit = limit, tb_PeriodNs = period\<rparr>, 0)
          else Err (GetBucket e)
      | Panic p \<Rightarrow> Panic p
      | Ok (v, n) \<Rightarrow>
          (case unmarshal_struct dec_tokenBucket v of
             None \<Rightarrow> Err (UnmarshalBucket kvKey)
           | Some b \<Rightarrow> Ok (b, n)))"

text \<open>\<open>int(float64(elapsed) * tokensPerNs)\<close>\<close>

definition refilled :: "(rat option \<Rightarrow> int) \<Rightarrow> int \<Rightarrow> int \<Rightarrow> int \<Rightarrow> int" where
  "refilled conv elapsed limit period =
     (let tokensPerNs = fl (int_to_float limit / int_to_float period)
      in to_int64 conv (finite_float (fl (int_to_float elapsed * tokensPerNs))))"

definition refill :: "(rat option \<Rightarrow> int) \<Rightarrow> int \<Rightarrow> tokenBucket \<Rightarrow> ('e, tokenBucket) res" where
  "refill conv now b =
     (if tb_PeriodNs b \<le> 0 then Panic ''refill: bucket.PeriodNs must be positive''
      else
        let elapsed = wrap64 (now - tb_LastRefill b)
        in if elapsed \<le> 0 then Ok b
           else
             let r = refilled conv elapsed (tb_Limit b) (tb_PeriodNs b)
             in if r > 0 then
                  let t = wrap64 (tb_Tokens b + r)
                  in Ok (b\<lparr>tb_Tokens := if t > tb_Limit b then tb_Limit b else t, tb_LastRefill := now\<rparr>)
                else Ok b)"

definition timeUntilTokens :: "tokenBucket \<Rightarrow> int \<Rightarrow> duration" where
  "timeUntilTokens b units =
     (if tb_Limit b \<le> 0 \<or> tb_PeriodNs b \<le> 0 then Second
      else
        let needed = wrap64 (units - tb_Tokens b)
        in if needed \<le> 0 then 0
           else wrap64 (needed * go_div (tb_PeriodNs b) (tb_Limit b)))"

definition saveBucket :: "'s kv \<Rightarrow> 's \<Rightarrow> string \<Rightarrow> tokenBucket \<Rightarrow> nat \<Rightarrow> 's \<times> rate_error checked" where
  "saveBucket kv s kvKey b n =
     (let (s', r) = (if n = 0 then kv_Create kv s kvKey (marshal_bucket b)
                     else kv_Update kv s kvKey (marshal_bucket b) n)
      in (s', and_then (map_err SaveBucket r) (\<lambda>_. Ok ())))"

section \<open>Allow\<close>

text \<open>One compare-and-set attempt. The two clock readings are those of \<open>loadBucket\<close> and \<open>refill\<close>. The
  answer is \<open>(allowed, retryAfter)\<close>.\<close>

definition tryAllow ::
  "(rat option \<Rightarrow> int) \<Rightarrow> 's kv \<Rightarrow> 's \<Rightarrow> string \<Rightarrow> int \<Rightarrow> duration \<Rightarrow> int \<Rightarrow> int \<times> int \<Rightarrow>
   's \<times> (rate_error, bool \<times> duration) res" where
  "tryAllow conv kv s kvKey limit period units now =
     (if kvKey = [] then (s, Panic ''tryAllow: kvKey must not be empty'')
      else if limit \<le> 0 then (s, Panic ''tryAllow: limit must be positive'')
      else
        case loadBucket kv s kvKey limit period (fst now) of
          Err e \<Rightarrow> (s, Err e)
        | Panic p \<Rightarrow> (s, Panic p)
        | Ok (loaded, n) \<Rightarrow>
           (case refill conv (snd now) loaded of
              Err e \<Rightarrow> (s, Err e)
            | Panic p \<Rightarrow> (s, Panic p)
            | Ok b \<Rightarrow>
                if tb_Tokens b \<ge> units then
                  let (s', r) = saveBucket kv s kvKey (b\<lparr>tb_Tokens := wrap64 (tb_Tokens b - units)\<rparr>) n
                  in (s', and_then r (\<lambda>_. Ok (True, 0)))
                else (s, Ok (False, timeUntilTokens b units))))"

fun allow_loop ::
  "(rat option \<Rightarrow> int) \<Rightarrow> 's kv \<Rightarrow> nat \<Rightarrow> 's \<Rightarrow> string \<Rightarrow> int \<Rightarrow> duration \<Rightarrow> int \<Rightarrow> (nat \<Rightarrow> int \<times> int) \<Rightarrow>
   's \<times> (rate_error, bool \<times> duration) res" where
  "allow_loop conv kv 0 s kvKey limit period units clock = (s, Err RetriesExhausted)"
| "allow_loop conv kv (Suc n) s kvKey limit period units clock =
     (case tryAllow conv kv s kvKey limit period units (clock n) of
        (s', Err e) \<Rightarrow> allow_loop conv kv n s' kvKey limit period units clock
      | (s', r) \<Rightarrow> (s', r))"

text \<open>The limiter is nil when its bucket does not exist.\<close>

definition Allow ::
  "(rat option \<Rightarrow> int) \<Rightarrow> 's kv option \<Rightarrow> 's \<Rightarrow> string \<Rightarrow> string \<Rightarrow> int \<Rightarrow> duration \<Rightarrow> int \<Rightarrow> (nat \<Rightarrow> int \<times> int) \<Rightarrow>
   's \<times> (rate_error, bool \<times> duration) res" where
  "Allow conv kvo s taskType key limit period units clock =
     (case kvo of
        None \<Rightarrow> (s, Ok (True, 0))
      | Some kv \<Rightarrow>
          if taskType = [] then (s, Panic ''RateLimiter.Allow: taskType must not be empty'')
          else if key = [] then (s, Panic ''RateLimiter.Allow: key must not be empty'')
          else allow_loop conv kv maxCASRetries s (taskType @ ''.'' @ key) limit period units clock)"

text \<open>A sequence of requests for one key, each with its units and clock, and the units granted.\<close>

fun serve ::
  "(rat option \<Rightarrow> int) \<Rightarrow> 's kv \<Rightarrow> string \<Rightarrow> string \<Rightarrow> int \<Rightarrow> duration \<Rightarrow> 's \<Rightarrow>
   (int \<times> (nat \<Rightarrow> int \<times> int)) list \<Rightarrow> 's \<times> int" where
  "serve conv kv taskType key limit period s [] = (s, 0)"
| "serve conv kv taskType key limit period s ((units, clock) # reqs) =
     (let (s1, r) = Allow conv (Some kv) s taskType key limit period units clock;
          (s2, g) = serve conv kv taskType key limit period s1 reqs
      in (s2, (case r of Ok (True, d) \<Rightarrow> units | _ \<Rightarrow> 0) + g))"

section \<open>Lemmas\<close>

definition sound_bucket :: "tokenBucket \<Rightarrow> bool" where
  "sound_bucket b \<longleftrightarrow> int64_ok (tb_Tokens b) \<and> int64_ok (tb_LastRefill b) \<and> int64_ok (tb_Limit b)
     \<and> int64_ok (tb_PeriodNs b)"

lemma unmarshal_marshal_bucket:
  "sound_bucket b \<Longrightarrow> unmarshal_struct dec_tokenBucket (marshal_bucket b) = Some b"
  by (simp add: sound_bucket_def unmarshal_struct_def marshal_bucket_def dec_tokenBucket_def dec_field_def
      dec_int_def to_lower_def to_lower_char_def)

text \<open>The rounding unit, and the relative error of the four roundings of \<open>refilled\<close> together.\<close>

abbreviation eps :: rat where
  "eps \<equiv> 1 / 2 ^ 53"

definition rate_bound :: "int \<Rightarrow> int \<Rightarrow> rat" where
  "rate_bound limit period = of_int limit / of_int period * (1 + 1 / 2 ^ 50)"

lemma fl_bounds:
  assumes "0 < a" "1 / 2 ^ 100 \<le> a"
  shows "a * (1 - eps) \<le> fl a" "fl a \<le> a * (1 + eps)"
proof -
  have "pow2 (- 1022) \<le> pow2 (- 100)" by (rule power_int_increasing) auto
  also have "pow2 (- 100) = 1 / 2 ^ 100" using power_int_minus [of "2 :: rat" 100] by (simp add: field_simps)
  finally have "\<bar>fl a - a\<bar> \<le> a / 2 ^ 53" using assms by (intro fl_error) auto
  then show "a * (1 - eps) \<le> fl a" "fl a \<le> a * (1 + eps)" by (simp_all add: algebra_simps abs_if split: if_splits)
qed

lemma float_bounds:
  assumes "0 \<le> n"
  shows "of_int n * (1 - eps) \<le> int_to_float n" "int_to_float n \<le> of_int n * (1 + eps)"
  using int_to_float_error [OF assms] by (simp_all add: algebra_simps abs_if split: if_splits)

lemma of_int_int64: "int64_ok n \<Longrightarrow> (of_int n :: rat) < 2 ^ 63"
proof -
  assume "int64_ok n"
  then have "(of_int n :: rat) < of_int (2 ^ 63)" by (simp only: of_int_less_iff int64_ok_def)
  then show ?thesis by simp
qed

lemma refilled_bound:
  assumes "0 < limit" "0 < period" "0 < elapsed" "int64_ok period"
    and "of_int elapsed * rate_bound limit period < 2 ^ 62"
  shows "0 \<le> refilled conv elapsed limit period"
    "of_int (refilled conv elapsed limit period) \<le> of_int elapsed * rate_bound limit period"
proof -
  define L P E where "L = int_to_float limit" and "P = int_to_float period" and "E = int_to_float elapsed"
  define l q e where "l = (of_int limit :: rat)" and "q = (of_int period :: rat)" and "e = (of_int elapsed :: rat)"
  have ge1: "1 \<le> l" "1 \<le> q" "1 \<le> e" and q63: "q < 2 ^ 63"
    using assms of_int_int64 [OF assms(4)] by (simp_all add: l_def q_def e_def)
  have Lb: "l * (1 - eps) \<le> L" "L \<le> l * (1 + eps)" and Pb: "q * (1 - eps) \<le> P" "P \<le> q * (1 + eps)"
    and Eb: "e * (1 - eps) \<le> E" "E \<le> e * (1 + eps)"
    using float_bounds [of limit] float_bounds [of period] float_bounds [of elapsed] assms
    by (simp_all add: L_def P_def E_def l_def q_def e_def)
  have low: "1 / 2 \<le> L" "1 / 2 \<le> P" "1 / 2 \<le> E" using ge1 Lb(1) Pb(1) Eb(1) by simp_all
  have P64: "P \<le> 2 ^ 64" using Pb(2) q63 by simp
  have lp: "1 / 2 ^ 65 \<le> L / P" using low P64 by (simp add: field_simps)
  define T where "T = fl (L / P)"
  have T: "L / P * (1 - eps) \<le> T" "T \<le> L / P * (1 + eps)"
    unfolding T_def by (rule fl_bounds; use lp low in \<open>simp add: field_simps\<close>)+
  then have T0: "1 / 2 ^ 66 \<le> T" using lp by simp
  have et: "1 / 2 ^ 67 \<le> E * T" using mult_mono [OF low(3) T0] low by simp
  define R where "R = fl (E * T)"
  have R: "E * T * (1 - eps) \<le> R" "R \<le> E * T * (1 + eps)"
    unfolding R_def by (rule fl_bounds; use et in simp)+
  have "L / P \<le> l * (1 + eps) / (q * (1 - eps))" using Lb Pb low ge1 by (intro frac_le) auto
  then have "T \<le> l * (1 + eps) / (q * (1 - eps)) * (1 + eps)" using T(2) by (simp add: mult_right_mono order_trans)
  then have "E * T \<le> e * (1 + eps) * (l * (1 + eps) / (q * (1 - eps)) * (1 + eps))"
    using Eb(2) T0 ge1 by (intro mult_mono) auto
  then have "R \<le> e * (1 + eps) * (l * (1 + eps) / (q * (1 - eps)) * (1 + eps)) * (1 + eps)"
    using R(2) by (simp add: mult_right_mono order_trans)
  also have "\<dots> = e * (l / q) * ((1 + eps) ^ 4 / (1 - eps))" using ge1 by (simp add: field_simps power4_eq_xxxx)
  also have "\<dots> \<le> e * (l / q) * (1 + 1 / 2 ^ 50)" using ge1 by (intro mult_left_mono) (auto simp: power_divide)
  also have "\<dots> = e * rate_bound limit period" by (simp add: rate_bound_def l_def q_def)
  finally have Rub: "R \<le> e * rate_bound limit period" .
  have R0: "0 \<le> R" using R(1) et by simp
  have "R < 2 ^ 62" using Rub assms(5) by (simp add: e_def)
  then have fin: "finite_float R = Some R" "trunc_rat R = \<lfloor>R\<rfloor>" "int64_ok \<lfloor>R\<rfloor>"
    using R0 by (auto simp: finite_float_def trunc_rat_def int64_ok_def floor_less_iff le_floor_iff)
  then have "refilled conv elapsed limit period = \<lfloor>R\<rfloor>"
    by (simp add: refilled_def R_def T_def L_def P_def E_def Let_def to_int64_def)
  then show "0 \<le> refilled conv elapsed limit period"
    "of_int (refilled conv elapsed limit period) \<le> of_int elapsed * rate_bound limit period"
    using R0 Rub by (simp_all add: e_def floor_le_iff order_trans [OF of_int_floor_le])
qed

text \<open>A limit and a period whose arithmetic does not overflow between the clock readings \<open>t0\<close> and \<open>t1\<close>.\<close>

definition rate_ok :: "int \<Rightarrow> int \<Rightarrow> int \<Rightarrow> int \<Rightarrow> bool" where
  "rate_ok limit period t0 t1 \<longleftrightarrow> 0 < limit \<and> limit < 2 ^ 62 \<and> 0 < period \<and> int64_ok period
     \<and> int64_ok t0 \<and> int64_ok t1 \<and> t1 - t0 < 2 ^ 63 \<and> of_int (t1 - t0) * rate_bound limit period < 2 ^ 62"

text \<open>What is stored after \<open>g\<close> units were granted: the tokens given out and the tokens left are what
  the bucket started with and what was refilled since.\<close>

definition bucket_inv :: "int \<Rightarrow> int \<Rightarrow> int \<Rightarrow> int \<Rightarrow> int \<Rightarrow> tokenBucket \<Rightarrow> bool" where
  "bucket_inv limit period t0 t1 g b \<longleftrightarrow> tb_Limit b = limit \<and> tb_PeriodNs b = period
     \<and> 0 \<le> tb_Tokens b \<and> tb_Tokens b \<le> limit \<and> t0 \<le> tb_LastRefill b \<and> tb_LastRefill b \<le> t1
     \<and> of_int (g + tb_Tokens b) \<le> of_int limit + of_int (tb_LastRefill b - t0) * rate_bound limit period"

lemma bucket_inv_sound: "rate_ok limit period t0 t1 \<Longrightarrow> bucket_inv limit period t0 t1 g b \<Longrightarrow> sound_bucket b"
  by (auto simp: rate_ok_def bucket_inv_def sound_bucket_def int64_ok_def)

lemma rate_bound_pos: "0 < limit \<Longrightarrow> 0 < period \<Longrightarrow> 0 < rate_bound limit period"
  by (simp add: rate_bound_def)

lemma refill_inv:
  assumes ok: "rate_ok limit period t0 t1" and inv: "bucket_inv limit period t0 t1 g b"
    and now: "t0 \<le> now" "now \<le> t1"
  shows "\<exists>b'. refill conv now b = Ok b' \<and> bucket_inv limit period t0 t1 g b'"
proof -
  define e where "e = now - tb_LastRefill b"
  have lp: "tb_Limit b = limit" "tb_PeriodNs b = period" "0 < limit" "0 < period" "int64_ok period" "limit < 2 ^ 62"
    using ok inv by (simp_all add: rate_ok_def bucket_inv_def)
  have "\<bar>e\<bar> \<le> t1 - t0" "t1 - t0 < 2 ^ 63" using ok inv now by (auto simp: e_def rate_ok_def bucket_inv_def)
  then have w: "wrap64 e = e" by (intro wrap64_id) (auto simp: int64_ok_def)
  let ?r = "refilled conv e limit period"
  show ?thesis
  proof (cases "0 < e \<and> 0 < ?r")
    case False
    then have "refill conv now b = Ok b"
      using lp w by (auto simp: refill_def Let_def e_def [symmetric] not_less)
    then show ?thesis using inv by blast
  next
    case True
    have rb: "0 < rate_bound limit period" using rate_bound_pos lp by simp
    have "e \<le> t1 - t0" using now inv by (simp add: e_def bucket_inv_def)
    then have "of_int e \<le> (of_int (t1 - t0) :: rat)" by (simp only: of_int_le_iff)
    then have "of_int e * rate_bound limit period \<le> of_int (t1 - t0) * rate_bound limit period"
      using rb by (intro mult_right_mono) auto
    also have "\<dots> < 2 ^ 62" using ok by (simp add: rate_ok_def)
    finally have small: "of_int e * rate_bound limit period < 2 ^ 62" .
    have rub: "of_int ?r \<le> of_int e * rate_bound limit period"
      using True lp small by (intro refilled_bound) auto
    then have "(of_int ?r :: rat) < of_int (2 ^ 62)" using small by simp
    then have "?r < 2 ^ 62" by (simp only: of_int_less_iff)
    then have t: "wrap64 (tb_Tokens b + ?r) = tb_Tokens b + ?r"
      using True inv lp by (intro wrap64_id) (simp add: int64_ok_def bucket_inv_def)
    let ?b = "b\<lparr>tb_Tokens := if tb_Tokens b + ?r > limit then limit else tb_Tokens b + ?r, tb_LastRefill := now\<rparr>"
    have "refill conv now b = Ok ?b"
      using True lp w t by (simp add: refill_def Let_def e_def [symmetric])
    moreover have "bucket_inv limit period t0 t1 g ?b"
    proof -
      have "of_int (g + tb_Tokens ?b) \<le> (of_int (g + tb_Tokens b) + of_int ?r :: rat)" by simp
      also have "\<dots> \<le> of_int limit + of_int (tb_LastRefill b - t0) * rate_bound limit period
          + of_int e * rate_bound limit period"
        using rub inv by (simp add: bucket_inv_def)
      also have "\<dots> = of_int limit + of_int (now - t0) * rate_bound limit period"
        by (simp add: e_def algebra_simps)
      finally show ?thesis using inv True now lp by (simp add: bucket_inv_def)
    qed
    ultimately show ?thesis by blast
  qed
qed

context nats_kv
begin

definition stored_inv :: "int \<Rightarrow> int \<Rightarrow> int \<Rightarrow> int \<Rightarrow> string \<Rightarrow> int \<Rightarrow> 's \<Rightarrow> bool" where
  "stored_inv limit period t0 t1 k g s \<longleftrightarrow>
     (case entry s k of
        None \<Rightarrow> g = 0
      | Some (v, n) \<Rightarrow> \<exists>b. v = marshal_bucket b \<and> bucket_inv limit period t0 t1 g b)"

lemma loadBucket_inv:
  assumes "rate_ok limit period t0 t1" "stored_inv limit period t0 t1 k g s" "t0 \<le> now" "now \<le> t1"
  shows "safe (loadBucket kv s k limit period now)"
    and "loadBucket kv s k limit period now = Ok (b, n) \<Longrightarrow> bucket_inv limit period t0 t1 g b"
proof -
  have "safe (loadBucket kv s k limit period now)
    \<and> (\<forall>b n. loadBucket kv s k limit period now = Ok (b, n) \<longrightarrow> bucket_inv limit period t0 t1 g b)"
  proof (cases "kv_Get kv s k")
    case (Ok e)
    obtain v n where e: "e = (v, n)" by fastforce
    have "entry s k = Some (v, n)" using Ok e get_Ok by simp
    then obtain b where b: "v = marshal_bucket b" "bucket_inv limit period t0 t1 g b"
      using assms(2) by (auto simp: stored_inv_def)
    then show ?thesis
      using Ok e unmarshal_marshal_bucket [OF bucket_inv_sound [OF assms(1) b(2)]] by (simp add: loadBucket_def)
  next
    case (Err e)
    have "bucket_inv limit period t0 t1 g
        \<lparr>tb_Tokens = limit, tb_LastRefill = now, tb_Limit = limit, tb_PeriodNs = period\<rparr>" if "g = 0"
      using that assms(1,3,4) rate_bound_pos [of limit period] by (simp add: bucket_inv_def rate_ok_def)
    then show ?thesis
      using Err get_missing [of s k] assms(2) by (auto simp: loadBucket_def stored_inv_def)
  next
    case (Panic p)
    then show ?thesis using get_safe [of s k] by simp
  qed
  then show "safe (loadBucket kv s k limit period now)"
    "loadBucket kv s k limit period now = Ok (b, n) \<Longrightarrow> bucket_inv limit period t0 t1 g b" by blast+
qed

lemma saveBucket_cases:
  assumes "saveBucket kv s k b n = (s', r)"
  shows "safe r \<and> (untouched entry seq s s' \<and> \<not> is_ok r \<or> wrote entry seq s s' k (marshal_bucket b))"
proof (cases "n = 0")
  case True
  then obtain r' where c: "kv_Create kv s k (marshal_bucket b) = (s', r')" "r = and_then (map_err SaveBucket r') (\<lambda>_. Ok ())"
    using assms by (auto simp: saveBucket_def Let_def split: prod.splits)
  then show ?thesis using create_cases [OF c(1)] create_safe [of s k "marshal_bucket b"] by (cases r') auto
next
  case False
  then obtain r' where c: "kv_Update kv s k (marshal_bucket b) n = (s', r')" "r = and_then (map_err SaveBucket r') (\<lambda>_. Ok ())"
    using assms by (auto simp: saveBucket_def Let_def split: prod.splits)
  then show ?thesis
    using update_cases [OF _ c(1)] False update_safe [of s k "marshal_bucket b" n] by (cases r') auto
qed

text \<open>One attempt keeps the account, whether its write is applied, refused, or applied without the
  caller learning of it.\<close>

lemma tryAllow_inv:
  assumes ok: "rate_ok limit period t0 t1" and inv: "stored_inv limit period t0 t1 k g s"
    and units: "0 \<le> units" and k: "k \<noteq> []"
    and now: "t0 \<le> fst now" "fst now \<le> t1" "t0 \<le> snd now" "snd now \<le> t1"
    and attempt: "tryAllow conv kv s k limit period units now = (s', r)"
  shows "safe r \<and> stored_inv limit period t0 t1 k (g + (case r of Ok (True, d) \<Rightarrow> units | _ \<Rightarrow> 0)) s'"
proof -
  have l: "0 < limit" using ok by (simp add: rate_ok_def)
  note L = loadBucket_inv [OF ok inv now(1,2)]
  show ?thesis
  proof (cases "loadBucket kv s k limit period (fst now)")
    case (Ok x)
    obtain b0 n where x: "x = (b0, n)" by fastforce
    obtain b where b: "refill conv (snd now) b0 = (Ok b :: (rate_error, tokenBucket) res)" "bucket_inv limit period t0 t1 g b"
      using refill_inv [OF ok L(2) [OF Ok [unfolded x]] now(3,4)] by blast
    show ?thesis
    proof (cases "units \<le> tb_Tokens b")
      case False
      then show ?thesis using attempt Ok x b l k inv by (auto simp: tryAllow_def)
    next
      case True
      let ?b = "b\<lparr>tb_Tokens := tb_Tokens b - units\<rparr>"
      have w: "wrap64 (tb_Tokens b - units) = tb_Tokens b - units"
        using True units b(2) ok by (intro wrap64_id) (auto simp: int64_ok_def bucket_inv_def rate_ok_def)
      obtain r' where sv: "saveBucket kv s k ?b n = (s', r')" and r: "r = and_then r' (\<lambda>_. Ok (True, 0))"
        using attempt Ok x b(1) l k True w by (auto simp: tryAllow_def Let_def split: prod.splits)
      have new: "bucket_inv limit period t0 t1 (g + units) ?b" using b(2) True units by (simp add: bucket_inv_def)
      have "of_int (g + tb_Tokens ?b) \<le> (of_int (g + tb_Tokens b) :: rat)" using units by simp
      then have new0: "bucket_inv limit period t0 t1 g ?b" using b(2) True units by (auto simp: bucket_inv_def)
      show ?thesis
        using saveBucket_cases [OF sv] inv new new0 r
        by (cases r') (auto simp: stored_inv_def untouched_def wrote_def)
    qed
  next
    case (Err e)
    then show ?thesis using attempt l k inv by (auto simp: tryAllow_def)
  next
    case (Panic p)
    then show ?thesis using L(1) by simp
  qed
qed

lemma allow_loop_inv:
  assumes ok: "rate_ok limit period t0 t1" and units: "0 \<le> units" and k: "k \<noteq> []"
    and now: "\<And>i. t0 \<le> fst (clock i) \<and> fst (clock i) \<le> t1 \<and> t0 \<le> snd (clock i) \<and> snd (clock i) \<le> t1"
  shows "stored_inv limit period t0 t1 k g s \<Longrightarrow> allow_loop conv kv n s k limit period units clock = (s', r) \<Longrightarrow>
    safe r \<and> stored_inv limit period t0 t1 k (g + (case r of Ok (True, d) \<Rightarrow> units | _ \<Rightarrow> 0)) s'"
proof (induction n arbitrary: s)
  case 0
  then show ?case by auto
next
  case (Suc n)
  obtain s1 r1 where t: "tryAllow conv kv s k limit period units (clock n) = (s1, r1)" by fastforce
  note T = tryAllow_inv [OF ok Suc.prems(1) units k _ _ _ _ t]
  show ?case
  proof (cases r1)
    case (Err e)
    then show ?thesis using Suc.IH [of s1] Suc.prems(2) t T now [of n] by simp
  qed (use Suc.prems(2) t T now [of n] in auto)
qed

lemma serve_inv:
  assumes ok: "rate_ok limit period t0 t1" and ne: "taskType \<noteq> []" "key \<noteq> []"
  shows "stored_inv limit period t0 t1 (taskType @ ''.'' @ key) g s \<Longrightarrow>
    \<forall>(units, clock) \<in> set reqs. 0 \<le> units \<and>
      (\<forall>i. t0 \<le> fst (clock i) \<and> fst (clock i) \<le> t1 \<and> t0 \<le> snd (clock i) \<and> snd (clock i) \<le> t1) \<Longrightarrow>
    serve conv kv taskType key limit period s reqs = (s', got) \<Longrightarrow>
    stored_inv limit period t0 t1 (taskType @ ''.'' @ key) (g + got) s'"
proof (induction reqs arbitrary: s s' g got)
  case Nil
  then show ?case by simp
next
  case (Cons q reqs)
  obtain units clock where q: "q = (units, clock)" by fastforce
  obtain s1 r where a: "Allow conv (Some kv) s taskType key limit period units clock = (s1, r)" by fastforce
  obtain s2 g2 where sv: "serve conv kv taskType key limit period s1 reqs = (s2, g2)" by fastforce
  let ?u = "case r of Ok (True, d) \<Rightarrow> units | _ \<Rightarrow> 0"
  have "stored_inv limit period t0 t1 (taskType @ ''.'' @ key) (g + ?u) s1"
    using allow_loop_inv [OF ok, of units "taskType @ ''.'' @ key" clock g s] a ne Cons.prems(1,2) q
    by (simp add: Allow_def)
  from Cons.IH [OF this _ sv] show ?case using Cons.prems(2,3) q a sv by (simp add: Let_def add.assoc)
qed

end

section \<open>Properties\<close>

text \<open>C9: the limiter keeps its rate. Whatever requests are made for a key between the clock readings
  \<open>t0\<close> and \<open>t1\<close>, in whatever order the clocks of the engines read, with calls to the bucket failing and
  replies getting lost, the units granted are at most the limit plus the limit per period for the time
  between the readings, up to one part in \<open>2^50\<close> for the float64 arithmetic.\<close>

theorem rate_limit_bound:
  assumes "nats_kv kv entry seq" "entry s (taskType @ ''.'' @ key) = None" "taskType \<noteq> []" "key \<noteq> []"
    and "rate_ok limit period t0 t1" "t0 \<le> t1"
    and "\<forall>(units, clock) \<in> set reqs. 0 \<le> units \<and>
      (\<forall>i. t0 \<le> fst (clock i) \<and> fst (clock i) \<le> t1 \<and> t0 \<le> snd (clock i) \<and> snd (clock i) \<le> t1)"
  shows "of_int (snd (serve conv kv taskType key limit period s reqs))
    \<le> of_int limit + of_int (t1 - t0) * rate_bound limit period"
proof -
  obtain s' got where sv: "serve conv kv taskType key limit period s reqs = (s', got)" by fastforce
  have "nats_kv.stored_inv entry limit period t0 t1 (taskType @ ''.'' @ key) 0 s"
    using assms(2) by (simp add: nats_kv.stored_inv_def [OF assms(1)])
  from nats_kv.serve_inv [OF assms(1,5,3,4) this assms(7) sv]
  have inv: "nats_kv.stored_inv entry limit period t0 t1 (taskType @ ''.'' @ key) got s'" by simp
  have pos: "0 < rate_bound limit period" using assms(5) by (simp add: rate_ok_def rate_bound_pos)
  show ?thesis
  proof (cases "entry s' (taskType @ ''.'' @ key)")
    case None
    then have "got = 0" using inv by (simp add: nats_kv.stored_inv_def [OF assms(1)])
    then show ?thesis using sv pos assms(5,6) by (simp add: rate_ok_def)
  next
    case (Some e)
    then obtain b where b: "bucket_inv limit period t0 t1 got b"
      using inv by (auto simp: nats_kv.stored_inv_def [OF assms(1)] split: prod.splits)
    then have "of_int got \<le> (of_int (got + tb_Tokens b) :: rat)" by (simp add: bucket_inv_def)
    also have "\<dots> \<le> of_int limit + of_int (tb_LastRefill b - t0) * rate_bound limit period"
      using b by (simp only: bucket_inv_def)
    also have "\<dots> \<le> of_int limit + of_int (t1 - t0) * rate_bound limit period"
      using b pos by (intro add_left_mono mult_right_mono) (auto simp: bucket_inv_def)
    finally show ?thesis using sv by simp
  qed
qed

text \<open>Two requests at once against a limit of one per second: one is granted.\<close>

definition at_zero :: "nat \<Rightarrow> int \<times> int" where
  "at_zero i = (0, 0)"

definition spent :: tokenBucket where
  "spent = \<lparr>tb_Tokens = 0, tb_LastRefill = 0, tb_Limit = 1, tb_PeriodNs = Second\<rparr>"

lemma first_allowed:
  "Allow conv (Some mem_kv) [] ''t'' ''_global'' 1 Second 1 at_zero
     = ([(''t._global'', Some (marshal_bucket spent))], Ok (True, 0))"
  by (simp add: Allow_def maxCASRetries_def eval_nat_numeral(3) numeral_eq_Suc tryAllow_def loadBucket_def mem_kv_def
      at_zero_def refill_def wrap64_def saveBucket_def bk_write_def spent_def)

lemma second_refused:
  "Allow conv (Some mem_kv) [(''t._global'', Some (marshal_bucket spent))] ''t'' ''_global'' 1 Second 1 at_zero
     = ([(''t._global'', Some (marshal_bucket spent))], Ok (False, Second))"
proof -
  have "unmarshal_struct dec_tokenBucket (marshal_bucket spent) = Some spent"
    by (rule unmarshal_marshal_bucket) (simp add: sound_bucket_def spent_def int64_ok_def)
  then show ?thesis
    by (simp add: Allow_def maxCASRetries_def numeral_eq_Suc tryAllow_def loadBucket_def mem_kv_def at_zero_def
        refill_def wrap64_def spent_def timeUntilTokens_def go_div_def)
qed

theorem rate_limit_bound_witness:
  "snd (serve (\<lambda>_. 0) mem_kv ''t'' ''_global'' 1 Second [] [(1, at_zero), (1, at_zero)]) = 1 \<and>
   of_int (snd (serve (\<lambda>_. 0) mem_kv ''t'' ''_global'' 1 Second [] [(1, at_zero), (1, at_zero)]))
     \<le> (1 :: rat) + of_int (0 - 0) * rate_bound 1 Second"
proof
  have ok: "rate_ok 1 Second 0 0" by (simp add: rate_ok_def int64_ok_def)
  show "of_int (snd (serve (\<lambda>_. 0) mem_kv ''t'' ''_global'' 1 Second [] [(1, at_zero), (1, at_zero)]))
     \<le> (1 :: rat) + of_int (0 - 0) * rate_bound 1 Second"
    using rate_limit_bound [OF mem.nats_kv_axioms _ _ _ ok, of "[]" "''t''" "''_global''"
        "[(1, at_zero), (1, at_zero)]" "\<lambda>_. 0"] by (simp add: at_zero_def del: serve.simps)
  show "snd (serve (\<lambda>_. 0) mem_kv ''t'' ''_global'' 1 Second [] [(1, at_zero), (1, at_zero)]) = 1"
    by (simp add: first_allowed second_refused)
qed

end
