(* ===== verification/Engine_Publish.thy ===== *)
theory Engine_Publish
  imports Engine_Concurrency Engine_RateLimit Task_Subjects Protocol Dag_Resolve
begin

text \<open>
  Sending tasks to workers: the publisher with its rate limit, concurrency limit, sticky routing and
  capability gate (src/internal/engine/task_publisher.go, task_publish.go, sticky.go, grant_policy.go), and
  the timers that send a task again later (sleeptimer.go). An operation returns the messages it
  publishes; that a publish succeeds is assumed. Tracing, logs and metrics are left out.
\<close>

section \<open>Payloads and timers\<close>

record TaskPayload =
  tp_TaskID :: string
  tp_RunID :: string
  tp_StepID :: string
  tp_Iteration :: int
  tp_Attempt :: int
  tp_Input :: raw
  tp_Metadata :: "string gomap"
  tp_RequiredCapabilities :: "string list"
  tp_DispatchNonce :: string
  tp_WorkflowName :: string
  tp_State :: raw
  tp_StateMaxBytes :: int
  tp_AgentLoop :: bool

datatype TimerAction =
    TimerActionSleepComplete | TimerActionRateRetry | TimerActionWaitTimeout | TimerActionRetryAfter
  | TimerActionRetryBackoff | TimerActionTaskConcurRetry | TimerActionDebounce | TimerActionStepTimeout
  | TimerActionLoopDelay | TimerActionLoopWait | TimerActionApprovalTimeout

fun action_name :: "TimerAction \<Rightarrow> string" where
  "action_name TimerActionSleepComplete = ''sleep_complete''"
| "action_name TimerActionRateRetry = ''rate_retry''"
| "action_name TimerActionWaitTimeout = ''wait_timeout''"
| "action_name TimerActionRetryAfter = ''retry_after''"
| "action_name TimerActionRetryBackoff = ''retry_backoff''"
| "action_name TimerActionTaskConcurRetry = ''task_concurrency_retry''"
| "action_name TimerActionDebounce = ''debounce_fire''"
| "action_name TimerActionStepTimeout = ''step_timeout''"
| "action_name TimerActionLoopDelay = ''loop_delay''"
| "action_name TimerActionLoopWait = ''loop_wait''"
| "action_name TimerActionApprovalTimeout = ''approval_timeout''"

record TimerMessage =
  tm_Action :: TimerAction
  tm_RunID :: string
  tm_StepID :: string
  tm_DurationMs :: int
  tm_TaskType :: string
  tm_Input :: raw
  tm_Attempt :: int
  tm_DispatchNonce :: string
  tm_RequiredCapabilities :: "string list"
  tm_WorkflowName :: string
  tm_Subject :: string
  tm_Metadata :: "string gomap"
  tm_Iteration :: int

definition zero_TimerMessage :: TimerMessage where
  "zero_TimerMessage = \<lparr>tm_Action = TimerActionSleepComplete, tm_RunID = [], tm_StepID = [], tm_DurationMs = 0,
     tm_TaskType = [], tm_Input = RNil, tm_Attempt = 0, tm_DispatchNonce = [], tm_RequiredCapabilities = [],
     tm_WorkflowName = [], tm_Subject = [], tm_Metadata = [], tm_Iteration = 0\<rparr>"

text \<open>A published message: its subject, deduplication identifier and content.\<close>

datatype message =
    TaskMsg string string TaskPayload
  | TimerMsg string string TimerMessage
  | EventMsg Event

datatype publish_error =
    RateLimitCheck rate_error
  | RateLimitKey string path_error
  | AcquireSlot cm_error
  | MarshalPayload string
  | InputOf string marshal_error

text \<open>\<open>json.Marshal\<close> fails on an \<open>omitempty\<close> raw field that is not JSON.\<close>

definition raw_marshals :: "raw \<Rightarrow> bool" where
  "raw_marshals r = (raw_empty r \<or> raw_json r \<noteq> None)"

section \<open>Capabilities\<close>

definition controlPlaneCapability :: string where
  "controlPlaneCapability = ''control-plane''"

record GrantPolicy =
  gp_grant :: "string list"
  gp_promote :: "string list"

definition NewGrantPolicy :: "string list \<Rightarrow> string list \<Rightarrow> GrantPolicy" where
  "NewGrantPolicy grant promote = \<lparr>gp_grant = remdups grant, gp_promote = remdups promote\<rparr>"

definition GrantsControlPlane :: "GrantPolicy option \<Rightarrow> string \<Rightarrow> bool" where
  "GrantsControlPlane p workflowName =
     (case p of None \<Rightarrow> False | Some p \<Rightarrow> workflowName \<noteq> [] \<and> workflowName \<in> set (gp_grant p))"

definition AllowsPromote :: "GrantPolicy option \<Rightarrow> string \<Rightarrow> bool" where
  "AllowsPromote p workflowName =
     (case p of None \<Rightarrow> False | Some p \<Rightarrow> workflowName \<noteq> [] \<and> workflowName \<in> set (gp_promote p))"

definition stripControlPlaneCapability :: "string list \<Rightarrow> string list" where
  "stripControlPlaneCapability caps =
     (if controlPlaneCapability \<notin> set caps then caps else filter (\<lambda>c. c \<noteq> controlPlaneCapability) caps)"

definition effectiveCapabilities :: "string list \<Rightarrow> string \<Rightarrow> GrantPolicy option \<Rightarrow> string list" where
  "effectiveCapabilities caps workflowName p =
     (if controlPlaneCapability \<notin> set caps then caps
      else if GrantsControlPlane p workflowName then caps
      else filter (\<lambda>c. c \<noteq> controlPlaneCapability) caps)"

section \<open>Identity of a dispatch\<close>

datatype dispatchIdentityMode = dispatchNewAttempt | dispatchSameAttempt

definition dispatchIdentity :: "WorkflowRun \<Rightarrow> string \<Rightarrow> dispatchIdentityMode \<Rightarrow> ('e, int \<times> int) res" where
  "dispatchIdentity run stepID mode =
     (if stepID = [] then Panic ''dispatchIdentity: stepID must not be empty''
      else
        let state = step_of (wr_Steps run) stepID
        in Ok (case mode of dispatchNewAttempt \<Rightarrow> wrap64 (ss_Attempts state + 1)
                          | dispatchSameAttempt \<Rightarrow> ss_Attempts state,
               ss_Iterations state))"

definition nonceOrMint :: "string \<Rightarrow> string \<Rightarrow> string" where
  "nonceOrMint minted nonce = (if nonce = [] then minted else nonce)"

definition buildTaskMsg :: "string \<Rightarrow> TaskPayload \<Rightarrow> string \<Rightarrow> ('e, message) res" where
  "buildTaskMsg subject payload msgID =
     (if subject = [] then Panic ''buildTaskMsg: subject must not be empty''
      else if msgID = [] then Panic ''buildTaskMsg: msgID must not be empty''
      else Ok (TaskMsg subject msgID payload))"

section \<open>Timers are scheduled\<close>

definition timer_msg_id :: "TimerMessage \<Rightarrow> string" where
  "timer_msg_id msg =
     (let base = tm_RunID msg @ ''.'' @ tm_StepID msg @ ''.'' @ action_name (tm_Action msg);
          base = (if tm_Attempt msg > 0 then base @ ''.'' @ itoa (tm_Attempt msg) else base)
      in if tm_Iteration msg > 0 then base @ ''.'' @ itoa (tm_Iteration msg) else base)"

definition Schedule :: "TimerMessage \<Rightarrow> (publish_error, message list) res" where
  "Schedule msg =
     (if tm_RunID msg = [] then Panic ''SleepTimer.Schedule: RunID must not be empty''
      else if tm_StepID msg = [] then Panic ''SleepTimer.Schedule: StepID must not be empty''
      else if \<not> raw_marshals (tm_Input msg) then Err (MarshalPayload ''TimerMessage'')
      else Ok [TimerMsg (''sleep.'' @ tm_RunID msg @ ''.'' @ tm_StepID msg) (timer_msg_id msg) msg])"

section \<open>The publisher\<close>

text \<open>What the publisher is configured with, and what it reads from elsewhere: the buckets, the worker a
  run is bound to, the sticky strategy of a run's definition (None when it cannot be loaded), whether the
  sticky router has a timer, the grant policy, the subject prefixes, a fresh nonce, the clock.\<close>

record ('r, 'c) publisher =
  pb_rateLimiter :: "'r kv option"
  pb_concurrency :: "'c kv option option"
  pb_worker :: "string \<Rightarrow> string"
  pb_sticky :: "string \<Rightarrow> string option"
  pb_stickyTimer :: bool
  pb_grantPolicy :: "GrantPolicy option"
  pb_stepRoutes :: "StepType \<Rightarrow> string option"
  pb_loopStateMaxBytes :: int
  pb_minted :: string
  pb_clock :: "nat \<Rightarrow> int \<times> int"
  pb_conv :: "rat option \<Rightarrow> int"
  pb_ffmt :: "rat \<Rightarrow> string"

definition scheduleRateRetry ::
  "('r, 'c) publisher \<Rightarrow> StepDef \<Rightarrow> string \<Rightarrow> raw \<Rightarrow> duration \<Rightarrow> string \<Rightarrow> string \<Rightarrow>
   (publish_error, message list) res" where
  "scheduleRateRetry P step runID input retryAfter workflowName nonce =
     (if runID = [] then Panic ''scheduleRateRetry: runID must not be empty''
      else if sd_ID step = [] then Panic ''scheduleRateRetry: step.ID must not be empty''
      else
        let durationMs = go_div retryAfter Millisecond;
            durationMs = (if durationMs \<le> 0 then 100 else durationMs)
        in and_then (StepSubject (pb_stepRoutes P) step runID) (\<lambda>subject.
             Schedule (zero_TimerMessage\<lparr>tm_Action := TimerActionRateRetry, tm_RunID := runID, tm_StepID := sd_ID step,
               tm_DurationMs := durationMs, tm_TaskType := sd_Task step, tm_Subject := subject,
               tm_Metadata := sd_Metadata step, tm_Input := input, tm_WorkflowName := workflowName,
               tm_DispatchNonce := nonce,
               tm_RequiredCapabilities :=
                 effectiveCapabilities (sd_RequiredCapabilities step) workflowName (pb_grantPolicy P)\<rparr>)))"

definition scheduleConcurrencyRetry ::
  "('r, 'c) publisher \<Rightarrow> StepDef \<Rightarrow> string \<Rightarrow> raw \<Rightarrow> string \<Rightarrow> string \<Rightarrow> (publish_error, message list) res" where
  "scheduleConcurrencyRetry P step runID input workflowName nonce =
     (if runID = [] then Panic ''scheduleConcurrencyRetry: runID must not be empty''
      else if sd_ID step = [] then Panic ''scheduleConcurrencyRetry: step.ID must not be empty''
      else
        and_then (StepSubject (pb_stepRoutes P) step runID) (\<lambda>subject.
          Schedule (zero_TimerMessage\<lparr>tm_Action := TimerActionTaskConcurRetry, tm_RunID := runID,
            tm_StepID := sd_ID step, tm_DurationMs := 1000, tm_TaskType := sd_Task step, tm_Subject := subject,
            tm_Metadata := sd_Metadata step, tm_Input := input, tm_WorkflowName := workflowName,
            tm_DispatchNonce := nonce,
            tm_RequiredCapabilities :=
              effectiveCapabilities (sd_RequiredCapabilities step) workflowName (pb_grantPolicy P)\<rparr>)))"

text \<open>The answer of the limiter: None when the task may go on, the scheduled timer when it is deferred.\<close>

definition rate_answer ::
  "('r, 'c) publisher \<Rightarrow> StepDef \<Rightarrow> string \<Rightarrow> raw \<Rightarrow> string \<Rightarrow> string \<Rightarrow>
   'r \<times> (rate_error, bool \<times> duration) res \<Rightarrow> 'r \<times> (publish_error, message list option) res" where
  "rate_answer P step runID input workflowName nonce ans =
     (fst ans,
      and_then (map_err RateLimitCheck (snd ans)) (\<lambda>(allowed, retryAfter).
        if allowed then Ok None
        else and_then (scheduleRateRetry P step runID input retryAfter workflowName nonce) (\<lambda>msgs. Ok (Some msgs))))"

definition applyGlobalRateLimit ::
  "('r, 'c) publisher \<Rightarrow> 'r \<Rightarrow> StepDef \<Rightarrow> string \<Rightarrow> raw \<Rightarrow> string \<Rightarrow> string \<Rightarrow>
   'r \<times> (publish_error, message list option) res" where
  "applyGlobalRateLimit P r step runID input workflowName nonce =
     (case sd_RateLimit step of
        None \<Rightarrow> (r, Panic ''applyGlobalRateLimit: RateLimit must not be nil'')
      | Some rl \<Rightarrow>
          if runID = [] then (r, Panic ''applyGlobalRateLimit: runID must not be empty'')
          else rate_answer P step runID input workflowName nonce
                 (Allow (pb_conv P) (pb_rateLimiter P) r (sd_Task step) ''_global'' (rl_Limit rl) (rl_Period rl) 1
                    (pb_clock P)))"

definition applyKeyedRateLimit ::
  "('r, 'c) publisher \<Rightarrow> 'r \<Rightarrow> StepDef \<Rightarrow> string \<Rightarrow> raw \<Rightarrow> string \<Rightarrow> string \<Rightarrow>
   'r \<times> (publish_error, message list option) res" where
  "applyKeyedRateLimit P r step runID input workflowName nonce =
     (case sd_KeyedRateLimit step of
        None \<Rightarrow> (r, Panic ''applyKeyedRateLimit: KeyedRateLimit must not be nil'')
      | Some krl \<Rightarrow>
          if runID = [] then (r, Panic ''applyKeyedRateLimit: runID must not be empty'')
          else case ExtractDotPath (kl_Key krl) input of
                 Err e \<Rightarrow> (r, Err (RateLimitKey (kl_Key krl) e))
               | Panic p \<Rightarrow> (r, Panic p)
               | Ok keyVal \<Rightarrow>
                   rate_answer P step runID input workflowName nonce
                     (Allow (pb_conv P) (pb_rateLimiter P) r (sd_Task step) (sprintv (pb_ffmt P) keyVal)
                        (kl_Limit krl) (kl_Period krl) (kl_Units krl) (pb_clock P)))"

definition checkRateLimit ::
  "('r, 'c) publisher \<Rightarrow> 'r \<Rightarrow> StepDef \<Rightarrow> string \<Rightarrow> raw \<Rightarrow> string \<Rightarrow> string \<Rightarrow>
   'r \<times> (publish_error, message list option) res" where
  "checkRateLimit P r step runID input workflowName nonce =
     (if pb_rateLimiter P = None then (r, Ok None)
      else if sd_Task step = [] then (r, Panic ''TaskPublisher.checkRateLimit: step.Task must not be empty'')
      else if sd_RateLimit step \<noteq> None then applyGlobalRateLimit P r step runID input workflowName nonce
      else if sd_KeyedRateLimit step \<noteq> None then applyKeyedRateLimit P r step runID input workflowName nonce
      else (r, Ok None))"

definition doPublish ::
  "('r, 'c) publisher \<Rightarrow> string \<Rightarrow> StepDef \<Rightarrow> raw \<Rightarrow> WorkflowRun \<Rightarrow> string \<Rightarrow> string \<Rightarrow>
   (publish_error, message list) res" where
  "doPublish P runID step input run workflowName dispatchNonce =
     (if runID = [] then Panic ''doPublish: runID must not be empty''
      else if sd_ID step = [] then Panic ''doPublish: step.ID must not be empty''
      else
        and_then (dispatchIdentity run (sd_ID step) dispatchNewAttempt) (\<lambda>(attempt, iteration).
          let payload =
                \<lparr>tp_TaskID = runID @ ''.'' @ sd_ID step, tp_RunID = runID, tp_StepID = sd_ID step,
                 tp_Iteration = iteration, tp_Attempt = attempt, tp_Input = input, tp_Metadata = sd_Metadata step,
                 tp_RequiredCapabilities =
                   effectiveCapabilities (sd_RequiredCapabilities step) workflowName (pb_grantPolicy P),
                 tp_DispatchNonce = nonceOrMint (pb_minted P) dispatchNonce, tp_WorkflowName = workflowName,
                 tp_State = ss_LoopState (step_of (wr_Steps run) (sd_ID step)),
                 tp_StateMaxBytes = pb_loopStateMaxBytes P, tp_AgentLoop = (sd_Type step = StepTypeAgentLoop)\<rparr>
          in if \<not> raw_marshals input then Err (MarshalPayload ''TaskPayload'')
             else and_then (StepSubject (pb_stepRoutes P) step runID) (\<lambda>subject.
                    and_then (buildTaskMsg subject payload (runID @ ''.'' @ sd_ID step @ ''.queued'')) (\<lambda>msg. Ok [msg]))))"

definition PublishIteration ::
  "('r, 'c) publisher \<Rightarrow> string \<Rightarrow> StepDef \<Rightarrow> raw \<Rightarrow> int \<Rightarrow> int \<Rightarrow> string \<Rightarrow> string \<Rightarrow> raw \<Rightarrow>
   (publish_error, message list) res" where
  "PublishIteration P runID step input attempt iteration workflowName dispatchNonce loopState =
     (if runID = [] then Panic ''PublishIteration: runID must not be empty''
      else if sd_ID step = [] then Panic ''PublishIteration: step.ID must not be empty''
      else
        let payload =
              \<lparr>tp_TaskID = runID @ ''.'' @ sd_ID step, tp_RunID = runID, tp_StepID = sd_ID step,
               tp_Iteration = iteration, tp_Attempt = attempt, tp_Input = input, tp_Metadata = sd_Metadata step,
               tp_RequiredCapabilities =
                 effectiveCapabilities (sd_RequiredCapabilities step) workflowName (pb_grantPolicy P),
               tp_DispatchNonce = nonceOrMint (pb_minted P) dispatchNonce, tp_WorkflowName = workflowName,
               tp_State = loopState, tp_StateMaxBytes = pb_loopStateMaxBytes P,
               tp_AgentLoop = (sd_Type step = StepTypeAgentLoop)\<rparr>
        in if \<not> raw_marshals input then Err (MarshalPayload ''TaskPayload'')
           else and_then (StepSubject (pb_stepRoutes P) step runID) (\<lambda>subject.
                  and_then (buildTaskMsg subject payload (runID @ ''.'' @ sd_ID step @ ''.continue.'' @ itoa iteration))
                    (\<lambda>msg. Ok [msg])))"

text \<open>Sticky routing. A failure to schedule the fallback is ignored.\<close>

definition scheduleSoftFallback ::
  "string \<Rightarrow> StepDef \<Rightarrow> raw \<Rightarrow> int \<Rightarrow> string \<Rightarrow> string \<Rightarrow> string \<Rightarrow> ('e, message list) res" where
  "scheduleSoftFallback runID step input attempt dispatchNonce workflowName fallbackSubject =
     (if fallbackSubject = [] then Panic ''scheduleSoftFallback: fallbackSubject must not be empty''
      else if runID = [] then Panic ''scheduleSoftFallback: runID must not be empty''
      else
        case Schedule (zero_TimerMessage\<lparr>tm_Action := TimerActionRateRetry, tm_RunID := runID,
               tm_StepID := sd_ID step, tm_DurationMs := 5000, tm_TaskType := sd_Task step, tm_Input := input,
               tm_Attempt := attempt, tm_WorkflowName := workflowName, tm_Subject := fallbackSubject,
               tm_Metadata := sd_Metadata step, tm_DispatchNonce := dispatchNonce\<rparr>) of
          Ok msgs \<Rightarrow> Ok msgs
        | Err e \<Rightarrow> Ok []
        | Panic p \<Rightarrow> Panic p)"

definition sticky_PublishTask ::
  "('r, 'c) publisher \<Rightarrow> string \<Rightarrow> StepDef \<Rightarrow> raw \<Rightarrow> WorkflowRun \<Rightarrow> string \<Rightarrow> string \<Rightarrow> string \<Rightarrow> string \<Rightarrow> string \<Rightarrow>
   (publish_error, message list) res" where
  "sticky_PublishTask P runID step input run workerID strategy dispatchNonce workflowName fallbackSubject =
     (if runID = [] then Panic ''StickyRouter.PublishTask: runID must not be empty''
      else if workerID = [] then Panic ''StickyRouter.PublishTask: workerID must not be empty''
      else
        and_then (dispatchIdentity run (sd_ID step) dispatchNewAttempt) (\<lambda>(attempt, iteration).
          let payload =
                \<lparr>tp_TaskID = runID @ ''.'' @ sd_ID step, tp_RunID = runID, tp_StepID = sd_ID step,
                 tp_Iteration = iteration, tp_Attempt = attempt, tp_Input = input, tp_Metadata = sd_Metadata step,
                 tp_RequiredCapabilities = [], tp_DispatchNonce = dispatchNonce, tp_WorkflowName = workflowName,
                 tp_State = ss_LoopState (step_of (wr_Steps run) (sd_ID step)),
                 tp_StateMaxBytes = pb_loopStateMaxBytes P, tp_AgentLoop = (sd_Type step = StepTypeAgentLoop)\<rparr>;
              subject = ''sticky.'' @ sd_Task step @ ''.'' @ workerID @ ''.'' @ runID;
              msg = TaskMsg subject (runID @ ''.'' @ sd_ID step @ ''.queued.sticky'') payload
          in if \<not> raw_marshals input then Err (MarshalPayload ''TaskPayload'')
             else if strategy = ''soft'' \<and> pb_stickyTimer P
             then and_then (scheduleSoftFallback runID step input attempt dispatchNonce workflowName fallbackSubject)
                    (\<lambda>timers. Ok (msg # timers))
             else Ok [msg]))"

text \<open>The part of \<open>Publish\<close> after the limits.\<close>

definition route_task ::
  "('r, 'c) publisher \<Rightarrow> string \<Rightarrow> StepDef \<Rightarrow> raw \<Rightarrow> WorkflowRun \<Rightarrow> string \<Rightarrow> string \<Rightarrow>
   (publish_error, message list) res" where
  "route_task P runID step input run workflowName dispatchNonce =
     (let workerID = pb_worker P runID
      in case (if workerID = [] then None else pb_sticky P runID) of
           Some strategy \<Rightarrow>
             if strategy \<noteq> []
             then and_then (StepSubject (pb_stepRoutes P) step runID)
                    (sticky_PublishTask P runID step input run workerID strategy dispatchNonce workflowName)
             else doPublish P runID step input run workflowName dispatchNonce
         | None \<Rightarrow> doPublish P runID step input run workflowName dispatchNonce)"

definition Publish ::
  "('r, 'c) publisher \<Rightarrow> 'r \<times> 'c \<Rightarrow> string \<Rightarrow> StepDef \<Rightarrow> raw \<Rightarrow> WorkflowRun \<Rightarrow> string \<Rightarrow> string \<Rightarrow>
   ('r \<times> 'c) \<times> (publish_error, message list) res" where
  "Publish P b runID step input run workflowName dispatchNonce =
     (if runID = [] then (b, Panic ''TaskPublisher.Publish: runID must not be empty'')
      else if sd_ID step = [] then (b, Panic ''TaskPublisher.Publish: step.ID must not be empty'')
      else if wr_RunID run \<noteq> [] \<and> wr_RunID run \<noteq> runID
      then (b, Panic ''TaskPublisher.Publish: run.RunID must match runID'')
      else
        case checkRateLimit P (fst b) step runID input workflowName dispatchNonce of
          (r, Err e) \<Rightarrow> ((r, snd b), Err e)
        | (r, Panic p) \<Rightarrow> ((r, snd b), Panic p)
        | (r, Ok (Some msgs)) \<Rightarrow> ((r, snd b), Ok msgs)
        | (r, Ok None) \<Rightarrow>
            if sd_MaxTaskConcurrency step > 0 \<and> pb_concurrency P \<noteq> None then
              (case taskSlotHolder runID (sd_ID step) of
                 Err e \<Rightarrow> ((r, snd b), Err e)
               | Panic p \<Rightarrow> ((r, snd b), Panic p)
               | Ok holder \<Rightarrow>
                   (case AcquireTask (the (pb_concurrency P)) (snd b) (sd_Task step) (sd_MaxTaskConcurrency step) holder of
                      (c, Err e) \<Rightarrow> ((r, c), Err (AcquireSlot e))
                    | (c, Panic p) \<Rightarrow> ((r, c), Panic p)
                    | (c, Ok acquired) \<Rightarrow>
                        ((r, c),
                         if \<not> acquired then scheduleConcurrencyRetry P step runID input workflowName dispatchNonce
                         else route_task P runID step input run workflowName dispatchNonce)))
            else ((r, snd b), route_task P runID step input run workflowName dispatchNonce))"

section \<open>Timers fire\<close>

record redispatch =
  rd_attempt :: int
  rd_iteration :: int
  rd_loopState :: raw
  rd_nonce :: string
  rd_stale :: string

definition dispatchSubject :: "TimerMessage \<Rightarrow> ('e, string) res" where
  "dispatchSubject tm =
     (if tm_RunID tm = [] then Panic ''TimerMessage.dispatchSubject: RunID must not be empty''
      else if tm_Subject tm \<noteq> [] then Ok (tm_Subject tm)
      else if tm_TaskType tm = [] then Panic ''TimerMessage.dispatchSubject: legacy timer has no TaskType''
      else Ok (''task.'' @ tm_TaskType tm @ ''.'' @ tm_RunID tm))"

definition redispatchStale :: "TimerMessage \<Rightarrow> StepState \<Rightarrow> ('e, string) res" where
  "redispatchStale tm state =
     (if tm_RunID tm = [] then Panic ''redispatchStale: RunID must not be empty''
      else if tm_StepID tm = [] then Panic ''redispatchStale: StepID must not be empty''
      else
        let inFlight = (ss_Status state = StepStatusQueued \<or> ss_Status state = StepStatusRunning)
        in Ok (case tm_Action tm of
             TimerActionRetryAfter \<Rightarrow>
               if \<not> inFlight then ''step not in flight''
               else if ss_RetryDispatchAt state = None then ''no retry pending''
               else if tm_Attempt tm > 0 \<and> tm_Attempt tm \<noteq> ss_Attempts state then ''attempt moved on'' else []
           | TimerActionRetryBackoff \<Rightarrow>
               if \<not> inFlight then ''step not in flight''
               else if ss_RetryDispatchAt state = None then ''no retry pending''
               else if tm_Attempt tm > 0 \<and> tm_Attempt tm \<noteq> ss_Attempts state then ''attempt moved on'' else []
           | TimerActionRateRetry \<Rightarrow>
               if ss_Status state \<noteq> StepStatusPending \<and> ss_Status state \<noteq> StepStatusQueued then ''step already started''
               else if tm_DispatchNonce tm \<noteq> [] \<and> tm_DispatchNonce tm \<noteq> ss_DispatchNonce state
               then ''dispatch moved on'' else []
           | TimerActionTaskConcurRetry \<Rightarrow>
               if ss_Status state \<noteq> StepStatusPending \<and> ss_Status state \<noteq> StepStatusQueued then ''step already started''
               else if tm_DispatchNonce tm \<noteq> [] \<and> tm_DispatchNonce tm \<noteq> ss_DispatchNonce state
               then ''dispatch moved on'' else []
           | _ \<Rightarrow> []))"

text \<open>\<open>loaded\<close> is the run as the store returns it now, None when it cannot be loaded.\<close>

definition identityForRedispatch ::
  "string \<Rightarrow> WorkflowRun option \<Rightarrow> TimerMessage \<Rightarrow> ('e, redispatch) res" where
  "identityForRedispatch minted loaded tm =
     (if tm_RunID tm = [] then Panic ''identityForRedispatch: runID must not be empty''
      else if tm_StepID tm = [] then Panic ''identityForRedispatch: stepID must not be empty''
      else
        let fallback = nonceOrMint minted (tm_DispatchNonce tm)
        in case loaded of
             None \<Rightarrow> Ok \<lparr>rd_attempt = 0, rd_iteration = 0, rd_loopState = RNil, rd_nonce = fallback, rd_stale = []\<rparr>
           | Some run \<Rightarrow>
               let state = step_of (wr_Steps run) (tm_StepID tm);
                   nonce = (if ss_DispatchNonce state = [] then fallback else ss_DispatchNonce state)
               in and_then (dispatchIdentity run (tm_StepID tm) dispatchNewAttempt) (\<lambda>(attempt, iteration).
                    and_then (redispatchStale tm state) (\<lambda>stale.
                      Ok \<lparr>rd_attempt = attempt, rd_iteration = iteration, rd_loopState = ss_LoopState state,
                          rd_nonce = nonce, rd_stale = stale\<rparr>)))"

definition redispatch_payload :: "int \<Rightarrow> TimerMessage \<Rightarrow> redispatch \<Rightarrow> TaskPayload" where
  "redispatch_payload stateMax tm rd =
     \<lparr>tp_TaskID = tm_RunID tm @ ''.'' @ tm_StepID tm, tp_RunID = tm_RunID tm, tp_StepID = tm_StepID tm,
      tp_Iteration = rd_iteration rd, tp_Attempt = rd_attempt rd, tp_Input = tm_Input tm,
      tp_Metadata = tm_Metadata tm, tp_RequiredCapabilities = tm_RequiredCapabilities tm,
      tp_DispatchNonce = rd_nonce rd, tp_WorkflowName = tm_WorkflowName tm, tp_State = rd_loopState rd,
      tp_StateMaxBytes = stateMax, tp_AgentLoop = False\<rparr>"

definition fireRateRetry ::
  "int \<Rightarrow> string \<Rightarrow> WorkflowRun option \<Rightarrow> TimerMessage \<Rightarrow> ('e, message list) res" where
  "fireRateRetry stateMax minted loaded tm =
     (if tm_RunID tm = [] then Panic ''fireRateRetry: RunID must not be empty''
      else if tm_TaskType tm = [] then Panic ''fireRateRetry: TaskType must not be empty''
      else
        and_then (dispatchSubject tm) (\<lambda>subject.
          and_then (identityForRedispatch minted loaded tm) (\<lambda>rd.
            if rd_stale rd \<noteq> [] then Ok []
            else if \<not> raw_marshals (tm_Input tm) then Ok []
            else Ok [TaskMsg subject (tm_RunID tm @ ''.'' @ tm_StepID tm @ ''.rate_retry'')
                       (redispatch_payload stateMax tm rd)])))"

definition republishTask ::
  "int \<Rightarrow> string \<Rightarrow> WorkflowRun option \<Rightarrow> TimerMessage \<Rightarrow> string \<Rightarrow> ('e, message list) res" where
  "republishTask stateMax minted loaded tm kind =
     (if kind = [] then Panic ''republishTask: kind must not be empty''
      else if tm_RunID tm = [] then Panic ''republishTask: RunID must not be empty''
      else
        and_then (dispatchSubject tm) (\<lambda>subject.
          and_then (identityForRedispatch minted loaded tm) (\<lambda>rd.
            if rd_stale rd \<noteq> [] then Ok []
            else if \<not> raw_marshals (tm_Input tm) then Ok []
            else Ok [TaskMsg subject
                       (tm_RunID tm @ ''.'' @ tm_StepID tm @ ''.'' @ kind @ ''.'' @ itoa (rd_attempt rd))
                       (redispatch_payload stateMax tm rd)])))"

definition fireRetryAfter :: "int \<Rightarrow> string \<Rightarrow> WorkflowRun option \<Rightarrow> TimerMessage \<Rightarrow> ('e, message list) res" where
  "fireRetryAfter stateMax minted loaded tm =
     (if tm_RunID tm = [] then Panic ''fireRetryAfter: RunID must not be empty''
      else if tm_TaskType tm = [] then Panic ''fireRetryAfter: TaskType must not be empty''
      else republishTask stateMax minted loaded tm ''retry_after'')"

definition fireRetryBackoff :: "int \<Rightarrow> string \<Rightarrow> WorkflowRun option \<Rightarrow> TimerMessage \<Rightarrow> ('e, message list) res" where
  "fireRetryBackoff stateMax minted loaded tm =
     (if tm_RunID tm = [] then Panic ''fireRetryBackoff: RunID must not be empty''
      else if tm_TaskType tm = [] then Panic ''fireRetryBackoff: TaskType must not be empty''
      else republishTask stateMax minted loaded tm ''retry_backoff'')"

definition fireLoopDelay :: "int \<Rightarrow> WorkflowRun option \<Rightarrow> TimerMessage \<Rightarrow> ('e, message list) res" where
  "fireLoopDelay stateMax loaded tm =
     (if tm_RunID tm = [] then Panic ''fireLoopDelay: RunID must not be empty''
      else if tm_StepID tm = [] then Panic ''fireLoopDelay: StepID must not be empty''
      else case loaded of
             None \<Rightarrow> Ok []
           | Some run \<Rightarrow>
               let state = step_of (wr_Steps run) (tm_StepID tm);
                   inFlight = (ss_Status state = StepStatusRunning \<or> ss_Status state = StepStatusQueued);
                   rd = \<lparr>rd_attempt = ss_Attempts state, rd_iteration = ss_Iterations state,
                         rd_loopState = ss_LoopState state, rd_nonce = tm_DispatchNonce tm, rd_stale = []\<rparr>
               in if \<not> inFlight \<or> ss_Iterations state \<noteq> tm_Iteration tm \<or> ss_DispatchNonce state \<noteq> tm_DispatchNonce tm
                  then Ok []
                  else if \<not> raw_marshals (tm_Input tm) then Ok []
                  else and_then (dispatchSubject tm) (\<lambda>subject.
                         Ok [TaskMsg subject
                               (tm_RunID tm @ ''.'' @ tm_StepID tm @ ''.continue.'' @ itoa (ss_Iterations state))
                               (redispatch_payload stateMax tm rd)]))"

text \<open>The timers that wake the engine with an event.\<close>

definition fire_event :: "gotime \<Rightarrow> EventType \<Rightarrow> TimerMessage \<Rightarrow> ('e, message list) res" where
  "fire_event now eventType tm =
     and_then (NewStepEvent now eventType (tm_RunID tm) (tm_StepID tm) RNil) (\<lambda>evt. Ok [EventMsg evt])"

definition fireLoopWait :: "gotime \<Rightarrow> TimerMessage \<Rightarrow> ('e, message list) res" where
  "fireLoopWait now tm =
     (if tm_RunID tm = [] \<or> tm_StepID tm = [] then Panic ''fireLoopWait: run and step must not be empty''
      else if tm_Action tm \<noteq> TimerActionLoopWait then Panic ''fireLoopWait: timer must be a loop_wait''
      else and_then (NewStepEvent now EventStepWaitElapsed (tm_RunID tm) (tm_StepID tm) RNil) (\<lambda>evt.
             and_then (SetIdentity (tm_Iteration tm) (max (tm_Attempt tm) 1) (tm_DispatchNonce tm) evt) (\<lambda>evt.
               Ok [EventMsg evt])))"

text \<open>A delivery of a timer: the first one is put back for its duration, a later one fires. The handlers
  of debounce and step timeout belong to other components.\<close>

datatype timer_outcome = NakWithDelay duration | Acked "message list"

definition handleTimerJS ::
  "(TimerMessage \<Rightarrow> message list) \<Rightarrow> (TimerMessage \<Rightarrow> message list) \<Rightarrow> int \<Rightarrow> string \<Rightarrow> gotime \<Rightarrow> nat \<Rightarrow>
   WorkflowRun option \<Rightarrow> TimerMessage \<Rightarrow> ('e, timer_outcome) res" where
  "handleTimerJS onDebounce onStepTimeout stateMax minted now numDelivered loaded tm =
     (if numDelivered = 1 then
        let delay = wrap64 (tm_DurationMs tm * Millisecond)
        in Ok (NakWithDelay (if delay \<le> 0 then Millisecond else delay))
      else
        and_then
          (case tm_Action tm of
             TimerActionSleepComplete \<Rightarrow> fire_event now EventStepSleepCompleted tm
           | TimerActionRateRetry \<Rightarrow> fireRateRetry stateMax minted loaded tm
           | TimerActionWaitTimeout \<Rightarrow> fire_event now EventStepWaitTimeout tm
           | TimerActionRetryAfter \<Rightarrow> fireRetryAfter stateMax minted loaded tm
           | TimerActionRetryBackoff \<Rightarrow> fireRetryBackoff stateMax minted loaded tm
           | TimerActionApprovalTimeout \<Rightarrow> fire_event now EventApprovalExpired tm
           | TimerActionTaskConcurRetry \<Rightarrow> fireRateRetry stateMax minted loaded tm
           | TimerActionDebounce \<Rightarrow> Ok (onDebounce tm)
           | TimerActionStepTimeout \<Rightarrow> Ok (onStepTimeout tm)
           | TimerActionLoopDelay \<Rightarrow> fireLoopDelay stateMax loaded tm
           | TimerActionLoopWait \<Rightarrow> fireLoopWait now tm)
          (\<lambda>msgs. Ok (Acked msgs)))"

section \<open>Lemmas\<close>

fun carries :: "message \<Rightarrow> string list" where
  "carries (TaskMsg subject msgID p) = tp_RequiredCapabilities p"
| "carries (TimerMsg subject msgID tm) = tm_RequiredCapabilities tm"
| "carries (EventMsg e) = []"

lemma effective_granted:
  "controlPlaneCapability \<in> set (effectiveCapabilities caps wfn p) \<Longrightarrow> GrantsControlPlane p wfn"
  by (auto simp: effectiveCapabilities_def split: if_splits)

lemma strip_never: "controlPlaneCapability \<notin> set (stripControlPlaneCapability caps)"
  by (simp add: stripControlPlaneCapability_def)

lemma effective_stripped:
  "controlPlaneCapability \<notin> set caps \<Longrightarrow> effectiveCapabilities caps wfn p = caps"
  by (simp add: effectiveCapabilities_def)

lemma Schedule_Ok: "Schedule tm = Ok msgs \<Longrightarrow> \<exists>subject msgID. msgs = [TimerMsg subject msgID tm]"
  by (auto simp: Schedule_def split: if_splits)

text \<open>Every message of a list is empty-handed or carries the capabilities of the step as far as they are
  granted.\<close>

definition gated :: "('r, 'c) publisher \<Rightarrow> StepDef \<Rightarrow> string \<Rightarrow> message list \<Rightarrow> bool" where
  "gated P step wfn msgs \<longleftrightarrow>
     (\<forall>m \<in> set msgs. carries m = [] \<or> carries m = effectiveCapabilities (sd_RequiredCapabilities step) wfn (pb_grantPolicy P))"

lemma gated_simps [simp]:
  "gated P step wfn []"
  "gated P step wfn (m # ms) \<longleftrightarrow>
     (carries m = [] \<or> carries m = effectiveCapabilities (sd_RequiredCapabilities step) wfn (pb_grantPolicy P)) \<and> gated P step wfn ms"
  by (auto simp: gated_def)

lemma scheduleRateRetry_gated: "scheduleRateRetry P step runID input d wfn nonce = Ok msgs \<Longrightarrow> gated P step wfn msgs"
  by (auto simp: scheduleRateRetry_def Let_def and_then_eq_Ok split: if_splits dest!: Schedule_Ok)

lemma scheduleConcurrencyRetry_gated:
  "scheduleConcurrencyRetry P step runID input wfn nonce = Ok msgs \<Longrightarrow> gated P step wfn msgs"
  by (auto simp: scheduleConcurrencyRetry_def and_then_eq_Ok split: if_splits dest!: Schedule_Ok)

lemma rate_answer_gated:
  "rate_answer P step runID input wfn nonce ans = (r, Ok (Some msgs)) \<Longrightarrow> gated P step wfn msgs"
  by (auto simp: rate_answer_def and_then_eq_Ok split: if_splits dest: scheduleRateRetry_gated)

lemma checkRateLimit_gated:
  "checkRateLimit P r0 step runID input wfn nonce = (r, Ok (Some msgs)) \<Longrightarrow> gated P step wfn msgs"
  by (auto simp: checkRateLimit_def applyGlobalRateLimit_def applyKeyedRateLimit_def
      split: if_splits option.splits res.splits dest: rate_answer_gated)

lemma doPublish_gated: "doPublish P runID step input run wfn nonce = Ok msgs \<Longrightarrow> gated P step wfn msgs"
  by (auto simp: doPublish_def and_then_eq_Ok buildTaskMsg_def Let_def split: if_splits)

lemma PublishIteration_gated:
  "PublishIteration P runID step input a i wfn nonce st = Ok msgs \<Longrightarrow> gated P step wfn msgs"
  by (auto simp: PublishIteration_def and_then_eq_Ok buildTaskMsg_def Let_def split: if_splits)

lemma scheduleSoftFallback_carries:
  "scheduleSoftFallback runID step input a nonce wfn fb = Ok msgs \<Longrightarrow> gated P step wfn msgs"
  by (auto simp: scheduleSoftFallback_def zero_TimerMessage_def split: if_splits res.splits dest!: Schedule_Ok)

lemma sticky_gated:
  "sticky_PublishTask P runID step input run worker strategy nonce wfn fb = Ok msgs \<Longrightarrow> gated P step wfn msgs"
  by (auto simp: sticky_PublishTask_def and_then_eq_Ok Let_def split: if_splits dest: scheduleSoftFallback_carries)

lemma route_gated: "route_task P runID step input run wfn nonce = Ok msgs \<Longrightarrow> gated P step wfn msgs"
  by (auto simp: route_task_def and_then_eq_Ok Let_def split: if_splits option.splits
      dest: doPublish_gated sticky_gated)

lemma Publish_gated:
  assumes "snd (Publish P b runID step input run wfn nonce) = Ok msgs"
  shows "gated P step wfn msgs"
  using assms
  by (auto simp: Publish_def split: if_splits prod.splits res.splits option.splits
      dest: checkRateLimit_gated scheduleConcurrencyRetry_gated route_gated)

text \<open>What a timer that sends a task may publish.\<close>

definition sends_task :: "TimerAction \<Rightarrow> bool" where
  "sends_task a \<longleftrightarrow> a \<noteq> TimerActionDebounce \<and> a \<noteq> TimerActionStepTimeout"

lemma fire_cases:
  assumes "handleTimerJS dh sh stateMax minted now n loaded tm = Ok (Acked msgs)" "sends_task (tm_Action tm)"
  shows "(\<exists>e. msgs = [EventMsg e]) \<or> msgs = [] \<or> (\<exists>subject msgID rd. msgs = [TaskMsg subject msgID (redispatch_payload stateMax tm rd)])"
  using assms
  by (auto simp: handleTimerJS_def sends_task_def Let_def and_then_eq_Ok fire_event_def fireRateRetry_def
      fireRetryAfter_def fireRetryBackoff_def republishTask_def fireLoopDelay_def fireLoopWait_def
      split: if_splits TimerAction.splits option.splits)

lemma fireRateRetry_waiting:
  assumes "tm_RunID tm \<noteq> []" "tm_StepID tm \<noteq> []" "tm_TaskType tm \<noteq> []" "tm_Subject tm \<noteq> []" "raw_marshals (tm_Input tm)"
    and "tm_Action tm = TimerActionRateRetry \<or> tm_Action tm = TimerActionTaskConcurRetry"
    and "ss_Status (step_of (wr_Steps later) (tm_StepID tm)) = StepStatusQueued"
    and "ss_DispatchNonce (step_of (wr_Steps later) (tm_StepID tm)) = tm_DispatchNonce tm"
  shows "\<exists>msgID rd. (fireRateRetry stateMax minted (Some later) tm :: ('e, message list) res)
    = Ok [TaskMsg (tm_Subject tm) msgID (redispatch_payload stateMax tm rd)]"
  using assms
  by (auto simp: fireRateRetry_def dispatchSubject_def identityForRedispatch_def dispatchIdentity_def
      redispatchStale_def Let_def)

section \<open>Properties\<close>


text \<open>A publisher with a task bucket and nothing else, and steps of one task type that may run once.\<close>

definition slot_publisher :: "(bucket, bucket) publisher" where
  "slot_publisher = \<lparr>pb_rateLimiter = None, pb_concurrency = Some (Some mem_kv), pb_worker = (\<lambda>_. []),
     pb_sticky = (\<lambda>_. None), pb_stickyTimer = False, pb_grantPolicy = None, pb_stepRoutes = (\<lambda>_. None),
     pb_loopStateMaxBytes = 262144, pb_minted = ''m'', pb_clock = (\<lambda>_. (0, 0)), pb_conv = (\<lambda>_. 0), pb_ffmt = (\<lambda>_. [])\<rparr>"

definition slot_step :: "string \<Rightarrow> StepDef" where
  "slot_step i = zero_StepDef\<lparr>sd_ID := i, sd_Task := ''t'', sd_MaxTaskConcurrency := 1,
     sd_RequiredCapabilities := [''control-plane'', ''gpu'']\<rparr>"

definition slot_run :: WorkflowRun where
  "slot_run = zero_WorkflowRun\<lparr>wr_RunID := ''r'', wr_Steps :=
     [(''a'', zero_StepState\<lparr>ss_Status := StepStatusQueued, ss_DispatchNonce := ''na''\<rparr>),
      (''b'', zero_StepState\<lparr>ss_Status := StepStatusQueued, ss_DispatchNonce := ''nb''\<rparr>)]\<rparr>"

definition slot_taken :: bucket where
  "slot_taken = [(''task.t'', Some (marshal_membership [''r/a'']))]"

lemma slot_first:
  "AcquireTask (Some mem_kv) [] ''t'' 1 ''r/a'' = (slot_taken, Ok True)"
  by (simp add: AcquireTask_def acquireMember_def concurrencyCASRetriesMax_def numeral_eq_Suc slot_taken_def
      readMembers_def casWriteMembers_def mem_kv_def bk_write_def)

lemma slot_second:
  "AcquireTask (Some mem_kv) slot_taken ''t'' 1 ''r/b'' = (slot_taken, Ok False)"
  by (simp add: AcquireTask_def acquireMember_def concurrencyCASRetriesMax_def numeral_eq_Suc slot_taken_def
      readMembers_def mem_kv_def)

lemmas slot_defs = slot_publisher_def slot_step_def slot_run_def zero_StepDef_def zero_WorkflowRun_def

lemma slot_states:
  "step_of (wr_Steps slot_run) ''a'' = zero_StepState\<lparr>ss_Status := StepStatusQueued, ss_DispatchNonce := ''na''\<rparr>"
  "step_of (wr_Steps slot_run) ''b'' = zero_StepState\<lparr>ss_Status := StepStatusQueued, ss_DispatchNonce := ''nb''\<rparr>"
  "wr_RunID slot_run = ''r''"
  by (simp_all add: slot_run_def map_simps zero_WorkflowRun_def)

lemma slot_publish_first:
  "\<exists>p. Publish slot_publisher ([], []) ''r'' (slot_step ''a'') RNil slot_run ''w'' ''na''
     = (([], slot_taken), Ok [TaskMsg ''task.t.r'' ''r.a.queued'' p]) \<and> tp_RequiredCapabilities p = [''gpu'']"
  using slot_first
  by (simp add: Publish_def slot_publisher_def slot_step_def slot_states zero_StepDef_def checkRateLimit_def
      taskSlotHolder_def route_task_def doPublish_def dispatchIdentity_def raw_marshals_def raw_empty_def
      StepSubject_def buildTaskMsg_def effectiveCapabilities_def controlPlaneCapability_def GrantsControlPlane_def
      Let_def)


text \<open>C34: a deferred task is sent without a slot. When the concurrency limit of its task type is reached,
  publishing a step schedules a timer instead, and leaves the step without a slot. If the step still is
  queued when the timer fires, the task is sent to the step's subject; the timer neither asks for a slot
  nor looks at the limit again.\<close>

theorem deferred_task_ignores_limit:
  assumes "runID \<noteq> []" "sd_ID step \<noteq> []" "sd_Task step \<noteq> []" "wr_RunID run = runID" "raw_marshals input"
    and "sd_RateLimit step = None" "sd_KeyedRateLimit step = None"
    and "0 < sd_MaxTaskConcurrency step" "pb_concurrency P = Some kvo"
    and "AcquireTask kvo c (sd_Task step) (sd_MaxTaskConcurrency step) (runID @ ''/'' @ sd_ID step) = (c', Ok False)"
    and "ss_Status (step_of (wr_Steps later) (sd_ID step)) = StepStatusQueued"
    and "ss_DispatchNonce (step_of (wr_Steps later) (sd_ID step)) = nonce"
    and "Suc 0 < n"
  shows "\<exists>subject timer tm msgID p.
    Publish P (r, c) runID step input run workflowName nonce = ((r, c'), Ok [TimerMsg subject timer tm]) \<and>
    (handleTimerJS dh sh stateMax minted now n (Some later) tm :: ('e, timer_outcome) res)
      = Ok (Acked [TaskMsg (tm_Subject tm) msgID p]) \<and>
    (StepSubject (pb_stepRoutes P) step runID :: ('e, string) res) = Ok (tm_Subject tm) \<and>
    tp_RunID p = runID \<and> tp_StepID p = sd_ID step"
proof -
  have subject: "\<And>routes. \<exists>s. (StepSubject routes step runID :: (publish_error, string) res) = Ok s \<and> s \<noteq> []
      \<and> (StepSubject routes step runID :: ('e, string) res) = Ok s"
    using assms(1,3) by (simp add: StepSubject_def Let_def)
  then obtain s where s: "(StepSubject (pb_stepRoutes P) step runID :: (publish_error, string) res) = Ok s" "s \<noteq> []"
    "(StepSubject (pb_stepRoutes P) step runID :: ('e, string) res) = Ok s" by blast
  let ?tm = "zero_TimerMessage\<lparr>tm_Action := TimerActionTaskConcurRetry, tm_RunID := runID,
    tm_StepID := sd_ID step, tm_DurationMs := 1000, tm_TaskType := sd_Task step, tm_Subject := s,
    tm_Metadata := sd_Metadata step, tm_Input := input, tm_WorkflowName := workflowName,
    tm_DispatchNonce := nonce,
    tm_RequiredCapabilities := effectiveCapabilities (sd_RequiredCapabilities step) workflowName (pb_grantPolicy P)\<rparr>"
  have pub: "\<exists>subject timer. Publish P (r, c) runID step input run workflowName nonce
      = ((r, c'), Ok [TimerMsg subject timer ?tm])"
    using assms s(1)
    by (simp add: Publish_def checkRateLimit_def taskSlotHolder_def scheduleConcurrencyRetry_def Schedule_def)
  have "\<exists>msgID rd. (fireRateRetry stateMax minted (Some later) ?tm :: ('e, message list) res)
      = Ok [TaskMsg (tm_Subject ?tm) msgID (redispatch_payload stateMax ?tm rd)]"
    using assms s(2) by (intro fireRateRetry_waiting) simp_all
  then obtain msgID rd where "(fireRateRetry stateMax minted (Some later) ?tm :: ('e, message list) res)
      = Ok [TaskMsg s msgID (redispatch_payload stateMax ?tm rd)]" by auto
  then have "(handleTimerJS dh sh stateMax minted now n (Some later) ?tm :: ('e, timer_outcome) res)
      = Ok (Acked [TaskMsg (tm_Subject ?tm) msgID (redispatch_payload stateMax ?tm rd)])"
    using assms(13) by (simp add: handleTimerJS_def)
  moreover have "tp_RunID (redispatch_payload stateMax ?tm rd) = runID" "tp_StepID (redispatch_payload stateMax ?tm rd) = sd_ID step"
    by (simp_all add: redispatch_payload_def)
  moreover have "(StepSubject (pb_stepRoutes P) step runID :: ('e, string) res) = Ok (tm_Subject ?tm)" using s(3) by simp
  ultimately show ?thesis using pub by blast
qed

text \<open>With a limit of one, step \<open>a\<close> holds the slot and its task is out; step \<open>b\<close> is deferred and then sent as
  well, while the stored holders still are \<open>a\<close> alone.\<close>

theorem deferred_task_ignores_limit_witness:
  "(\<exists>p. Publish slot_publisher ([], []) ''r'' (slot_step ''a'') RNil slot_run ''w'' ''na''
     = (([], slot_taken), Ok [TaskMsg ''task.t.r'' ''r.a.queued'' p])) \<and>
   (\<exists>subject timer tm p msgID. Publish slot_publisher ([], slot_taken) ''r'' (slot_step ''b'') RNil slot_run ''w'' ''nb''
     = (([], slot_taken), Ok [TimerMsg subject timer tm]) \<and>
     (handleTimerJS (\<lambda>_. []) (\<lambda>_. []) 262144 ''m'' 0 2 (Some slot_run) tm :: (unit, timer_outcome) res)
       = Ok (Acked [TaskMsg (tm_Subject tm) msgID p]) \<and> tp_StepID p = ''b'') \<and>
   holders bk_entry slot_taken ''task.t'' = [''r/a'']"
proof (intro conjI)
  show "\<exists>p. Publish slot_publisher ([], []) ''r'' (slot_step ''a'') RNil slot_run ''w'' ''na''
     = (([], slot_taken), Ok [TaskMsg ''task.t.r'' ''r.a.queued'' p])" using slot_publish_first by blast
  have "AcquireTask (Some mem_kv) slot_taken (sd_Task (slot_step ''b'')) (sd_MaxTaskConcurrency (slot_step ''b''))
      (''r'' @ ''/'' @ sd_ID (slot_step ''b'')) = (slot_taken, Ok False)"
    using slot_second by (simp add: slot_step_def)
  from deferred_task_ignores_limit [OF _ _ _ _ _ _ _ _ _ this, where P = slot_publisher and run = slot_run
      and input = RNil and later = slot_run and nonce = "''nb''" and n = 2 and 'e = unit]
  show "\<exists>subject timer tm p msgID. Publish slot_publisher ([], slot_taken) ''r'' (slot_step ''b'') RNil slot_run ''w'' ''nb''
     = (([], slot_taken), Ok [TimerMsg subject timer tm]) \<and>
     (handleTimerJS (\<lambda>_. []) (\<lambda>_. []) 262144 ''m'' 0 2 (Some slot_run) tm :: (unit, timer_outcome) res)
       = Ok (Acked [TaskMsg (tm_Subject tm) msgID p]) \<and> tp_StepID p = ''b''"
    by (simp add: slot_step_def slot_publisher_def slot_states zero_StepDef_def raw_marshals_def raw_empty_def) fastforce
  show "holders bk_entry slot_taken ''task.t'' = [''r/a'']" by (simp add: holders_def slot_taken_def)
qed

text \<open>C35: an agent loop sent again by a timer cannot wait. A worker may answer an iteration of an agent
  loop with a wait, and the task of a first dispatch allows it. The task a timer sends, after a retry, a
  loop delay or a deferred first dispatch, is not marked as an agent loop, and every wait is refused.\<close>

theorem redispatched_loop_cannot_wait:
  assumes "sd_Type step = StepTypeAgentLoop" "\<not> ContinueWait_IsZero wait" "0 < stateMax"
  shows "(doPublish P runID step input run workflowName nonce = Ok [TaskMsg subject msgID p] \<longrightarrow>
      CheckWait (tp_AgentLoop p) (tp_StateMaxBytes p) wait = Ok ()) \<and>
    (PublishIteration P runID step input attempt iteration workflowName nonce loopState = Ok [TaskMsg subject msgID p] \<longrightarrow>
      CheckWait (tp_AgentLoop p) (tp_StateMaxBytes p) wait = Ok ()) \<and>
    (sends_task (tm_Action tm) \<and> handleTimerJS dh sh stateMax minted now n loaded tm = Ok (Acked [TaskMsg subject msgID p]) \<longrightarrow>
      CheckWait (tp_AgentLoop p) (tp_StateMaxBytes p) wait = Err ErrWaitRequiresAgentLoop)"
proof (intro conjI impI)
  assume "doPublish P runID step input run workflowName nonce = Ok [TaskMsg subject msgID p]"
  then have "tp_AgentLoop p"
    using assms(1) by (auto simp: doPublish_def and_then_eq_Ok buildTaskMsg_def Let_def split: if_splits)
  then show "CheckWait (tp_AgentLoop p) (tp_StateMaxBytes p) wait = Ok ()" by (simp add: CheckWait_def)
next
  assume "PublishIteration P runID step input attempt iteration workflowName nonce loopState = Ok [TaskMsg subject msgID p]"
  then have "tp_AgentLoop p"
    using assms(1) by (auto simp: PublishIteration_def and_then_eq_Ok buildTaskMsg_def Let_def split: if_splits)
  then show "CheckWait (tp_AgentLoop p) (tp_StateMaxBytes p) wait = Ok ()" by (simp add: CheckWait_def)
next
  assume "sends_task (tm_Action tm) \<and> handleTimerJS dh sh stateMax minted now n loaded tm = Ok (Acked [TaskMsg subject msgID p])"
  then obtain rd where "p = redispatch_payload stateMax tm rd" using fire_cases by blast
  then show "CheckWait (tp_AgentLoop p) (tp_StateMaxBytes p) wait = Err ErrWaitRequiresAgentLoop"
    using assms(2,3) by (simp add: CheckWait_def redispatch_payload_def)
qed

text \<open>A loop whose first attempt failed and that is retried after a backoff.\<close>

definition loop_step :: StepDef where
  "loop_step = zero_StepDef\<lparr>sd_ID := ''l'', sd_Task := ''t'', sd_Type := StepTypeAgentLoop\<rparr>"

definition loop_run :: WorkflowRun where
  "loop_run = zero_WorkflowRun\<lparr>wr_RunID := ''r'', wr_Steps :=
     [(''l'', zero_StepState\<lparr>ss_Status := StepStatusRunning, ss_Attempts := 1, ss_DispatchNonce := ''n'',
        ss_RetryDispatchAt := Some 5\<rparr>)]\<rparr>"

definition backoff_timer :: TimerMessage where
  "backoff_timer = zero_TimerMessage\<lparr>tm_Action := TimerActionRetryBackoff, tm_RunID := ''r'', tm_StepID := ''l'',
     tm_TaskType := ''t'', tm_Attempt := 1, tm_DispatchNonce := ''n'', tm_Subject := ''task.t.r''\<rparr>"

definition five_seconds :: "ContinueWait option" where
  "five_seconds = Some \<lparr>cw_DelayMs = 5000, cw_Until = None, cw_Input = False\<rparr>"

lemma loop_state:
  "step_of (wr_Steps loop_run) ''l'' = zero_StepState\<lparr>ss_Status := StepStatusRunning, ss_Attempts := 1,
     ss_DispatchNonce := ''n'', ss_RetryDispatchAt := Some 5\<rparr>"
  by (simp add: loop_run_def map_simps zero_WorkflowRun_def)

lemma loop_state_fields:
  "ss_Status (step_of (wr_Steps loop_run) ''l'') = StepStatusRunning"
  "ss_Attempts (step_of (wr_Steps loop_run) ''l'') = 1"
  "ss_DispatchNonce (step_of (wr_Steps loop_run) ''l'') = ''n''"
  "ss_RetryDispatchAt (step_of (wr_Steps loop_run) ''l'') = Some 5"
  by (simp_all add: loop_state)

lemma backoff_fires:
  "\<exists>p. (handleTimerJS (\<lambda>_. []) (\<lambda>_. []) 262144 ''m'' 0 2 (Some loop_run) backoff_timer :: (unit, timer_outcome) res)
      = Ok (Acked [TaskMsg ''task.t.r'' ''r.l.retry_backoff.2'' p])"
proof -
  have "itoa 2 = ''2''" by code_simp
  moreover have "wrap64 (1 + 1) = 2" by (simp add: wrap64_def)
  ultimately show ?thesis
    by (simp add: handleTimerJS_def backoff_timer_def zero_TimerMessage_def fireRetryBackoff_def
        republishTask_def dispatchSubject_def identityForRedispatch_def dispatchIdentity_def redispatchStale_def
        loop_state_fields raw_marshals_def raw_empty_def Let_def)
qed

theorem redispatched_loop_cannot_wait_witness:
  "\<exists>p. (handleTimerJS (\<lambda>_. []) (\<lambda>_. []) 262144 ''m'' 0 2 (Some loop_run) backoff_timer :: (unit, timer_outcome) res)
      = Ok (Acked [TaskMsg ''task.t.r'' ''r.l.retry_backoff.2'' p]) \<and>
     CheckWait (tp_AgentLoop p) (tp_StateMaxBytes p) five_seconds = Err ErrWaitRequiresAgentLoop"
proof -
  have nz: "\<not> ContinueWait_IsZero five_seconds" by (simp add: five_seconds_def ContinueWait_IsZero_def)
  obtain p where p: "(handleTimerJS (\<lambda>_. []) (\<lambda>_. []) 262144 ''m'' 0 2 (Some loop_run) backoff_timer :: (unit, timer_outcome) res)
      = Ok (Acked [TaskMsg ''task.t.r'' ''r.l.retry_backoff.2'' p])" using backoff_fires by blast
  have ty: "sd_Type loop_step = StepTypeAgentLoop" and sends: "sends_task (tm_Action backoff_timer)"
    by (simp_all add: loop_step_def sends_task_def backoff_timer_def)
  have "CheckWait (tp_AgentLoop p) (tp_StateMaxBytes p) five_seconds = Err ErrWaitRequiresAgentLoop"
    by (rule redispatched_loop_cannot_wait [OF ty nz, THEN conjunct2, THEN conjunct2, THEN mp, OF _ conjI [OF sends p]]) simp
  with p show ?thesis by blast
qed



end
