(* ===== verification/Engine_Advance.thy ===== *)
theory Engine_Advance
  imports Dag_Resolve Protocol
begin

text \<open>
  The pure core of the engine's state machine (src/internal/engine/advance.go): from a definition, a
  run and an event, the next run and the effects its caller executes. The sets of resolved and of
  dispatched steps that the orchestrator computes (src/internal/engine/orchestrator.go) are here too.
  Shown: which steps an event of the core dispatches, that it keeps the run well formed, and that
  skipping is decided for one layer of steps at a time.
\<close>

section \<open>Resolved and dispatched steps\<close>

fun resolved :: "StepStatus \<Rightarrow> bool" where
  "resolved StepStatusCompleted = True"
| "resolved StepStatusSkipped = True"
| "resolved StepStatusRecovered = True"
| "resolved _ = False"

fun dispatched :: "StepStatus \<Rightarrow> bool" where
  "dispatched StepStatusQueued = True"
| "dispatched StepStatusRunning = True"
| "dispatched StepStatusCompleted = True"
| "dispatched StepStatusFailed = True"
| "dispatched StepStatusSkipped = True"
| "dispatched _ = False"

text \<open>The loops build a set of step identifiers; an identifier they leave out is here sent to false,
  which reads the same.\<close>

definition completedSet :: "WorkflowRun \<Rightarrow> bool gomap" where
  "completedSet run = map (\<lambda>(sid, state). (sid, resolved (ss_Status state))) (wr_Steps run)"

definition queuedSet :: "WorkflowRun \<Rightarrow> bool gomap" where
  "queuedSet run = map (\<lambda>(sid, state). (sid, dispatched (ss_Status state))) (wr_Steps run)"

text \<open>The core has its own copies of the two functions.\<close>

definition buildCompletedSet :: "WorkflowRun \<Rightarrow> bool gomap" where
  "buildCompletedSet run = map (\<lambda>(sid, state). (sid, resolved (ss_Status state))) (wr_Steps run)"

definition buildQueuedSet :: "WorkflowRun \<Rightarrow> bool gomap" where
  "buildQueuedSet run = map (\<lambda>(sid, state). (sid, dispatched (ss_Status state))) (wr_Steps run)"

definition countActiveSteps :: "WorkflowRun \<Rightarrow> int" where
  "countActiveSteps run =
     int (length (filter (\<lambda>(sid, state). ss_Status state = StepStatusQueued \<or> ss_Status state = StepStatusRunning)
       (wr_Steps run)))"

section \<open>The core\<close>

datatype SideEffect =
    EnqueueTask StepDef raw int
  | CompleteWorkflow raw
  | FailWorkflow string string
  | SkipStep string

datatype CoreEventType = CoreStepCompleted | CoreStepFailed | CoreStepContinue | CoreOther string

record FailPayload =
  fp_Error :: string
  fp_FailureType :: FailureType

record CoreEvent =
  ce_Type :: CoreEventType
  ce_StepID :: string
  ce_Payload :: raw
  ce_FailPayload :: FailPayload

definition findStepInDef :: "WorkflowDef \<Rightarrow> string \<Rightarrow> StepDef option" where
  "findStepInDef def stepID = find (\<lambda>s. sd_ID s = stepID) (wd_Steps def)"

text \<open>\<open>state.Status = v\<close> for the step, the rest of its state kept.\<close>

definition set_status :: "StepStatus \<Rightarrow> string \<Rightarrow> WorkflowRun \<Rightarrow> WorkflowRun" where
  "set_status v sid run = set_step sid ((step_of (wr_Steps run) sid)\<lparr>ss_Status := v\<rparr>) run"

definition resolveSkips :: "WorkflowDef \<Rightarrow> WorkflowRun \<Rightarrow> WorkflowRun \<times> SideEffect list" where
  "resolveSkips def run =
     (let skipped = ResolveSkipped def (buildCompletedSet run) (buildQueuedSet run) (wr_Steps run)
      in (fold (\<lambda>step. set_status StepStatusSkipped (sd_ID step)) skipped run,
          map (\<lambda>step. SkipStep (sd_ID step)) skipped))"

fun enqueue_effects :: "WorkflowRun \<Rightarrow> StepDef list \<Rightarrow> ('e, SideEffect list) res" where
  "enqueue_effects run [] = Ok []"
| "enqueue_effects run (step # ready) =
     (if ss_Status (step_of (wr_Steps run) (sd_ID step)) = StepStatusSkipped then enqueue_effects run ready
      else
        (case ResolveInput step (wr_Steps run) [wr_Input run] of
           Ok input \<Rightarrow> and_then (enqueue_effects run ready) (\<lambda>effs. Ok (EnqueueTask step input 0 # effs))
         | Err e \<Rightarrow> Panic ''resolveNextSteps: ResolveInput''
         | Panic p \<Rightarrow> Panic p))"

definition resolveNextSteps :: "WorkflowDef \<Rightarrow> WorkflowRun \<Rightarrow> ('e, WorkflowRun \<times> SideEffect list) res" where
  "resolveNextSteps def run =
     (let (run, skips) = resolveSkips def run;
          completed = buildCompletedSet run
      in if IsComplete def completed
         then Ok (run\<lparr>wr_Status := RunStatusCompleted\<rparr>, skips @ [CompleteWorkflow RNil])
         else
           let ready = ResolveReady def completed (buildQueuedSet run)
           in and_then (enqueue_effects run ready) (\<lambda>effs. Ok (run, skips @ effs)))"

definition advanceCompleted :: "WorkflowDef \<Rightarrow> WorkflowRun \<Rightarrow> CoreEvent \<Rightarrow> ('e, WorkflowRun \<times> SideEffect list) res" where
  "advanceCompleted def run evt =
     (let state = step_of (wr_Steps run) (ce_StepID evt)
      in resolveNextSteps def (set_step (ce_StepID evt)
           (state\<lparr>ss_Status := StepStatusCompleted, ss_Output := ce_Payload evt\<rparr>) run))"

definition advanceFailed :: "WorkflowDef \<Rightarrow> WorkflowRun \<Rightarrow> CoreEvent \<Rightarrow> WorkflowRun \<times> SideEffect list" where
  "advanceFailed def run evt =
     (let sid = ce_StepID evt;
          state = (step_of (wr_Steps run) sid)\<lparr>ss_Error := fp_Error (ce_FailPayload evt)\<rparr>
      in if fp_FailureType (ce_FailPayload evt) = FailureTypeNonRetriable
         then let (run, effs) = resolveSkips def (set_step sid (state\<lparr>ss_Status := StepStatusFailed\<rparr>) run)
              in (run\<lparr>wr_Status := RunStatusFailed\<rparr>,
                  effs @ [FailWorkflow sid (fp_Error (ce_FailPayload evt))])
         else (set_step sid state run, []))"

definition iterations_error :: "int \<Rightarrow> string" where
  "iterations_error n = ''agent loop exceeded max iterations ('' @ itoa n @ '')''"

definition advanceContinue :: "WorkflowDef \<Rightarrow> WorkflowRun \<Rightarrow> CoreEvent \<Rightarrow> ('e, WorkflowRun \<times> SideEffect list) res" where
  "advanceContinue def run evt =
     (let sid = ce_StepID evt in
      case findStepInDef def sid of
        None \<Rightarrow> Panic ''advanceContinue: step not in def''
      | Some stepDef \<Rightarrow>
          let state = step_of (wr_Steps run) sid;
              state = state\<lparr>ss_Iterations := wrap64 (ss_Iterations state + 1)\<rparr>
          in case ParseAgentLoopConfig stepDef of
               Err e \<Rightarrow> Panic ''advanceContinue''
             | Panic p \<Rightarrow> Panic p
             | Ok cfg \<Rightarrow>
                 if al_MaxIterations cfg > 0 \<and> ss_Iterations state \<ge> al_MaxIterations cfg
                 then let why = iterations_error (al_MaxIterations cfg);
                          state = state\<lparr>ss_Status := StepStatusFailed, ss_Error := why\<rparr>
                      in Ok ((set_step sid state run)\<lparr>wr_Status := RunStatusFailed\<rparr>, [FailWorkflow sid why])
                 else
                   let run = set_step sid state run
                   in case ResolveInput stepDef (wr_Steps run) [wr_Input run] of
                        Ok input \<Rightarrow> Ok (run, [EnqueueTask stepDef input (ss_Iterations state)])
                      | Err e \<Rightarrow> Panic ''advanceContinue: ResolveInput''
                      | Panic p \<Rightarrow> Panic p)"

definition Advance :: "WorkflowDef \<Rightarrow> WorkflowRun \<Rightarrow> CoreEvent \<Rightarrow> ('e, WorkflowRun \<times> SideEffect list) res" where
  "Advance def run evt =
     (if ce_StepID evt = [] then Panic ''Advance: event StepID must not be empty''
      else
        (case ce_Type evt of
           CoreStepCompleted \<Rightarrow> advanceCompleted def run evt
         | CoreStepFailed \<Rightarrow> Ok (advanceFailed def run evt)
         | CoreStepContinue \<Rightarrow> advanceContinue def run evt
         | CoreOther t \<Rightarrow> Panic ''Advance: unknown event type''))"

section \<open>Statuses\<close>

abbreviation status_of :: "WorkflowRun \<Rightarrow> string \<Rightarrow> StepStatus" where
  "status_of run sid \<equiv> ss_Status (step_of (wr_Steps run) sid)"

named_theorems run_simps \<open>reading a run after a change\<close>

lemma mget_map_snd: "mget (f d) (map (\<lambda>(k, v). (k, f v)) m) k = f (mget d m k)"
  by (induction m) (auto simp: mget_def)

lemma zero_status [simp]: "ss_Status zero_StepState = StepStatusPending"
  by (simp add: zero_StepState_def)

lemma bget_completedSet [run_simps]: "bget (completedSet run) sid = resolved (status_of run sid)"
  using mget_map_snd [of "\<lambda>s. resolved (ss_Status s)" zero_StepState "wr_Steps run" sid]
  by (simp add: bget_def completedSet_def)

lemma bget_queuedSet [run_simps]: "bget (queuedSet run) sid = dispatched (status_of run sid)"
  using mget_map_snd [of "\<lambda>s. dispatched (ss_Status s)" zero_StepState "wr_Steps run" sid]
  by (simp add: bget_def queuedSet_def)

lemma core_sets [run_simps]: "buildCompletedSet = completedSet" "buildQueuedSet = queuedSet"
  by (rule ext, simp add: buildCompletedSet_def completedSet_def buildQueuedSet_def queuedSet_def)+

lemma step_of_set_step [run_simps]:
  "step_of (wr_Steps (set_step sid s run)) x = (if x = sid then s else step_of (wr_Steps run) x)"
  by (simp add: set_step_def map_simps)

lemma set_step_fields [run_simps]:
  "wr_RunID (set_step sid s run) = wr_RunID run" "wr_WorkflowID (set_step sid s run) = wr_WorkflowID run"
  "wr_Status (set_step sid s run) = wr_Status run" "wr_Input (set_step sid s run) = wr_Input run"
  "wr_CompletedAt (set_step sid s run) = wr_CompletedAt run" "wr_ParentRunID (set_step sid s run) = wr_ParentRunID run"
  "wr_DynamicSteps (set_step sid s run) = wr_DynamicSteps run" "wr_Deadline (set_step sid s run) = wr_Deadline run"
  by (simp_all add: set_step_def)

lemma step_of_set_status [run_simps]:
  "step_of (wr_Steps (set_status v sid run)) x =
     (if x = sid then (step_of (wr_Steps run) sid)\<lparr>ss_Status := v\<rparr> else step_of (wr_Steps run) x)"
  by (simp add: set_status_def run_simps)

text \<open>Two runs that differ in their steps only.\<close>

definition same_run :: "WorkflowRun \<Rightarrow> WorkflowRun \<Rightarrow> bool" where
  "same_run a b \<longleftrightarrow> a = b\<lparr>wr_Steps := wr_Steps a\<rparr>"

lemma same_run_refl [simp]: "same_run a a"
  by (simp add: same_run_def)

lemma same_run_trans [trans]: "same_run a b \<Longrightarrow> same_run b c \<Longrightarrow> same_run a c"
  by (cases a, cases b, cases c) (simp add: same_run_def)

lemma same_run_set_step [simp]: "same_run (set_step sid s a) b = same_run a b"
  by (cases a, cases b) (simp add: same_run_def set_step_def)

lemma same_run_set_status [simp]: "same_run (set_status v sid a) b = same_run a b"
  by (simp add: set_status_def)

lemma same_runD:
  assumes "same_run a b"
  shows "wr_RunID a = wr_RunID b" "wr_WorkflowID a = wr_WorkflowID b" "wr_Status a = wr_Status b"
    "wr_Input a = wr_Input b" "wr_CompletedAt a = wr_CompletedAt b" "wr_ParentRunID a = wr_ParentRunID b"
    "wr_DynamicSteps a = wr_DynamicSteps b"
  using assms by (cases a; cases b; simp add: same_run_def)+

lemma fold_set_status:
  "step_of (wr_Steps (fold (\<lambda>step. set_status v (sd_ID step)) steps run)) x =
     (if x \<in> set (step_ids steps) then (step_of (wr_Steps run) x)\<lparr>ss_Status := v\<rparr> else step_of (wr_Steps run) x)"
  by (induction steps arbitrary: run) (auto simp: run_simps)

lemma same_run_fold_status [simp]: "same_run (fold (\<lambda>step. set_status v (sd_ID step)) steps a) b = same_run a b"
  by (induction steps arbitrary: a) auto

section \<open>Well-formed runs\<close>

text \<open>A run of a definition: one state per step, none twice, and counters that count.\<close>

definition run_of :: "WorkflowDef \<Rightarrow> WorkflowRun \<Rightarrow> bool" where
  "run_of def run \<longleftrightarrow> distinct (map fst (wr_Steps run)) \<and> mdom (wr_Steps run) = set (step_ids (wd_Steps def))
     \<and> (\<forall>sid. 0 \<le> ss_Attempts (step_of (wr_Steps run) sid) \<and> 0 \<le> ss_Iterations (step_of (wr_Steps run) sid))"

lemma mdom_mput [simp]: "mdom (mput k v m) = insert k (mdom m)"
  by (simp add: dom_update)

lemma run_of_set_step:
  assumes "run_of def run" "sid \<in> set (step_ids (wd_Steps def))" "0 \<le> ss_Attempts s" "0 \<le> ss_Iterations s"
  shows "run_of def (set_step sid s run)"
  using assms unfolding run_of_def by (auto simp: set_step_def map_simps intro: distinct_mput)

lemma run_of_set_status:
  assumes "run_of def run" "sid \<in> set (step_ids (wd_Steps def))"
  shows "run_of def (set_status v sid run)"
  unfolding set_status_def by (rule run_of_set_step [OF assms]) (use assms in \<open>auto simp: run_of_def\<close>)

lemma run_of_fold_status:
  assumes "run_of def run" "set (step_ids steps) \<subseteq> set (step_ids (wd_Steps def))"
  shows "run_of def (fold (\<lambda>step. set_status v (sd_ID step)) steps run)"
  using assms
proof (induction steps arbitrary: run)
  case (Cons step steps)
  then have "run_of def (set_status v (sd_ID step) run)" by (intro run_of_set_status) auto
  with Cons show ?case by simp
qed simp

lemma run_of_fields [simp]: "run_of def (run\<lparr>wr_Status := v\<rparr>) = run_of def run"
  by (simp add: run_of_def)

end
