(* ===== verification/Engine_Fence.thy ===== *)
theory Engine_Fence
  imports Engine_Advance Dag_Retry Dag_Dynamic
begin

text \<open>
  What the step handlers of the engine decide about one step and one event: dispatch and completion
  stamps (src/internal/engine/dispatch_stamp.go), the fence that admits an event only for the dispatch
  the step is on (step_event_fence.go), retry delays and failure payloads (retry_handlers.go), the clock
  of an attempt and the bounds of a loop (step_handlers.go), waits (agent_inputs.go), the mark of an
  unsent dispatch (dispatch_resend.go) and identifiers of map instances (map_handlers.go). The clock is an
  argument, and so is each fresh nonce; the source's checks that the clock is not the zero time and
  that a nonce is not empty are left out.
\<close>

section \<open>Stamps\<close>

definition stampDispatch :: "gotime \<Rightarrow> string \<Rightarrow> StepState \<Rightarrow> StepState" where
  "stampDispatch now nonce state =
     state\<lparr>ss_DispatchNonce := nonce, ss_StartedAt := Some now, ss_CompletedAt := None,
           ss_AttemptStartedAt := None, ss_RetryDispatchAt := None, ss_DispatchUnsent := False\<rparr>"

definition stampCompleted :: "gotime \<Rightarrow> StepState \<Rightarrow> StepState" where
  "stampCompleted now state = state\<lparr>ss_CompletedAt := Some now\<rparr>"

definition stampTerminalSteps :: "gotime \<Rightarrow> StepState gomap \<Rightarrow> StepState gomap" where
  "stampTerminalSteps now steps =
     map (\<lambda>(sid, state).
            (sid, if ss_CompletedAt state \<noteq> None then state
                  else if ss_Status state \<noteq> StepStatusCompleted \<and> ss_Status state \<noteq> StepStatusFailed then state
                  else stampCompleted now state)) steps"

section \<open>The fence\<close>

datatype rejection = rejectNoIdentity | rejectNotRunning | rejectIteration | rejectAttempt | rejectNonce

text \<open>None: the event is accepted.\<close>

definition acceptStepEvent :: "StepState \<Rightarrow> Event \<Rightarrow> bool \<Rightarrow> ('e, rejection option) res" where
  "acceptStepEvent state evt legacyAccepted =
     (if ev_StepID evt = [] then Panic ''acceptStepEvent: StepID must not be empty''
      else if \<not> fencedEventType (ev_Type evt) then Panic ''acceptStepEvent: only continue, completed and failed are fenced''
      else if \<not> HasIdentity evt then Ok (if legacyAccepted then None else Some rejectNoIdentity)
      else if ss_Status state \<noteq> StepStatusRunning \<and> ss_Status state \<noteq> StepStatusQueued
        then Ok (Some rejectNotRunning)
      else if ev_Iteration evt \<noteq> Some (ss_Iterations state) then Ok (Some rejectIteration)
      else if ss_Status state = StepStatusQueued then
        Ok (if ev_DispatchNonce evt = [] \<or> ev_DispatchNonce evt \<noteq> ss_DispatchNonce state
            then Some rejectNonce else None)
      else if ev_AttemptNumber evt \<noteq> ss_Attempts state then Ok (Some rejectAttempt)
      else if ev_DispatchNonce evt \<noteq> [] \<and> ev_DispatchNonce evt \<noteq> ss_DispatchNonce state
        then Ok (Some rejectNonce)
      else Ok None)"

definition adoptDispatchAttempt :: "WorkflowRun \<Rightarrow> Event \<Rightarrow> ('e, WorkflowRun) res" where
  "adoptDispatchAttempt run evt =
     (case map_of (wr_Steps run) (ev_StepID evt) of
        None \<Rightarrow> Panic ''adoptDispatchAttempt: step must exist in the run''
      | Some state \<Rightarrow>
          if ss_Status state \<noteq> StepStatusQueued then Panic ''adoptDispatchAttempt: step must be Queued''
          else if ev_AttemptNumber evt > ss_Attempts state
          then Ok (set_step (ev_StepID evt) (state\<lparr>ss_Attempts := ev_AttemptNumber evt\<rparr>) run)
          else Ok run)"

text \<open>The run with the attempt adopted, and whether the caller may proceed.\<close>

definition fenceStepEvent :: "bool \<Rightarrow> WorkflowRun \<Rightarrow> Event \<Rightarrow> ('e, WorkflowRun \<times> bool) res" where
  "fenceStepEvent legacyStepEvents run evt =
     (if wr_RunID run \<noteq> ev_RunID evt then Panic ''fenceStepEvent: event and run must name the same run''
      else if ev_StepID evt = [] then Panic ''fenceStepEvent: StepID must not be empty''
      else if \<not> fencedEventType (ev_Type evt) then Ok (run, True)
      else
        let state = step_of (wr_Steps run) (ev_StepID evt) in
        and_then (acceptStepEvent state evt legacyStepEvents) (\<lambda>verdict.
          if verdict = None then
            if ss_Status state = StepStatusQueued \<and> ev_AttemptNumber evt > 0
            then and_then (adoptDispatchAttempt run evt) (\<lambda>run. Ok (run, True))
            else Ok (run, True)
          else Ok (run, False)))"

definition lateEventForTerminalRun :: "WorkflowRun \<Rightarrow> Event \<Rightarrow> ('e, bool) res" where
  "lateEventForTerminalRun run evt =
     (if wr_RunID run \<noteq> ev_RunID evt then Panic ''lateEventForTerminalRun: event and run must name the same run''
      else if ev_StepID evt = [] then Panic ''lateEventForTerminalRun: only step events are guarded here''
      else Ok (IsTerminal (wr_Status run)))"

definition startedForOtherDispatch :: "StepState \<Rightarrow> Event \<Rightarrow> ('e, bool) res" where
  "startedForOtherDispatch state evt =
     (if ev_Type evt \<noteq> EventStepStarted then Panic ''startedForOtherDispatch: event must be a step.started''
      else if ev_StepID evt = [] then Panic ''startedForOtherDispatch: StepID must not be empty''
      else Ok (\<not> (ev_DispatchNonce evt = [] \<or> ss_DispatchNonce state = [] \<or>
                  ev_DispatchNonce evt = ss_DispatchNonce state)))"

section \<open>Continues\<close>

text \<open>Decoding of \<open>StepContinuePayload\<close>: \<open>bytes\<close> decodes a byte slice and \<open>parseRFC3339\<close> an instant.\<close>

definition dec_bytes :: "(json \<Rightarrow> string option) \<Rightarrow> string decoder" where
  "dec_bytes bytes old j = (case j of JNull \<Rightarrow> Some [] | _ \<Rightarrow> bytes j)"

definition dec_time_ptr :: "(string \<Rightarrow> gotime option) \<Rightarrow> gotime option decoder" where
  "dec_time_ptr parseRFC3339 old j =
     (case j of JNull \<Rightarrow> Some None | JStr s \<Rightarrow> map_option Some (parseRFC3339 s) | _ \<Rightarrow> None)"

definition dec_ContinueWait :: "(string \<Rightarrow> gotime option) \<Rightarrow> ContinueWait option decoder" where
  "dec_ContinueWait parseRFC3339 old j =
     (case j of
        JNull \<Rightarrow> Some None
      | JObj kvs \<Rightarrow>
          let base = (case old of None \<Rightarrow> \<lparr>cw_DelayMs = 0, cw_Until = None, cw_Input = False\<rparr> | Some w \<Rightarrow> w) in
          Option.bind (dec_field ''delay_ms'' dec_int (cw_DelayMs base) kvs) (\<lambda>d.
          Option.bind (dec_field ''until'' (dec_time_ptr parseRFC3339) (cw_Until base) kvs) (\<lambda>u.
          Option.bind (dec_field ''input'' dec_bool (cw_Input base) kvs) (\<lambda>i.
            Some (Some \<lparr>cw_DelayMs = d, cw_Until = u, cw_Input = i\<rparr>))))
      | _ \<Rightarrow> None)"

definition dec_StepContinuePayload ::
    "(json \<Rightarrow> string option) \<Rightarrow> (string \<Rightarrow> gotime option) \<Rightarrow> (string \<times> json) list \<Rightarrow> StepContinuePayload option" where
  "dec_StepContinuePayload bytes parseRFC3339 kvs =
     Option.bind (dec_field ''output'' dec_raw RNil kvs) (\<lambda>out.
     Option.bind (dec_field ''state'' (dec_bytes bytes) [] kvs) (\<lambda>st.
     Option.bind (dec_field ''state_set'' dec_bool False kvs) (\<lambda>set.
     Option.bind (dec_field ''wait'' (dec_ContinueWait parseRFC3339) None kvs) (\<lambda>w.
       Some \<lparr>sp_Output = out, sp_State = st, sp_StateSet = set, sp_Wait = w\<rparr>))))"

datatype continue_error = BadContinuePayload

definition continueState ::
    "(json \<Rightarrow> string option) \<Rightarrow> (string \<Rightarrow> gotime option) \<Rightarrow> Event \<Rightarrow> (continue_error, string \<times> bool) res" where
  "continueState bytes parseRFC3339 evt =
     (if ev_Type evt \<noteq> EventStepContinue then Panic ''continueState: event must be a step.continue''
      else if ev_StepID evt = [] then Panic ''continueState: StepID must not be empty''
      else if \<not> HasIdentity evt \<or> raw_empty (ev_Payload evt) then Ok ([], False)
      else
        (case unmarshal_struct (dec_StepContinuePayload bytes parseRFC3339) (ev_Payload evt) of
           None \<Rightarrow> Err BadContinuePayload
         | Some p \<Rightarrow> Ok (sp_State p, sp_StateSet p \<or> sp_State p \<noteq> [])))"

definition continueWait ::
    "(json \<Rightarrow> string option) \<Rightarrow> (string \<Rightarrow> gotime option) \<Rightarrow> Event \<Rightarrow> (continue_error, ContinueWait option) res" where
  "continueWait bytes parseRFC3339 evt =
     (if ev_Type evt \<noteq> EventStepContinue then Panic ''continueWait: event must be a step.continue''
      else if ev_StepID evt = [] then Panic ''continueWait: StepID must not be empty''
      else if \<not> HasIdentity evt \<or> raw_empty (ev_Payload evt) then Ok None
      else
        (case unmarshal_struct (dec_StepContinuePayload bytes parseRFC3339) (ev_Payload evt) of
           None \<Rightarrow> Err BadContinuePayload
         | Some p \<Rightarrow> Ok (if ContinueWait_IsZero (sp_Wait p) then None else sp_Wait p)))"

text \<open>The error of an oversized loop state, None when it fits.\<close>

definition loopStateOverCap :: "int \<Rightarrow> int \<Rightarrow> ('e, string option) res" where
  "loopStateOverCap len capBytes =
     (if len < 0 then Panic ''loopStateOverCap: size must not be negative''
      else if capBytes \<le> 0 then Panic ''loopStateOverCap: cap must be positive''
      else if len \<le> capBytes then Ok None
      else Ok (Some (''agent loop state is '' @ itoa len @ '' bytes, over the '' @ itoa capBytes @
                     '' byte cap (loop_state_max_bytes)'')))"

definition time_since :: "gotime \<Rightarrow> gotime \<Rightarrow> duration" where
  "time_since now t = time_sub now t"

text \<open>The reason when the loop has reached a bound. The duration in its text is an argument's business.\<close>

definition checkLoopBounds :: "(duration \<Rightarrow> string) \<Rightarrow> gotime \<Rightarrow> StepDef \<Rightarrow> StepState \<Rightarrow> string option" where
  "checkLoopBounds show_duration now stepDef state =
     (case ParseAgentLoopConfig stepDef of
        Ok cfg \<Rightarrow>
          if al_MaxIterations cfg > 0 \<and> ss_Iterations state \<ge> al_MaxIterations cfg
          then Some (iterations_error (al_MaxIterations cfg))
          else if al_MaxDuration cfg > 0 \<and> ss_LoopStartedAt state \<noteq> 0 \<and>
                  time_since now (ss_LoopStartedAt state) \<ge> al_MaxDuration cfg
          then Some (''agent loop exceeded max duration ('' @ show_duration (al_MaxDuration cfg) @ '')'')
          else None
      | _ \<Rightarrow> None)"

definition waiting :: "StepState \<Rightarrow> bool" where
  "waiting state = (ss_WaitUntil state \<noteq> None \<or> ss_WaitInput state)"

definition stepFinished :: "StepState \<Rightarrow> bool" where
  "stepFinished state = (ss_Status state \<in> {StepStatusCompleted, StepStatusFailed, StepStatusCancelled, StepStatusSkipped})"

text \<open>\<open>applyWait\<close>: \<open>queued\<close> says whether inputs are already queued for the step, as far as the store can tell.\<close>

definition applyWait :: "gotime \<Rightarrow> bool \<Rightarrow> ContinueWait option \<Rightarrow> StepState \<Rightarrow> ('e, StepState) res" where
  "applyWait now queued wait state =
     (let state = state\<lparr>ss_WaitUntil := None, ss_WaitInput := False\<rparr> in
      case wait of
        None \<Rightarrow> Ok state
      | Some w \<Rightarrow>
          if ContinueWait_IsZero wait then Ok state
          else and_then (WakeAt wait now) (\<lambda>wake.
            let state = state\<lparr>ss_WaitUntil := wake\<rparr> in
            if \<not> cw_Input w then Ok state
            else if queued
            then Ok (state\<lparr>ss_WaitUntil := None, ss_WaitInput := False, ss_HasInputs := True\<rparr>)
            else Ok (state\<lparr>ss_WaitInput := True\<rparr>)))"

section \<open>Attempts and retries\<close>

definition startAttemptClock :: "gotime \<Rightarrow> StepState \<Rightarrow> StepState \<times> duration" where
  "startAttemptClock now state =
     (case ss_AttemptStartedAt state of
        Some t \<Rightarrow> (state, max (time_sub now t) 0)
      | None \<Rightarrow>
          (case ss_RetryDispatchAt state of
             Some retryAt \<Rightarrow>
               if now < retryAt then (state, 0)
               else (state\<lparr>ss_AttemptStartedAt := Some now, ss_RetryDispatchAt := None\<rparr>, max (time_sub now now) 0)
           | None \<Rightarrow> (state\<lparr>ss_AttemptStartedAt := Some now, ss_RetryDispatchAt := None\<rparr>, max (time_sub now now) 0)))"

definition failure_type_of :: "string \<Rightarrow> FailureType" where
  "failure_type_of s =
     (if s = ''retriable'' then FailureTypeRetriable
      else if s = ''non_retriable'' then FailureTypeNonRetriable
      else if s = ''retry_after'' then FailureTypeRetryAfter
      else FailureTypeOther s)"

definition dec_StepFailedPayload :: "(string \<times> json) list \<Rightarrow> StepFailedPayload option" where
  "dec_StepFailedPayload kvs =
     Option.bind (dec_field ''error'' dec_str [] kvs) (\<lambda>e.
     Option.bind (dec_field ''failure_type'' dec_str [] kvs) (\<lambda>t.
     Option.bind (dec_field ''retry_after_ms'' dec_int 0 kvs) (\<lambda>ms.
       Some \<lparr>sf_Error = e, sf_FailureType = failure_type_of t, sf_RetryAfterMs = ms\<rparr>)))"

text \<open>The text of a payload that is neither shape, \<open>string(data)\<close>, is an argument.\<close>

definition parseFailPayload :: "(raw \<Rightarrow> string) \<Rightarrow> raw \<Rightarrow> StepFailedPayload" where
  "parseFailPayload raw_text data =
     (let plain = (\<lambda>e. \<lparr>sf_Error = e, sf_FailureType = FailureTypeRetriable, sf_RetryAfterMs = 0\<rparr>) in
      if raw_empty data then plain []
      else
        (case unmarshal_struct dec_StepFailedPayload data of
           Some p \<Rightarrow>
             if sf_Error p \<noteq> [] then
               (if sf_FailureType p = FailureTypeOther [] then p\<lparr>sf_FailureType := FailureTypeRetriable\<rparr> else p)
             else
               (case data of RJson JNull \<Rightarrow> plain [] | _ \<Rightarrow> plain (raw_text data))
         | None \<Rightarrow>
             (case data of RJson (JStr s) \<Rightarrow> plain s | _ \<Rightarrow> plain (raw_text data))))"

definition retryAfterDelayMs :: "int \<Rightarrow> int" where
  "retryAfterDelayMs ms = (if ms \<le> 0 then 100 else if ms > 3600000 then 3600000 else ms)"

definition to_millis :: "duration \<Rightarrow> int" where
  "to_millis d = go_div d Millisecond"

definition retryBackoffDelayMs :: "(rat option \<Rightarrow> int) \<Rightarrow> RetryPolicy \<Rightarrow> int \<Rightarrow> ('e, int) res" where
  "retryBackoffDelayMs out policy attempts =
     (if attempts < 1 then Panic ''retryBackoffDelayMs: attempts must be >= 1''
      else and_then (CalculateDelay out policy attempts) (\<lambda>d. Ok (min (max (to_millis d) 1) 3600000)))"

definition markRetryPending :: "gotime \<Rightarrow> int \<Rightarrow> StepState \<Rightarrow> ('e, StepState) res" where
  "markRetryPending now delayMs state =
     (if delayMs < 1 then Panic ''markRetryPending: delayMs must be positive''
      else Ok (state\<lparr>ss_AttemptStartedAt := None, ss_RetryDispatchAt := Some (now + wrap64 (delayMs * Millisecond))\<rparr>))"

section \<open>Dispatch marks\<close>

fun resendable :: "StepType \<Rightarrow> bool" where
  "resendable StepTypeNormal = True"
| "resendable StepTypeAgentLoop = True"
| "resendable StepTypeSleep = True"
| "resendable StepTypeWaitForEvent = True"
| "resendable _ = False"

definition hasUnsentStep :: "WorkflowRun \<Rightarrow> bool" where
  "hasUnsentStep run =
     (wr_Status run = RunStatusRunning \<and> list_ex (\<lambda>(sid, state). ss_DispatchUnsent state) (wr_Steps run))"

text \<open>\<open>nonces\<close> names the dispatch of each step that was sent; the result says whether a mark was cleared.\<close>

fun clearUnsent :: "string gomap \<Rightarrow> WorkflowRun \<Rightarrow> WorkflowRun \<times> bool" where
  "clearUnsent [] run = (run, False)"
| "clearUnsent ((sid, nonce) # nonces) run =
     (case map_of (wr_Steps run) sid of
        None \<Rightarrow> clearUnsent nonces run
      | Some state \<Rightarrow>
          if \<not> ss_DispatchUnsent state \<or> ss_DispatchNonce state \<noteq> nonce then clearUnsent nonces run
          else (fst (clearUnsent nonces (set_step sid (state\<lparr>ss_DispatchUnsent := False\<rparr>) run)), True))"

section \<open>Runs\<close>

definition markTerminal :: "gotime \<Rightarrow> WorkflowRun \<Rightarrow> RunStatus \<Rightarrow> ('e, WorkflowRun) res" where
  "markTerminal now run status =
     (if wr_RunID run = [] then Panic ''markTerminal: RunID must not be empty''
      else if \<not> IsTerminal status then Panic ''markTerminal: status must be terminal''
      else Ok (run\<lparr>wr_Status := status, wr_CompletedAt := Some now\<rparr>))"

definition cancelUnfinishedSteps :: "WorkflowRun \<Rightarrow> WorkflowRun" where
  "cancelUnfinishedSteps run =
     run\<lparr>wr_Steps := map (\<lambda>(sid, state).
       (sid, if ss_Status state \<in> {StepStatusQueued, StepStatusRunning, StepStatusPending}
             then state\<lparr>ss_Status := StepStatusCancelled\<rparr> else state)) (wr_Steps run)\<rparr>"

section \<open>Map instances\<close>

definition isMapInstanceID :: "string \<Rightarrow> bool" where
  "isMapInstanceID stepID = contains_str stepID ''.map.''"

text \<open>\<open>strings.Split(s, sep)\<close> for a separator that is not empty.\<close>

function split_str :: "string \<Rightarrow> string \<Rightarrow> string list" where
  "split_str sep s =
     (if sep = [] then [s]
      else case index_of sep s of
        None \<Rightarrow> [s]
      | Some i \<Rightarrow> take i s # split_str sep (drop (i + length sep) s))"
  by auto

lemma index_of_le: "index_of p s = Some i \<Longrightarrow> i + length p \<le> length s"
proof (induction p s arbitrary: i rule: index_of.induct)
  case (2 p x xs)
  then show ?case
    using take_eq_Nil [of "length p" "x # xs"] length_take [of "length p" "x # xs"]
    by (auto simp: has_prefix_def split: if_splits) (metis length_take min.cobounded1 length_Cons)
qed (auto split: if_splits)

termination split_str
  by (relation "measure (\<lambda>(sep, s). length s)") (auto dest!: index_of_le, metis add_gr_0 diff_less length_greater_0_conv less_le_trans)

declare split_str.simps [simp del]

definition parseMapInstanceID :: "string \<Rightarrow> ('e, string \<times> int) res" where
  "parseMapInstanceID stepID =
     (case split_str ''.map.'' stepID of
        [base, idx] \<Rightarrow>
          (case atoi idx of
             None \<Rightarrow> Panic ''parseMapInstanceID: invalid index''
           | Some i \<Rightarrow> Ok (base, i))
      | _ \<Rightarrow> Panic ''parseMapInstanceID: invalid format'')"

definition mapInstanceID :: "string \<Rightarrow> nat \<Rightarrow> string" where
  "mapInstanceID stepID index = stepID @ ''.map.'' @ itoa (int index)"

definition allMapInstancesDone :: "MapInstanceState list \<Rightarrow> bool" where
  "allMapInstancesDone instances = list_all (\<lambda>inst. mi_Status inst = StepStatusCompleted) instances"

end
