(* ===== verification/Engine_Trace.thy ===== *)
theory Engine_Trace
  imports Engine_Fence Engine_Publish Dag_Respond Dag_Names
begin

text \<open>
  How the engine's handlers are modelled. A handler is a computation that appends the calls it makes
  on other components to a trace, and ends with a value, an error or a panic; an error leaves the calls
  already made in place. A call that fails ends the handler at that call, as a crash of the engine does,
  so what can really happen is any prefix of the trace. Here are the calls, what the handlers read from
  elsewhere, the loading of definitions, the saving of snapshots and the end of a run
  (src/internal/engine/orchestrator.go, run_event.go, output_schema.go), and the rules for reasoning about
  traces.
\<close>

section \<open>Traces\<close>

record EventWaiter =
  ew_RunID :: string
  ew_StepID :: string
  ew_EventType :: string
  ew_Match :: ResolvedMatch
  ew_Cancels :: bool

datatype action =
    SaveRun WorkflowRun
  | PublishTask StepDef raw WorkflowRun string string
  | PublishLoopTask StepDef raw int int string string raw
  | ScheduleTimer TimerMessage
  | PublishEvent Event
  | AddWaiter EventWaiter
  | RemoveWaitersForRun string
  | ReleaseTaskSlot string string
  | ReleaseTaskHoldersOf "string list"
  | ReleaseAdmission WorkflowRun
  | CreateBinding string string
  | DeleteBinding string
  | DeadLetter string string TaskPayload string
  | PublishRunEvent WorkflowRun
  | DeleteActiveEntry string
  | CreateActiveEntry string
  | PublishResponse string RespondConfig raw
  | StoreToken string string string gotime gotime
  | RequestApproval string string ApprovalConfig string gotime
  | DeleteToken string string
  | SignalCancel string
  | SettleInputs string string
  | CreateVersion string WorkflowDef

datatype def_error = DefNotFound | DefUnreadable

datatype engine_error =
    DefLoad string def_error
  | PinnedDefMissing string
  | PinnedDefCorrupt string
  | TerminalRunDefGone
  | StepNotFound string
  | BadContinue continue_error
  | ResolveInputFailed string marshal_error
  | Publishing publish_error
  | MapNotArray string
  | MapTooManyItems string nat int
  | MapIndexRange int string
  | MapMarshal string
  | ConfigFailed string config_error
  | MatchFailed string path_error
  | RespondFailed respond_error
  | ApprovalNotConfigured
  | ApprovalTimeout duration
  | BadChildPayload
  | ChildMarshal marshal_error
  | ChildNotFound string
  | RunFinalized
  | SnapshotConflict
  | OutOfFuel

type_synonym 'a handler = "action list \<times> (engine_error, 'a) res"

definition ret :: "'a \<Rightarrow> 'a handler" where
  "ret a = ([], Ok a)"

definition raise :: "engine_error \<Rightarrow> 'a handler" where
  "raise e = ([], Err e)"

definition lift :: "(engine_error, 'a) res \<Rightarrow> 'a handler" where
  "lift r = ([], r)"

definition emit :: "action list \<Rightarrow> unit handler" where
  "emit acts = (acts, Ok ())"

fun bind :: "'a handler \<Rightarrow> ('a \<Rightarrow> 'b handler) \<Rightarrow> 'b handler" where
  "bind (acts, Ok a) f = (acts @ fst (f a), snd (f a))"
| "bind (acts, Err e) f = (acts, Err e)"
| "bind (acts, Panic p) f = (acts, Panic p)"

definition guard :: "bool \<Rightarrow> string \<Rightarrow> unit handler" where
  "guard bad msg = lift (panic_if bad msg)"

text \<open>What the handlers read from elsewhere: the clock, fresh identifiers, the stored definitions with
  their digest, other runs, whether the store refuses to save (a rival engine has written the run), the
  configuration of the engine, the inputs bucket, the task queue, and the
  parts of the standard library that stay arguments, among them the texts \<open>fmt\<close> renders.\<close>

record engine =
  en_now :: gotime
  en_nonce :: "string \<Rightarrow> string"
  en_childID :: "string \<Rightarrow> string"
  en_token :: "string \<Rightarrow> string"
  en_defs :: "string \<Rightarrow> (def_error, WorkflowDef) res"
  en_hash :: "WorkflowDef \<Rightarrow> string"
  en_runs :: "string \<Rightarrow> WorkflowRun option"
  en_legacy :: bool
  en_stateMax :: int
  en_saveFails :: bool
  en_concurrency :: bool
  en_releaseFails :: bool
  en_correlator :: bool
  en_approval :: bool
  en_sticky :: bool
  en_routes :: "StepType \<Rightarrow> string option"
  en_policy :: "GrantPolicy option"
  en_queuedInputs :: "string \<Rightarrow> bool"
  en_settles :: "string \<Rightarrow> bool"
  en_stillQueued :: "string \<Rightarrow> bool"
  en_float :: "rat option \<Rightarrow> int"
  en_zone :: "string \<Rightarrow> (gotime \<Rightarrow> Civil) option"
  en_rfc3339 :: "string \<Rightarrow> gotime option"
  en_bytes :: "json \<Rightarrow> string option"
  en_text :: "raw \<Rightarrow> string"
  en_sleep_text :: "sleep_error \<Rightarrow> string"
  en_plan_text :: "planner_error \<Rightarrow> string"
  en_schema_text :: "string \<Rightarrow> schema_error \<Rightarrow> string"
  en_duration_text :: "duration \<Rightarrow> string"
  en_failureInput :: "string \<Rightarrow> string \<Rightarrow> raw"
  en_compensateInput :: "string \<Rightarrow> raw \<Rightarrow> string \<Rightarrow> string \<Rightarrow> raw"
  en_plan :: "raw \<Rightarrow> StepDef list option"

definition schedule :: "TimerMessage \<Rightarrow> unit handler" where
  "schedule tm = bind (lift (map_err Publishing (Schedule tm))) (\<lambda>_. emit [ScheduleTimer tm])"

definition findStepDef :: "WorkflowDef \<Rightarrow> string \<Rightarrow> StepDef option" where
  "findStepDef wfDef stepID = find (\<lambda>s. sd_ID s = stepID) (wd_Steps wfDef)"

text \<open>\<open>stepDef, _ := findStepDef(...)\<close>.\<close>

definition step_def :: "WorkflowDef \<Rightarrow> string \<Rightarrow> StepDef" where
  "step_def wfDef stepID = (case findStepDef wfDef stepID of None \<Rightarrow> zero_StepDef | Some s \<Rightarrow> s)"

section \<open>Definitions\<close>

definition loadDef :: "engine \<Rightarrow> string \<Rightarrow> (engine_error, WorkflowDef) res" where
  "loadDef E workflowID =
     (if workflowID = [] then Panic ''loadDef: workflowID must not be empty''
      else map_err (DefLoad workflowID) (en_defs E workflowID))"

definition selfHealMissingVersion :: "engine \<Rightarrow> WorkflowRun \<Rightarrow> string \<Rightarrow> WorkflowDef option handler" where
  "selfHealMissingVersion E run versionKey =
     (if wr_RunID run = [] then lift (Panic ''selfHealMissingVersion: run.RunID must not be empty'')
      else if versionKey = [] then lift (Panic ''selfHealMissingVersion: versionKey must not be empty'')
      else
        (case loadDef E (wr_WorkflowID run) of
           Panic p \<Rightarrow> lift (Panic p)
         | Err e \<Rightarrow> ret None
         | Ok wfDef \<Rightarrow>
             if en_hash E wfDef \<noteq> wr_DefHash run then ret None
             else bind (emit [CreateVersion versionKey wfDef]) (\<lambda>_. ret (Some wfDef))))"

definition loadPinnedOrLatestDef :: "engine \<Rightarrow> WorkflowRun \<Rightarrow> WorkflowDef handler" where
  "loadPinnedOrLatestDef E run =
     (if wr_RunID run = [] then lift (Panic ''loadPinnedOrLatestDef: run.RunID must not be empty'')
      else if wr_DefHash run = [] then lift (loadDef E (wr_WorkflowID run))
      else
        bind (lift (DefVersionKey (wr_WorkflowID run) (wr_DefHash run))) (\<lambda>versionKey.
          (case en_defs E versionKey of
             Panic p \<Rightarrow> lift (Panic p)
           | Err DefNotFound \<Rightarrow>
               bind (selfHealMissingVersion E run versionKey) (\<lambda>healed.
                 (case healed of Some wfDef \<Rightarrow> ret wfDef | None \<Rightarrow> raise (PinnedDefMissing versionKey)))
           | Err DefUnreadable \<Rightarrow> raise (DefLoad versionKey DefUnreadable)
           | Ok wfDef \<Rightarrow>
               if en_hash E wfDef \<noteq> wr_DefHash run then raise (PinnedDefCorrupt versionKey) else ret wfDef)))"

fun isDefUnresolvable :: "engine_error \<Rightarrow> bool" where
  "isDefUnresolvable (PinnedDefMissing k) = True"
| "isDefUnresolvable (DefLoad k DefNotFound) = True"
| "isDefUnresolvable _ = False"

text \<open>The loaded snapshot is the second argument: the caller of every handler has it.\<close>

definition loadRunAndDef :: "engine \<Rightarrow> WorkflowRun \<Rightarrow> WorkflowDef handler" where
  "loadRunAndDef E run =
     (let (acts, loaded) = loadPinnedOrLatestDef E run in
      case loaded of
        Ok wfDef \<Rightarrow> (acts, EffectiveDef wfDef run)
      | Err e \<Rightarrow> (acts, Err (if IsTerminal (wr_Status run) \<and> isDefUnresolvable e then TerminalRunDefGone else e))
      | Panic p \<Rightarrow> (acts, Panic p))"

section \<open>Snapshots\<close>

definition settleFinishedSteps :: "engine \<Rightarrow> WorkflowRun \<Rightarrow> WorkflowRun handler" where
  "settleFinishedSteps E run =
     (let due = map fst (filter (\<lambda>(sid, state). ss_HasInputs state \<and>
                                   (stepFinished state \<or> IsTerminal (wr_Status run))) (wr_Steps run));
          swept = filter (en_settles E) due
      in bind (emit (map (SettleInputs (wr_RunID run)) due)) (\<lambda>_.
           if swept = [] then ret run
           else
             let run = fold (\<lambda>sid run. set_step sid ((step_of (wr_Steps run) sid)\<lparr>ss_HasInputs := False\<rparr>) run)
                         swept run
             in bind (emit [SaveRun run]) (\<lambda>_. ret run)))"

text \<open>The run as the caller sees it afterwards: the steps are a shared map.\<close>

definition saveSnapshot :: "engine \<Rightarrow> WorkflowRun \<Rightarrow> WorkflowRun handler" where
  "saveSnapshot E run =
     (if wr_RunID run = [] then lift (Panic ''saveSnapshot: RunID must not be empty'')
      else if en_saveFails E then raise SnapshotConflict
      else
        let run = run\<lparr>wr_Steps := stampTerminalSteps (en_now E) (wr_Steps run)\<rparr>
        in bind (emit [SaveRun run]) (\<lambda>_. settleFinishedSteps E run))"

section \<open>Notifications\<close>

definition publish_event :: "(engine_error, Event) res \<Rightarrow> unit handler" where
  "publish_event e = bind (lift e) (\<lambda>evt. emit [PublishEvent evt])"

definition notifyParentIfChild :: "engine \<Rightarrow> WorkflowRun \<Rightarrow> string option \<Rightarrow> unit handler" where
  "notifyParentIfChild E run childErr =
     (if wr_ParentRunID run = [] then ret ()
      else
        publish_event (NewStepEvent (en_now E)
          (if childErr = None then EventWorkflowChildCompleted else EventWorkflowChildFailed)
          (wr_ParentRunID run) (wr_ParentStepID run)
          (RJson (JObj [(''child_run_id'', JStr (wr_RunID run)),
                        (''error'', JStr (case childErr of None \<Rightarrow> [] | Some e \<Rightarrow> e)),
                        (''parent_step_id'', JStr (wr_ParentStepID run))]))))"

definition publishHistoryTerminalEvent :: "engine \<Rightarrow> RunStatus \<Rightarrow> string \<Rightarrow> unit handler" where
  "publishHistoryTerminalEvent E status runID =
     (case status of
        RunStatusCompleted \<Rightarrow> publish_event (NewWorkflowEvent (en_now E) EventWorkflowCompleted runID RNil)
      | RunStatusFailed \<Rightarrow> publish_event (NewWorkflowEvent (en_now E) EventWorkflowFailed runID RNil)
      | _ \<Rightarrow> ret ())"

definition publishRunEvent :: "WorkflowRun \<Rightarrow> unit handler" where
  "publishRunEvent run =
     bind (guard (wr_RunID run = []) ''publishRunEvent: RunID must not be empty'') (\<lambda>_.
     bind (guard (list_ex (\<lambda>c. c \<in> {CHR ''.'', CHR '' '', CHR 0x09, CHR ''*'', CHR ''>''}) (wr_RunID run))
             ''runEventSubject: runID must not contain NATS subject metacharacters'') (\<lambda>_.
     emit [PublishRunEvent run]))"

definition resolveDLQInput :: "WorkflowRun \<Rightarrow> WorkflowDef \<Rightarrow> StepDef \<Rightarrow> (marshal_error, raw) res" where
  "resolveDLQInput run wfDef stepDef =
     (let or_null = (\<lambda>r. if raw_empty r then RJson JNull else r) in
      if wd_Name wfDef = [] then Ok (or_null (wr_Input run))
      else and_then (ResolveInput stepDef (wr_Steps run) [wr_Input run]) (\<lambda>input. Ok (or_null input)))"

definition buildDLQBody :: "WorkflowRun \<Rightarrow> WorkflowDef \<Rightarrow> StepDef \<Rightarrow> StepState \<Rightarrow> (marshal_error, TaskPayload) res" where
  "buildDLQBody run wfDef stepDef state =
     and_then (resolveDLQInput run wfDef stepDef) (\<lambda>input.
       if \<not> raw_marshals input then Err (InvalidRawMessage (sd_ID stepDef))
       else Ok \<lparr>tp_TaskID = wr_RunID run @ ''.'' @ sd_ID stepDef, tp_RunID = wr_RunID run, tp_StepID = sd_ID stepDef,
          tp_Iteration = ss_Iterations state, tp_Attempt = ss_Attempts state, tp_Input = input,
          tp_Metadata = sd_Metadata stepDef, tp_RequiredCapabilities = [], tp_DispatchNonce = [],
          tp_WorkflowName = wd_Name wfDef, tp_State = RNil, tp_StateMaxBytes = 0, tp_AgentLoop = False\<rparr>)"

definition PublishDeadLetter :: "WorkflowRun \<Rightarrow> WorkflowDef \<Rightarrow> StepDef \<Rightarrow> StepState \<Rightarrow> unit handler" where
  "PublishDeadLetter run wfDef stepDef state =
     bind (guard (sd_ID stepDef = []) ''PublishDeadLetter: stepDef.ID must not be empty'') (\<lambda>_.
     bind (guard (wr_RunID run = []) ''PublishDeadLetter: run.RunID must not be empty'') (\<lambda>_.
       (case buildDLQBody run wfDef stepDef state of
          Ok body \<Rightarrow>
            emit [DeadLetter (''dead.'' @ sd_Task stepDef @ ''.'' @ wr_RunID run @ ''.'' @ sd_ID stepDef)
                    (''dlq:'' @ wr_RunID run @ '':'' @ sd_ID stepDef @ '':'' @ itoa (ss_Attempts state)) body
                    (ss_Error state)]
        | _ \<Rightarrow> ret ())))"

section \<open>The end of a run\<close>

definition finalizeWithReleaseDebt :: "engine \<Rightarrow> WorkflowRun \<Rightarrow> RunStatus \<Rightarrow> WorkflowRun handler" where
  "finalizeWithReleaseDebt E run status =
     bind (guard (wr_RunID run = []) ''finalizeWithReleaseDebt: run.RunID must not be empty'') (\<lambda>_.
     bind (guard (\<not> IsTerminal (wr_Status run)) ''saveReleaseDebt: run must already be terminal'') (\<lambda>_.
     bind (saveSnapshot E (run\<lparr>wr_ReleasePending := True\<rparr>)) (\<lambda>run.
     bind (emit [CreateActiveEntry (wr_RunID run)]) (\<lambda>_.
     bind (publishHistoryTerminalEvent E status (wr_RunID run)) (\<lambda>_.
     bind (publishRunEvent run) (\<lambda>_. ret run))))))"

definition finalizeRun :: "engine \<Rightarrow> WorkflowRun \<Rightarrow> RunStatus \<Rightarrow> action list \<Rightarrow> WorkflowRun handler" where
  "finalizeRun E run status afterPersist =
     (if IsTerminal (wr_Status run) \<and> wr_CompletedAt run \<noteq> None then ret run
      else
        bind (lift (markTerminal (en_now E) run status)) (\<lambda>run.
        bind (saveSnapshot E run) (\<lambda>run.
        bind (emit afterPersist) (\<lambda>_.
          if afterPersist \<noteq> [] \<and> en_releaseFails E then finalizeWithReleaseDebt E run status
          else
            bind (emit [DeleteActiveEntry (wr_RunID run)]) (\<lambda>_.
            bind (publishHistoryTerminalEvent E status (wr_RunID run)) (\<lambda>_.
            bind (publishRunEvent run) (\<lambda>_. ret run)))))))"

definition loadDef_or_zero :: "engine \<Rightarrow> string \<Rightarrow> (engine_error, WorkflowDef) res" where
  "loadDef_or_zero E workflowID =
     (case loadDef E workflowID of Ok d \<Rightarrow> Ok d | Err e \<Rightarrow> Ok zero_WorkflowDef | Panic p \<Rightarrow> Panic p)"

definition outputSchemaViolation :: "engine \<Rightarrow> WorkflowRun \<Rightarrow> (engine_error, (string \<times> schema_error) option) res" where
  "outputSchemaViolation E run =
     (if wr_RunID run = [] then Panic ''outputSchemaViolation: RunID must not be empty''
      else if wr_WorkflowID run = [] then Panic ''outputSchemaViolation: WorkflowID must not be empty''
      else
        (case loadDef E (wr_WorkflowID run) of
           Panic p \<Rightarrow> Panic p
         | Err e \<Rightarrow> Ok None
         | Ok wfDef \<Rightarrow>
             (case ValidateRunOutput wfDef (wr_Steps run) of
                (stepID, Err e) \<Rightarrow> Ok (Some (stepID, e))
              | (stepID, Ok u) \<Rightarrow> Ok None
              | (stepID, Panic p) \<Rightarrow> Panic p)))"

definition failWorkflow :: "engine \<Rightarrow> WorkflowRun \<Rightarrow> StepDef \<Rightarrow> StepState \<Rightarrow> unit handler" where
  "failWorkflow E run stepDef state =
     bind (finalizeRun E run RunStatusFailed [DeleteBinding (wr_RunID run), ReleaseAdmission run]) (\<lambda>run.
     bind (lift (loadDef_or_zero E (wr_WorkflowID run))) (\<lambda>wfDef.
     bind (if sd_Task stepDef \<noteq> [] then bind (lift (StepSubject (en_routes E) stepDef (wr_RunID run))) (\<lambda>_. ret ())
           else ret ()) (\<lambda>_.
     bind (PublishDeadLetter run wfDef stepDef state) (\<lambda>_.
       notifyParentIfChild E run (Some (ss_Error state))))))"

definition failOnOutputSchema :: "engine \<Rightarrow> WorkflowRun \<Rightarrow> string \<Rightarrow> schema_error \<Rightarrow> unit handler" where
  "failOnOutputSchema E run stepID violation =
     (if stepID = [] then lift (Panic ''failOnOutputSchema: stepID must not be empty'')
      else
        let state = (step_of (wr_Steps run) stepID)\<lparr>ss_Status := StepStatusFailed,
              ss_Error := en_schema_text E stepID violation\<rparr>
        in failWorkflow E (set_step stepID state run) (zero_StepDef\<lparr>sd_ID := stepID\<rparr>) state)"

definition completeWorkflow :: "engine \<Rightarrow> WorkflowRun \<Rightarrow> unit handler" where
  "completeWorkflow E run =
     (if wr_RunID run = [] then lift (Panic ''completeWorkflow: RunID must not be empty'')
      else
        bind (lift (outputSchemaViolation E run)) (\<lambda>violation.
          (case violation of
             Some (stepID, e) \<Rightarrow> failOnOutputSchema E run stepID e
           | None \<Rightarrow>
               bind (finalizeRun E run RunStatusCompleted [DeleteBinding (wr_RunID run), ReleaseAdmission run]) (\<lambda>run.
                 notifyParentIfChild E run None))))"

section \<open>Reasoning about traces\<close>

text \<open>The snapshot a trace leaves in the store.\<close>

definition next_run :: "WorkflowRun \<Rightarrow> action \<Rightarrow> WorkflowRun" where
  "next_run run a = (case a of SaveRun r \<Rightarrow> if wr_RunID r = wr_RunID run then r else run | _ \<Rightarrow> run)"

definition stored :: "WorkflowRun \<Rightarrow> action list \<Rightarrow> WorkflowRun" where
  "stored run acts = fold (\<lambda>a r. next_run r a) acts run"

lemma stored_simps [simp]:
  "stored r [] = r" "stored r (a # acts) = stored (next_run r a) acts" "stored r (as @ bs) = stored (stored r as) bs"
  by (simp_all add: stored_def)

text \<open>Every call is admissible for the snapshot that is stored when it is made.\<close>

fun allowed :: "(WorkflowRun \<Rightarrow> action \<Rightarrow> bool) \<Rightarrow> WorkflowRun \<Rightarrow> action list \<Rightarrow> bool" where
  "allowed ok r [] = True"
| "allowed ok r (a # acts) = (ok r a \<and> allowed ok (next_run r a) acts)"

lemma allowed_append [simp]: "allowed ok r (as @ bs) = (allowed ok r as \<and> allowed ok (stored r as) bs)"
  by (induction as arbitrary: r) auto

lemma allowed_mono: "allowed ok r acts \<Longrightarrow> (\<And>r a. ok r a \<Longrightarrow> ok' r a) \<Longrightarrow> allowed ok' r acts"
  by (induction acts arbitrary: r) auto

text \<open>A handler that starts with \<open>r\<close> stored makes admissible calls only, and when it returns a value that
  value and what is stored then are in \<open>Q\<close>.\<close>

definition sat :: "(WorkflowRun \<Rightarrow> action \<Rightarrow> bool) \<Rightarrow> WorkflowRun \<Rightarrow> 'a handler \<Rightarrow> (WorkflowRun \<Rightarrow> 'a \<Rightarrow> bool) \<Rightarrow> bool" where
  "sat ok r m Q = (allowed ok r (fst m) \<and> (\<forall>a. snd m = Ok a \<longrightarrow> Q (stored r (fst m)) a))"

named_theorems sat_intros \<open>rules for traces\<close>

lemma sat_ret [sat_intros]: "Q r a \<Longrightarrow> sat ok r (ret a) Q"
  by (simp add: sat_def ret_def)

lemma sat_raise [sat_intros]: "sat ok r (raise e) Q"
  by (simp add: sat_def raise_def)

lemma sat_panic [sat_intros]: "sat ok r (lift (Panic p)) Q"
  by (simp add: sat_def lift_def)

lemma sat_lift: "(\<And>a. x = Ok a \<Longrightarrow> Q r a) \<Longrightarrow> sat ok r (lift x) Q"
  by (simp add: sat_def lift_def)

lemma sat_emit: "allowed ok r acts \<Longrightarrow> Q (stored r acts) () \<Longrightarrow> sat ok r (emit acts) Q"
  by (simp add: sat_def emit_def)

lemma sat_guard: "(\<not> bad \<Longrightarrow> Q r ()) \<Longrightarrow> sat ok r (guard bad msg) Q"
  unfolding guard_def by (rule sat_lift) (simp add: panic_if_def split: if_splits)

lemma sat_bind:
  assumes "sat ok r m P" "\<And>r' a. P r' a \<Longrightarrow> sat ok r' (f a) Q"
  shows "sat ok r (bind m f) Q"
proof (cases m)
  case (Pair acts x)
  show ?thesis using assms by (cases x) (auto simp: sat_def Pair)
qed

lemma sat_bind_lift: "(\<And>a. x = Ok a \<Longrightarrow> sat ok r (f a) Q) \<Longrightarrow> sat ok r (bind (lift x) f) Q"
  by (rule sat_bind [OF sat_lift]) auto

lemma sat_bind_guard: "(\<not> bad \<Longrightarrow> sat ok r (f ()) Q) \<Longrightarrow> sat ok r (bind (guard bad msg) f) Q"
  by (rule sat_bind [OF sat_guard]) auto

lemma sat_bind_ret: "sat ok r (f a) Q \<Longrightarrow> sat ok r (bind (ret a) f) Q"
  by (simp add: ret_def sat_def)

lemma sat_bind_emit: "allowed ok r acts \<Longrightarrow> sat ok (stored r acts) (f ()) Q \<Longrightarrow> sat ok r (bind (emit acts) f) Q"
  by (simp add: emit_def sat_def)

lemma sat_weaken: "sat ok r m P \<Longrightarrow> (\<And>r' a. P r' a \<Longrightarrow> Q r' a) \<Longrightarrow> sat ok r m Q"
  by (auto simp: sat_def)

lemma sat_if [sat_intros]: "(c \<Longrightarrow> sat ok r m Q) \<Longrightarrow> (\<not> c \<Longrightarrow> sat ok r m' Q) \<Longrightarrow> sat ok r (if c then m else m') Q"
  by simp

lemma sat_let [sat_intros]: "(\<And>x. x = a \<Longrightarrow> sat ok r (f x) Q) \<Longrightarrow> sat ok r (let x = a in f x) Q"
  by simp

lemma sat_case_option [sat_intros]:
  "(x = None \<Longrightarrow> sat ok r m Q) \<Longrightarrow> (\<And>a. x = Some a \<Longrightarrow> sat ok r (f a) Q) \<Longrightarrow> sat ok r (case x of None \<Rightarrow> m | Some a \<Rightarrow> f a) Q"
  by (cases x) auto

lemma sat_case_prod [sat_intros]: "(\<And>a b. x = (a, b) \<Longrightarrow> sat ok r (f a b) Q) \<Longrightarrow> sat ok r (case x of (a, b) \<Rightarrow> f a b) Q"
  by (cases x) auto

lemma sat_case_res [sat_intros]:
  "(\<And>a. x = Ok a \<Longrightarrow> sat ok r (f a) Q) \<Longrightarrow> (\<And>e. x = Err e \<Longrightarrow> sat ok r (g e) Q) \<Longrightarrow> (\<And>p. x = Panic p \<Longrightarrow> sat ok r (h p) Q) \<Longrightarrow>
   sat ok r (case x of Ok a \<Rightarrow> f a | Err e \<Rightarrow> g e | Panic p \<Rightarrow> h p) Q"
  by (cases x) auto

text \<open>A call whose errors the caller handles: what it did stays.\<close>

lemma sat_cases:
  assumes "sat ok r m P"
    and "\<And>acts a r'. m = (acts, Ok a) \<Longrightarrow> allowed ok r acts \<Longrightarrow> r' = stored r acts \<Longrightarrow> P r' a \<Longrightarrow> sat ok r (f acts a) Q"
    and "\<And>acts e. m = (acts, Err e) \<Longrightarrow> allowed ok r acts \<Longrightarrow> sat ok r (g acts e) Q"
    and "\<And>acts p. m = (acts, Panic p) \<Longrightarrow> allowed ok r acts \<Longrightarrow> sat ok r (h acts p) Q"
  shows "sat ok r (case m of (acts, Ok a) \<Rightarrow> f acts a | (acts, Err e) \<Rightarrow> g acts e | (acts, Panic p) \<Rightarrow> h acts p) Q"
  using assms by (cases m; cases "snd m") (auto simp: sat_def)

lemma sat_pair_fail [sat_intros]:
  "allowed ok r acts \<Longrightarrow> sat ok r (acts, Err e) Q" "allowed ok r acts \<Longrightarrow> sat ok r (acts, Panic p) Q"
  by (simp_all add: sat_def)

lemma sat_pair_Ok: "allowed ok r acts \<Longrightarrow> Q (stored r acts) a \<Longrightarrow> sat ok r (acts, Ok a) Q"
  by (simp add: sat_def)

end
