(* ===== verification/Engine_Correlator.thy ===== *)
theory Engine_Correlator
  imports Engine_Trace
begin

text \<open>
  The event correlator (src/internal/engine/correlator.go): waiters stored in the bucket \<open>event_waiters\<close>, the index
  by event type that follows the bucket through a watch, and the matching of events. The updates the watch has not
  delivered yet are part of the state. Shown: however the operations interleave, the index agrees with the bucket once
  the watch has caught up, for event types and runs without a dot; a waiter of an event type with a dot stays in the
  index when its entry is deleted.
\<close>

section \<open>The correlator\<close>

datatype kv_update = KvPut string EventWaiter | KvDelete string

record correlator =
  co_kv :: "EventWaiter gomap"
  co_index :: "EventWaiter list gomap"
  co_updates :: "kv_update list"
  co_started :: bool

definition maxWaitersPerEventType :: nat where
  "maxWaitersPerEventType = 10000"

datatype waiter_error = TooManyWaiters string nat

definition waiter_key :: "EventWaiter \<Rightarrow> string" where
  "waiter_key w = ew_EventType w @ ''.'' @ ew_RunID w @ ''.'' @ ew_StepID w"

text \<open>Writes to the bucket; the watch delivers them in their order.\<close>

definition kv_write :: "string \<Rightarrow> EventWaiter \<Rightarrow> correlator \<Rightarrow> correlator" where
  "kv_write key w C = C\<lparr>co_kv := mput key w (co_kv C), co_updates := co_updates C @ [KvPut key w]\<rparr>"

definition kv_remove :: "string \<Rightarrow> correlator \<Rightarrow> correlator" where
  "kv_remove key C = C\<lparr>co_kv := mdel key (co_kv C), co_updates := co_updates C @ [KvDelete key]\<rparr>"

text \<open>A watch begins with the entries the bucket has.\<close>

definition Start :: "correlator \<Rightarrow> correlator" where
  "Start C = (if co_started C then C
     else C\<lparr>co_started := True, co_updates := map (\<lambda>(k, w). KvPut k w) (co_kv C)\<rparr>)"

definition AddWaiter_op :: "EventWaiter \<Rightarrow> correlator \<Rightarrow> correlator \<times> (waiter_error, unit) res" where
  "AddWaiter_op w C =
     (if ew_RunID w = [] then (C, Panic ''Correlator.AddWaiter: RunID must not be empty'')
      else if ew_StepID w = [] then (C, Panic ''Correlator.AddWaiter: StepID must not be empty'')
      else if ew_EventType w = [] then (C, Panic ''Correlator.AddWaiter: EventType must not be empty'')
      else
        let C = Start C;
            count = length (mget [] (co_index C) (ew_EventType w))
        in if count \<ge> maxWaitersPerEventType then (C, Err (TooManyWaiters (ew_EventType w) count))
           else (kv_write (waiter_key w) w C, Ok ()))"

definition RemoveWaitersForRun_op :: "string \<Rightarrow> correlator \<Rightarrow> (waiter_error, correlator) res" where
  "RemoveWaitersForRun_op runID C =
     (if runID = [] then Panic ''Correlator.RemoveWaitersForRun: runID must not be empty''
      else if \<not> co_started C then Ok C
      else
        let keysToDelete = concat (map (\<lambda>(eventType, waiters).
              map (\<lambda>w. eventType @ ''.'' @ ew_RunID w @ ''.'' @ ew_StepID w) (filter (\<lambda>w. ew_RunID w = runID) waiters)) (co_index C));
            index = map (\<lambda>(eventType, waiters). (eventType, filter (\<lambda>w. ew_RunID w \<noteq> runID) waiters)) (co_index C)
        in Ok (fold kv_remove keysToDelete (C\<lparr>co_index := index\<rparr>)))"

definition handleKVPut :: "EventWaiter \<Rightarrow> EventWaiter list gomap \<Rightarrow> EventWaiter list gomap" where
  "handleKVPut w index =
     (if ew_EventType w = [] then index
      else mput (ew_EventType w) (mget [] index (ew_EventType w) @ [w]) index)"

fun drop_waiter :: "string \<Rightarrow> string \<Rightarrow> EventWaiter list \<Rightarrow> EventWaiter list" where
  "drop_waiter runID stepID [] = []"
| "drop_waiter runID stepID (w # ws) =
     (if ew_RunID w = runID \<and> ew_StepID w = stepID then ws else w # drop_waiter runID stepID ws)"

definition handleKVDelete :: "string \<Rightarrow> EventWaiter list gomap \<Rightarrow> EventWaiter list gomap" where
  "handleKVDelete key index =
     (case split_n 3 (CHR ''.'') key of
        [eventType, runID, stepID] \<Rightarrow>
          if eventType \<in> mdom index then mput eventType (drop_waiter runID stepID (mget [] index eventType)) index else index
      | _ \<Rightarrow> index)"

fun apply_update :: "kv_update \<Rightarrow> EventWaiter list gomap \<Rightarrow> EventWaiter list gomap" where
  "apply_update (KvPut key w) index = handleKVPut w index"
| "apply_update (KvDelete key) index = handleKVDelete key index"

text \<open>One turn of the loop of \<open>processKVUpdates\<close>.\<close>

definition processKVUpdates :: "correlator \<Rightarrow> correlator" where
  "processKVUpdates C =
     (case co_updates C of
        [] \<Rightarrow> C
      | u # us \<Rightarrow> C\<lparr>co_index := apply_update u (co_index C), co_updates := us\<rparr>)"

section \<open>Matching\<close>

definition extractEventType :: "string \<Rightarrow> ('e, string) res" where
  "extractEventType subject =
     (if subject = [] then Panic ''extractEventType: subject must not be empty''
      else if \<not> has_prefix subject ''event.'' then Panic ''extractEventType: subject must start with event.''
      else Ok (drop 6 subject))"

definition publishMatchEvent :: "gotime \<Rightarrow> EventWaiter \<Rightarrow> raw \<Rightarrow> ('e, Event) res" where
  "publishMatchEvent now w eventData = NewStepEvent now EventStepWaitMatched (ew_RunID w) (ew_StepID w) eventData"

definition corr_publishCancelEvent :: "gotime \<Rightarrow> string \<Rightarrow> raw \<Rightarrow> ('e, Event) res" where
  "corr_publishCancelEvent now runID eventData = NewWorkflowEvent now EventWorkflowCancelled runID eventData"

text \<open>The events published, and the correlator after the entry is deleted.\<close>

definition evaluateWaiter ::
    "(rat \<Rightarrow> string) \<Rightarrow> gotime \<Rightarrow> EventWaiter \<Rightarrow> raw \<Rightarrow> correlator \<Rightarrow> (waiter_error, Event list \<times> correlator) res" where
  "evaluateWaiter ffmt now w eventData C =
     (if ew_RunID w = [] then Panic ''evaluateWaiter: RunID must not be empty''
      else if ew_StepID w = [] then Panic ''evaluateWaiter: StepID must not be empty''
      else
        (case ResolvedMatch_Evaluate ffmt (ew_Match w) eventData of
           Panic p \<Rightarrow> Panic p
         | Err e \<Rightarrow> Ok ([], C)
         | Ok matched \<Rightarrow>
             if \<not> matched then Ok ([], C)
             else
               and_then (if ew_Cancels w then corr_publishCancelEvent now (ew_RunID w) eventData
                         else publishMatchEvent now w eventData) (\<lambda>evt.
                 Ok ([evt], kv_remove (waiter_key w) C))))"

fun evaluate_all ::
    "(rat \<Rightarrow> string) \<Rightarrow> gotime \<Rightarrow> EventWaiter list \<Rightarrow> raw \<Rightarrow> correlator \<Rightarrow> (waiter_error, Event list \<times> correlator) res" where
  "evaluate_all ffmt now [] eventData C = Ok ([], C)"
| "evaluate_all ffmt now (w # ws) eventData C =
     and_then (evaluateWaiter ffmt now w eventData C) (\<lambda>(evts, C).
     and_then (evaluate_all ffmt now ws eventData C) (\<lambda>(evts', C). Ok (evts @ evts', C)))"

definition handleEventJS ::
    "(rat \<Rightarrow> string) \<Rightarrow> gotime \<Rightarrow> string \<Rightarrow> raw \<Rightarrow> correlator \<Rightarrow> (waiter_error, Event list \<times> correlator) res" where
  "handleEventJS ffmt now subject eventData C =
     (if raw_empty eventData then Panic ''Correlator.handleEventJS: msg.Data must not be empty''
      else
        and_then (extractEventType subject) (\<lambda>eventType.
          if eventType = [] then Ok ([], C)
          else evaluate_all ffmt now (mget [] (co_index C) eventType) eventData C))"

section \<open>The index and the bucket\<close>

text \<open>A waiter whose key splits into its parts: no dot in the event type and in the run.\<close>

definition plain_waiter :: "EventWaiter \<Rightarrow> bool" where
  "plain_waiter w \<longleftrightarrow> ew_EventType w \<noteq> [] \<and> CHR ''.'' \<notin> set (ew_EventType w) \<and> CHR ''.'' \<notin> set (ew_RunID w)"

lemma split_n_head: "c \<notin> set a \<Longrightarrow> split_n (Suc (Suc n)) c (a @ c # b) = a # split_n (Suc n) c b"
proof -
  assume "c \<notin> set a"
  then have "takeWhile (\<lambda>x. x \<noteq> c) (a @ c # b) = a" "dropWhile (\<lambda>x. x \<noteq> c) (a @ c # b) = c # b"
    by (induction a) auto
  then show ?thesis by (simp add: Let_def)
qed

lemma split_key: "plain_waiter w \<Longrightarrow> split_n 3 (CHR ''.'') (waiter_key w) = [ew_EventType w, ew_RunID w, ew_StepID w]"
  using split_n_head [of "CHR ''.''" "ew_EventType w" 1] split_n_head [of "CHR ''.''" "ew_RunID w" 0]
  by (simp add: waiter_key_def plain_waiter_def numeral_3_eq_3)

lemma key_inj:
  assumes "plain_waiter v" "plain_waiter w" "waiter_key v = waiter_key w"
  shows "ew_EventType v = ew_EventType w" "ew_RunID v = ew_RunID w" "ew_StepID v = ew_StepID w"
  using split_key [OF assms(1)] split_key [OF assms(2)] assms(3) by simp_all

definition members :: "EventWaiter list gomap \<Rightarrow> EventWaiter set" where
  "members index = {w. w \<in> set (mget [] index (ew_EventType w))}"

text \<open>Every waiter is filed under its event type, and no key twice.\<close>

definition filed :: "EventWaiter list gomap \<Rightarrow> bool" where
  "filed index \<longleftrightarrow> (\<forall>t. (\<forall>w \<in> set (mget [] index t). ew_EventType w = t \<and> plain_waiter w) \<and> distinct (map waiter_key (mget [] index t)))"

lemma filed_in: "filed index \<Longrightarrow> w \<in> set (mget [] index t) \<Longrightarrow> w \<in> members index \<and> ew_EventType w = t \<and> plain_waiter w"
  by (auto simp: filed_def members_def)

lemma members_plain: "filed index \<Longrightarrow> w \<in> members index \<Longrightarrow> plain_waiter w"
  by (auto simp: filed_def members_def)

lemma members_key_inj:
  assumes "filed index" "v \<in> members index" "w \<in> members index" "waiter_key v = waiter_key w" shows "v = w"
proof -
  have t: "ew_EventType v = ew_EventType w" using key_inj(1) assms members_plain by blast
  then have "v \<in> set (mget [] index (ew_EventType w))" "w \<in> set (mget [] index (ew_EventType w))"
    using assms(2,3) by (auto simp: members_def)
  moreover have "inj_on waiter_key (set (mget [] index (ew_EventType w)))"
    using assms(1) by (simp add: filed_def distinct_map)
  ultimately show ?thesis using assms(4) by (auto dest: inj_onD)
qed

lemma put_members:
  assumes "filed index" "plain_waiter w" "waiter_key w \<notin> waiter_key ` members index"
  shows "filed (handleKVPut w index)" "members (handleKVPut w index) = insert w (members index)"
proof -
  have new: "waiter_key w \<notin> waiter_key ` set (mget [] index (ew_EventType w))"
    using assms(3) filed_in [OF assms(1)] by blast
  have get: "mget [] (handleKVPut w index) t = (if t = ew_EventType w then mget [] index t @ [w] else mget [] index t)" for t
    using assms(2) by (simp add: handleKVPut_def map_simps plain_waiter_def)
  have "distinct (map waiter_key (mget [] (handleKVPut w index) t))" for t
    using assms(1) new by (simp add: get filed_def)
  moreover have "ew_EventType v = t \<and> plain_waiter v" if "v \<in> set (mget [] (handleKVPut w index) t)" for v t
    using that assms(2) filed_in [OF assms(1), of v t] by (auto simp: get split: if_splits)
  ultimately show "filed (handleKVPut w index)" by (simp add: filed_def)
  show "members (handleKVPut w index) = insert w (members index)"
    unfolding members_def get by auto
qed

lemma drop_waiter_key:
  assumes "plain_waiter w" "\<forall>v \<in> set ws. ew_EventType v = ew_EventType w \<and> plain_waiter v" "distinct (map waiter_key ws)"
  shows "drop_waiter (ew_RunID w) (ew_StepID w) ws = filter (\<lambda>v. waiter_key v \<noteq> waiter_key w) ws"
  using assms(2,3)
proof (induction ws)
  case (Cons v ws)
  have v: "ew_EventType v = ew_EventType w" "plain_waiter v" using Cons.prems(1) by simp_all
  have "ew_RunID v = ew_RunID w \<Longrightarrow> ew_StepID v = ew_StepID w \<Longrightarrow> waiter_key v = waiter_key w"
    unfolding waiter_key_def v(1) by simp
  then have "ew_RunID v = ew_RunID w \<and> ew_StepID v = ew_StepID w \<longleftrightarrow> waiter_key v = waiter_key w"
    using key_inj(2,3) [OF v(2) assms(1)] by blast
  moreover have "filter (\<lambda>u. waiter_key u \<noteq> waiter_key v) ws = ws"
    unfolding filter_id_conv using Cons.prems(2) by (metis distinct.simps(2) image_eqI list.set_map list.simps(9))
  moreover have "drop_waiter (ew_RunID w) (ew_StepID w) ws = filter (\<lambda>v. waiter_key v \<noteq> waiter_key w) ws"
    by (rule Cons.IH) (use Cons.prems in simp_all)
  ultimately show ?case by (cases "waiter_key v = waiter_key w") auto
qed simp

lemma delete_members:
  assumes "filed index" "plain_waiter w"
  shows "filed (handleKVDelete (waiter_key w) index)"
    "members (handleKVDelete (waiter_key w) index) = {v \<in> members index. waiter_key v \<noteq> waiter_key w}"
proof -
  let ?ws = "mget [] index (ew_EventType w)"
  have ws: "drop_waiter (ew_RunID w) (ew_StepID w) ?ws = filter (\<lambda>v. waiter_key v \<noteq> waiter_key w) ?ws"
    by (rule drop_waiter_key) (use assms in \<open>auto simp: filed_def\<close>)
  have get: "mget [] (handleKVDelete (waiter_key w) index) t =
      (if t = ew_EventType w then filter (\<lambda>v. waiter_key v \<noteq> waiter_key w) ?ws else mget [] index t)" for t
    by (cases "ew_EventType w \<in> mdom index") (auto simp: handleKVDelete_def split_key [OF assms(2)] ws map_simps)
  have other: "waiter_key v \<noteq> waiter_key w" if "v \<in> set (mget [] index t)" "t \<noteq> ew_EventType w" for v t
    using that filed_in [OF assms(1)] key_inj(1) [OF _ assms(2)] by blast
  have "distinct (map waiter_key (mget [] (handleKVDelete (waiter_key w) index) t))" for t
    using assms(1) by (simp add: get filed_def distinct_map_filter)
  moreover have "ew_EventType v = t \<and> plain_waiter v" if "v \<in> set (mget [] (handleKVDelete (waiter_key w) index) t)" for v t
    using that filed_in [OF assms(1), of v t] by (auto simp: get split: if_splits)
  ultimately show "filed (handleKVDelete (waiter_key w) index)" by (simp add: filed_def)
  show "members (handleKVDelete (waiter_key w) index) = {v \<in> members index. waiter_key v \<noteq> waiter_key w}"
    unfolding members_def get using other by auto
qed

text \<open>The index follows: once the pending updates are applied it has the waiters of the bucket.\<close>

fun follows :: "EventWaiter list gomap \<Rightarrow> kv_update list \<Rightarrow> (string \<Rightarrow> EventWaiter option) \<Rightarrow> bool" where
  "follows index [] kv = (filed index \<and> (\<forall>w. w \<in> members index \<longleftrightarrow> kv (waiter_key w) = Some w))"
| "follows index (u # us) kv = (filed index \<and>
     (case u of KvPut key w \<Rightarrow> key = waiter_key w \<and> plain_waiter w \<and> waiter_key w \<notin> waiter_key ` members index
      | KvDelete key \<Rightarrow> (\<exists>w. plain_waiter w \<and> key = waiter_key w)) \<and> follows (apply_update u index) us kv)"

lemma follows_filed: "follows index us kv \<Longrightarrow> filed index"
  by (cases us) auto

lemma follows_put:
  assumes "follows index us kv" "plain_waiter w" "kv (waiter_key w) = None" "\<And>k v. kv k = Some v \<Longrightarrow> k = waiter_key v"
  shows "follows index (us @ [KvPut (waiter_key w) w]) (kv(waiter_key w \<mapsto> w))"
  using assms(1)
proof (induction us arbitrary: index)
  case Nil
  have new: "waiter_key w \<notin> waiter_key ` members index" using Nil assms(3) by auto
  then show ?case using Nil put_members [OF _ assms(2) new] assms(2,3) by (auto simp: image_iff)
qed (auto split: kv_update.splits)

lemma follows_delete:
  assumes "follows index us kv" "plain_waiter w"
  shows "follows index (us @ [KvDelete (waiter_key w)]) (kv(waiter_key w := None))"
  using assms(1)
proof (induction us arbitrary: index)
  case Nil
  then show ?case using delete_members [OF _ assms(2)] assms(2) by auto
qed (auto split: kv_update.splits)

text \<open>Taking waiters out of the index ahead of the watch is harmless when their keys are deleted afterwards.\<close>

definition without :: "string set \<Rightarrow> (string \<Rightarrow> EventWaiter option) \<Rightarrow> string \<Rightarrow> EventWaiter option" where
  "without ks kv = (\<lambda>k. if k \<in> ks then None else kv k)"

lemma follows_ahead:
  assumes "follows index us kv" "filed index'" "members index' = {w \<in> members index. waiter_key w \<notin> gone}" "gone \<subseteq> ks"
  shows "\<exists>kv'. follows index' us kv' \<and> without ks kv' = without ks kv"
  using assms
proof (induction us arbitrary: index index' gone)
  case Nil
  let ?kv = "without gone kv"
  have "follows index' [] ?kv" using Nil by (auto simp: without_def)
  moreover have "without ks ?kv = without ks kv" using Nil.prems(4) by (auto simp: without_def fun_eq_iff)
  ultimately show ?case by blast
next
  case (Cons u us)
  note f = follows_filed [OF Cons.prems(1)]
  show ?case
  proof (cases u)
    case (KvPut key w)
    with Cons.prems(1) have w: "key = waiter_key w" "plain_waiter w" "waiter_key w \<notin> waiter_key ` members index"
      and rest: "follows (handleKVPut w index) us kv" by auto
    have new: "waiter_key w \<notin> waiter_key ` members index'" using w(3) Cons.prems(3) by auto
    have "members (handleKVPut w index') = {v \<in> members (handleKVPut w index). waiter_key v \<notin> gone - {waiter_key w}}"
      using put_members(2) [OF Cons.prems(2) w(2) new] put_members(2) [OF f w(2,3)] Cons.prems(3) w(3) by (auto simp: image_iff)
    from Cons.IH [OF rest put_members(1) [OF Cons.prems(2) w(2) new] this] Cons.prems(4)
    show ?thesis using KvPut w new Cons.prems(2) by auto
  next
    case (KvDelete key)
    with Cons.prems(1) obtain w where w: "plain_waiter w" "key = waiter_key w"
      and rest: "follows (handleKVDelete key index) us kv" by auto
    have "members (handleKVDelete key index') = {v \<in> members (handleKVDelete key index). waiter_key v \<notin> gone}"
      using delete_members(2) [OF Cons.prems(2) w(1)] delete_members(2) [OF f w(1)] Cons.prems(3) w(2) by auto
    from Cons.IH [OF rest _ this Cons.prems(4)] delete_members(1) [OF Cons.prems(2) w(1)]
    show ?thesis using KvDelete w Cons.prems(2) by auto
  qed
qed

lemma follows_deletes:
  assumes "follows index us kv" "\<forall>k \<in> set ks. \<exists>w. plain_waiter w \<and> k = waiter_key w"
  shows "follows index (us @ map KvDelete ks) (without (set ks) kv)"
  using assms
proof (induction ks arbitrary: us kv)
  case (Cons k ks)
  then obtain w where w: "plain_waiter w" "k = waiter_key w" by auto
  have "follows index ((us @ [KvDelete k]) @ map KvDelete ks) (without (set ks) (kv(k := None)))"
    unfolding w(2) by (rule Cons.IH [OF follows_delete [OF Cons.prems(1) w(1)]]) (use Cons.prems(2) in simp)
  moreover have "without (set ks) (kv(k := None)) = without (set (k # ks)) kv" by (auto simp: without_def fun_eq_iff)
  ultimately show ?case by simp
qed (simp add: without_def)

section \<open>Interleavings\<close>

text \<open>What may happen next: a waiter is added that the bucket does not have, the waiters of a run are removed, the watch
  delivers an update, a waiter of an earlier copy of the index is evaluated.\<close>

inductive correlates :: "correlator \<Rightarrow> correlator \<Rightarrow> bool" where
  add: "AddWaiter_op w C = (C', Ok ()) \<Longrightarrow> plain_waiter w \<Longrightarrow> waiter_key w \<notin> mdom (co_kv C) \<Longrightarrow> correlates C C'"
| remove: "RemoveWaitersForRun_op runID C = Ok C' \<Longrightarrow> correlates C C'"
| watch: "co_started C \<Longrightarrow> correlates C (processKVUpdates C)"
| evaluate: "co_started C \<Longrightarrow> plain_waiter w \<Longrightarrow> evaluateWaiter ffmt now w eventData C = Ok (evts, C') \<Longrightarrow> correlates C C'"

definition tracks :: "correlator \<Rightarrow> bool" where
  "tracks C \<longleftrightarrow> distinct (map fst (co_kv C)) \<and> distinct (map fst (co_index C))
     \<and> (\<forall>k w. map_of (co_kv C) k = Some w \<longrightarrow> k = waiter_key w \<and> plain_waiter w)
     \<and> (if co_started C then follows (co_index C) (co_updates C) (map_of (co_kv C)) else co_index C = [])"

lemma follows_initial:
  assumes "distinct (map fst kv)" "\<forall>k w. map_of kv k = Some w \<longrightarrow> k = waiter_key w \<and> plain_waiter w"
  shows "follows [] (map (\<lambda>(k, w). KvPut k w) kv) (map_of kv)"
  using assms
proof (induction kv rule: rev_induct)
  case Nil
  show ?case by (simp add: filed_def members_def map_simps)
next
  case (snoc e kv)
  obtain k w where e: "e = (k, w)" by (cases e)
  have fresh: "map_of kv k = None" using snoc.prems(1) by (auto simp: e map_of_eq_None_iff)
  have m: "map_of (kv @ [e]) = (map_of kv)(k \<mapsto> w)" using fresh by (auto simp: e map_add_def fun_eq_iff split: option.split)
  have "map_of (kv @ [e]) k = Some w" by (simp only: m fun_upd_same)
  then have w: "k = waiter_key w" "plain_waiter w" using snoc.prems(2) by blast+
  have kv: "\<forall>k w. map_of kv k = Some w \<longrightarrow> k = waiter_key w \<and> plain_waiter w"
  proof (intro allI impI)
    fix k' w' assume k': "map_of kv k' = Some w'"
    then have "map_of (kv @ [e]) k' = Some w'" using fresh unfolding m by auto
    then show "k' = waiter_key w' \<and> plain_waiter w'" using snoc.prems(2) by blast
  qed
  have "follows [] (map (\<lambda>(k, w). KvPut k w) kv) (map_of kv)" by (rule snoc.IH) (use snoc.prems(1) kv in simp_all)
  from follows_put [OF this w(2)] fresh kv show ?case unfolding m by (simp add: e w(1) fun_upd_def)
qed

lemma tracks_Start: "tracks C \<Longrightarrow> tracks (Start C) \<and> co_started (Start C) \<and> co_kv (Start C) = co_kv C"
  by (cases "co_started C") (auto simp: Start_def tracks_def follows_initial)

lemma tracks_add:
  assumes "tracks C" "AddWaiter_op w C = (C', Ok ())" "plain_waiter w" "waiter_key w \<notin> mdom (co_kv C)"
  shows "tracks C'"
proof -
  note S = tracks_Start [OF assms(1)]
  have C': "C' = kv_write (waiter_key w) w (Start C)"
    using assms(2) by (simp add: AddWaiter_op_def Let_def split: if_splits)
  have none: "map_of (co_kv (Start C)) (waiter_key w) = None" using assms(4) S by (simp add: map_of_eq_None_iff)
  have "follows (co_index (Start C)) (co_updates (Start C) @ [KvPut (waiter_key w) w]) ((map_of (co_kv (Start C)))(waiter_key w \<mapsto> w))"
    by (rule follows_put) (use S none assms(3) in \<open>auto simp: tracks_def\<close>)
  then show ?thesis using S assms(3)
    by (auto simp: tracks_def C' kv_write_def update_conv' distinct_update split: if_splits)
qed

lemma fold_kv_remove:
  "co_kv (fold kv_remove ks C) = fold mdel ks (co_kv C)" "co_updates (fold kv_remove ks C) = co_updates C @ map KvDelete ks"
  "co_index (fold kv_remove ks C) = co_index C" "co_started (fold kv_remove ks C) = co_started C"
  by (induction ks arbitrary: C) (simp_all add: kv_remove_def)

lemma fold_mdel:
  "map_of (fold mdel ks kv) = without (set ks) (map_of kv)" "distinct (map fst kv) \<Longrightarrow> distinct (map fst (fold mdel ks kv))"
  by (induction ks arbitrary: kv) (auto simp: without_def fun_eq_iff delete_conv' distinct_delete)

lemma tracks_deletes:
  assumes "tracks C" "co_started C" "filed index" "distinct (map fst index)"
    "members index = {w \<in> members (co_index C). waiter_key w \<notin> set ks}" "\<forall>k \<in> set ks. \<exists>w. plain_waiter w \<and> k = waiter_key w"
  shows "tracks (fold kv_remove ks (C\<lparr>co_index := index\<rparr>))"
proof -
  have f: "follows (co_index C) (co_updates C) (map_of (co_kv C))" using assms(1,2) by (simp add: tracks_def)
  obtain kv' where kv': "follows index (co_updates C) kv'" "without (set ks) kv' = without (set ks) (map_of (co_kv C))"
    using follows_ahead [OF f assms(3,5) subset_refl] by blast
  have "follows index (co_updates C @ map KvDelete ks) (without (set ks) (map_of (co_kv C)))"
    using follows_deletes [OF kv'(1) assms(6)] kv'(2) by simp
  then show ?thesis
    using assms(1,2,4) by (auto simp: tracks_def fold_kv_remove fold_mdel without_def split: if_splits)
qed

lemma tracks_remove:
  assumes "tracks C" "RemoveWaitersForRun_op runID C = Ok C'" shows "tracks C'"
proof (cases "co_started C")
  case True
  let ?out = "filter (\<lambda>w. ew_RunID w = runID)" and ?in = "filter (\<lambda>w. ew_RunID w \<noteq> runID)"
  define ks where "ks = concat (map (\<lambda>(t, ws). map (\<lambda>w. t @ ''.'' @ ew_RunID w @ ''.'' @ ew_StepID w) (?out ws)) (co_index C))"
  define index where "index = map (\<lambda>(t, ws). (t, ?in ws)) (co_index C)"
  have C': "C' = fold kv_remove ks (C\<lparr>co_index := index\<rparr>)"
    using assms(2) True by (simp add: RemoveWaitersForRun_op_def ks_def index_def split: if_splits)
  have f: "filed (co_index C)" and dist: "distinct (map fst (co_index C))"
    using assms(1) True follows_filed by (auto simp: tracks_def)
  have get: "mget [] index t = ?in (mget [] (co_index C) t)" for t
    using mget_map_snd [of ?in "[]" "co_index C" t] by (simp add: index_def)
  have entry: "mget [] (co_index C) t = ws" if "(t, ws) \<in> set (co_index C)" for t ws
    using that dist by (simp add: mget_def)
  have ks: "set ks = waiter_key ` {w \<in> members (co_index C). ew_RunID w = runID}"
  proof (intro equalityI subsetI)
    fix k assume "k \<in> set ks"
    then obtain t ws w where tw: "(t, ws) \<in> set (co_index C)" "w \<in> set ws" "ew_RunID w = runID" "k = t @ ''.'' @ ew_RunID w @ ''.'' @ ew_StepID w"
      by (auto simp: ks_def)
    then have "w \<in> set (mget [] (co_index C) t)" using entry by simp
    from filed_in [OF f this] show "k \<in> waiter_key ` {w \<in> members (co_index C). ew_RunID w = runID}"
      using tw(3,4) by (auto simp: waiter_key_def)
  next
    fix k assume "k \<in> waiter_key ` {w \<in> members (co_index C). ew_RunID w = runID}"
    then obtain w where w: "w \<in> set (mget [] (co_index C) (ew_EventType w))" "ew_RunID w = runID" "k = waiter_key w"
      by (auto simp: members_def)
    then have "(ew_EventType w, mget [] (co_index C) (ew_EventType w)) \<in> set (co_index C)"
      by (auto simp: mget_def split: option.splits dest: map_of_SomeD)
    then show "k \<in> set ks" using w by (force simp: ks_def waiter_key_def)
  qed
  have mem: "members index = {w \<in> members (co_index C). ew_RunID w \<noteq> runID}" by (auto simp: members_def get)
  have "waiter_key w \<notin> set ks \<longleftrightarrow> ew_RunID w \<noteq> runID" if "w \<in> members (co_index C)" for w
    using that ks key_inj(2) members_plain [OF f] by blast
  then have "members index = {w \<in> members (co_index C). waiter_key w \<notin> set ks}" using mem by auto
  moreover have "filed index" using f by (auto simp: filed_def get distinct_map_filter)
  moreover have "distinct (map fst index)" using dist by (simp add: index_def case_prod_beta comp_def)
  moreover have "\<forall>k \<in> set ks. \<exists>w. plain_waiter w \<and> k = waiter_key w" using ks members_plain [OF f] by blast
  ultimately show ?thesis unfolding C' by (intro tracks_deletes assms(1) True)
qed (use assms in \<open>auto simp: RemoveWaitersForRun_op_def split: if_splits\<close>)

lemma tracks_watch:
  assumes "tracks C" "co_started C" shows "tracks (processKVUpdates C)"
proof (cases "co_updates C")
  case (Cons u us)
  have "distinct (map fst (apply_update u (co_index C)))"
    using assms(1) by (cases u)
      (auto simp: tracks_def handleKVPut_def handleKVDelete_def distinct_update split: list.split)
  then show ?thesis using assms Cons by (simp add: tracks_def processKVUpdates_def)
qed (use assms in \<open>simp add: processKVUpdates_def\<close>)

lemma tracks_evaluate:
  assumes "tracks C" "co_started C" "plain_waiter w" "evaluateWaiter ffmt now w eventData C = Ok (evts, C')"
  shows "tracks C'"
proof -
  have "C' = C \<or> C' = kv_remove (waiter_key w) C"
    using assms(4) by (auto simp: evaluateWaiter_def res_simps split: if_splits res.splits)
  moreover have "follows (co_index C) (co_updates C @ [KvDelete (waiter_key w)]) ((map_of (co_kv C))(waiter_key w := None))"
    by (rule follows_delete) (use assms in \<open>simp_all add: tracks_def\<close>)
  ultimately show ?thesis
    using assms(1,2) by (auto simp: tracks_def kv_remove_def delete_conv' distinct_delete split: if_splits)
qed

definition new_correlator :: correlator where
  "new_correlator = \<lparr>co_kv = [], co_index = [], co_updates = [], co_started = False\<rparr>"

lemma correlates_tracks: "correlates\<^sup>*\<^sup>* new_correlator C \<Longrightarrow> tracks C"
proof (induction rule: rtranclp_induct)
  case base
  show ?case by (simp add: tracks_def new_correlator_def)
next
  case (step a b)
  from step.hyps(2) show ?case
    by cases (use step.IH tracks_add tracks_remove tracks_watch tracks_evaluate in blast)+
qed


definition order_waiter :: "string \<Rightarrow> EventWaiter" where
  "order_waiter t = \<lparr>ew_RunID = ''r'', ew_StepID = ''s'', ew_EventType = t,
     ew_Match = \<lparr>rm_Left = ''id'', rm_Op = ''eq'', rm_Right = AInt 1\<rparr>, ew_Cancels = False\<rparr>"

definition waiting_correlator :: correlator where
  "waiting_correlator = processKVUpdates (fst (AddWaiter_op (order_waiter ''paid'') new_correlator))"

lemma waiting_added: "AddWaiter_op (order_waiter ''paid'') new_correlator = (fst (AddWaiter_op (order_waiter ''paid'') new_correlator), Ok ())"
  by (simp add: AddWaiter_op_def order_waiter_def new_correlator_def Start_def Let_def map_simps maxWaitersPerEventType_def)

lemma waiting_reached:
  "correlates\<^sup>*\<^sup>* new_correlator waiting_correlator" "co_started waiting_correlator" "co_updates waiting_correlator = []"
  "map_of (co_kv waiting_correlator) (waiter_key (order_waiter ''paid'')) = Some (order_waiter ''paid'')"
proof -
  have w: "plain_waiter (order_waiter ''paid'')" by (simp add: plain_waiter_def order_waiter_def)
  have "correlates new_correlator (fst (AddWaiter_op (order_waiter ''paid'') new_correlator))"
    by (rule add [OF waiting_added w]) (simp add: new_correlator_def)
  moreover have s: "co_started (fst (AddWaiter_op (order_waiter ''paid'') new_correlator))" by code_simp
  ultimately show "correlates\<^sup>*\<^sup>* new_correlator waiting_correlator"
    unfolding waiting_correlator_def by (meson watch r_into_rtranclp rtranclp.rtrancl_into_rtrancl)
  show "co_started waiting_correlator" "co_updates waiting_correlator = []"
    "map_of (co_kv waiting_correlator) (waiter_key (order_waiter ''paid'')) = Some (order_waiter ''paid'')"
    by code_simp+
qed


section \<open>Event types with a dot\<close>

text \<open>C36: A waiter of an event type with a dot, such as payment.completed, is not taken out of the index when its entry is
  deleted, so every later event of that type that matches it is published to its run again.\<close>

theorem dotted_waiter_stays:
  assumes "CHR ''.'' \<in> set (ew_EventType w)"
  shows "mget [] (handleKVDelete (waiter_key w) index) (ew_EventType w) = mget [] index (ew_EventType w)"
proof -
  have "t \<noteq> ew_EventType w" if "split_n 3 (CHR ''.'') (waiter_key w) = [t, runID, stepID]" for t runID stepID
  proof -
    have "t = takeWhile (\<lambda>x. x \<noteq> CHR ''.'') (waiter_key w)"
      using that by (simp add: numeral_3_eq_3 Let_def split: list.splits)
    then have "CHR ''.'' \<notin> set t" using set_takeWhileD by fastforce
    then show ?thesis using assms by auto
  qed
  then show ?thesis by (auto simp: handleKVDelete_def map_simps split: list.split)
qed

theorem dotted_waiter_stays_witness:
  "mget [] (handleKVDelete (waiter_key (order_waiter ''payment.completed'')) [(''payment.completed'', [order_waiter ''payment.completed''])])
     ''payment.completed'' = [order_waiter ''payment.completed'']"
  using dotted_waiter_stays [of "order_waiter ''payment.completed''" "[(''payment.completed'', [order_waiter ''payment.completed''])]"]
  by (simp add: order_waiter_def map_simps)

end
