(* ===== verification/Engine_Dispatch.thy ===== *)
theory Engine_Dispatch
  imports Engine_Trace
begin

text \<open>
  Dispatching ready steps (src/internal/engine/orchestrator.go, \<open>enqueueReady\<close> and what it calls, with the
  planners of the step kinds in map_handlers.go, sleep_handlers.go, wait_handlers.go, spawn_handlers.go,
  approval.go and respond_step.go, and \<open>PublishBatch\<close> of task_publisher.go): resolve, plan, save once, send,
  mark as sent.
\<close>

section \<open>Ready steps\<close>

text \<open>The run with its skipped steps marked, the steps to dispatch, and whether nothing more is to be done.\<close>

definition cap_ready :: "WorkflowDef \<Rightarrow> WorkflowRun \<Rightarrow> StepDef list \<Rightarrow> StepDef list \<times> bool" where
  "cap_ready wfDef run ready =
     (case wd_Concurrency wfDef of
        None \<Rightarrow> (ready, False)
      | Some c \<Rightarrow>
          if cl_MaxSteps c > 0 then
            let available = cl_MaxSteps c - countActiveSteps run
            in if available \<le> 0 then ([], True) else (take (nat available) ready, False)
          else (ready, False))"

definition resolveReadySteps :: "engine \<Rightarrow> WorkflowDef \<Rightarrow> WorkflowRun \<Rightarrow> (WorkflowRun \<times> StepDef list \<times> bool) handler" where
  "resolveReadySteps E wfDef run =
     (if wr_RunID run = [] then lift (Panic ''resolveReadySteps: RunID must not be empty'')
      else
        let queued = queuedSet run;
            skipped = ResolveSkipped wfDef (completedSet run) queued (wr_Steps run);
            run = fold (\<lambda>step. set_status StepStatusSkipped (sd_ID step)) skipped run
        in if skipped \<noteq> [] \<and> IsComplete wfDef (completedSet run)
           then bind (completeWorkflow E run) (\<lambda>_. ret (run, [], True))
           else
             let ready = filter (\<lambda>step. status_of run (sd_ID step) \<noteq> StepStatusSkipped)
                           (ResolveReady wfDef (completedSet run) queued);
                 (ready, finished) = cap_ready wfDef run ready
             in ret (run, ready, finished))"

section \<open>Planning a step\<close>

type_synonym effect = "WorkflowRun \<Rightarrow> unit handler"

text \<open>\<open>TaskPublisher.Publish\<close>: its own checks, then the call.\<close>

definition publish_task :: "StepDef \<Rightarrow> raw \<Rightarrow> WorkflowRun \<Rightarrow> string \<Rightarrow> string \<Rightarrow> unit handler" where
  "publish_task step input run workflowName nonce =
     bind (guard (wr_RunID run = []) ''TaskPublisher.Publish: runID must not be empty'') (\<lambda>_.
     bind (guard (sd_ID step = []) ''TaskPublisher.Publish: step.ID must not be empty'') (\<lambda>_.
     emit [PublishTask step input run workflowName nonce]))"

definition resolve_input :: "StepDef \<Rightarrow> WorkflowRun \<Rightarrow> raw handler" where
  "resolve_input step run =
     lift (map_err (ResolveInputFailed (sd_ID step)) (ResolveInput step (wr_Steps run) [wr_Input run]))"

definition validateAndInitMapInstances :: "WorkflowRun \<Rightarrow> StepDef \<Rightarrow> json list \<Rightarrow> WorkflowRun handler" where
  "validateAndInitMapInstances run step items =
     (case ParseMapConfig step of
        Ok mapCfg \<Rightarrow>
          if int (length items) > mc_MaxItems mapCfg
          then raise (MapTooManyItems (sd_ID step) (length items) (mc_MaxItems mapCfg))
          else
            let state = step_of (wr_Steps run) (sd_ID step)
            in ret (set_step (sd_ID step) (state\<lparr>ss_Status := StepStatusRunning,
                 ss_MapInstances := replicate (length items) (zero_MapInstanceState\<lparr>mi_Status := StepStatusQueued\<rparr>)\<rparr>) run)
      | Err e \<Rightarrow> lift (Panic ''validateAndInitMapInstances'')
      | Panic p \<Rightarrow> lift (Panic p))"

fun publishMapTasks :: "engine \<Rightarrow> string \<Rightarrow> StepDef \<Rightarrow> nat \<Rightarrow> json list \<Rightarrow> WorkflowRun \<Rightarrow> unit handler" where
  "publishMapTasks E workflowName step i [] run = ret ()"
| "publishMapTasks E workflowName step i (item # items) run =
     (let instanceStep = step\<lparr>sd_ID := mapInstanceID (sd_ID step) i,
            sd_RequiredCapabilities := stripControlPlaneCapability (sd_RequiredCapabilities step)\<rparr>
      in bind (publish_task instanceStep (RJson item) run workflowName (en_nonce E (sd_ID instanceStep))) (\<lambda>_.
           publishMapTasks E workflowName step (Suc i) items run))"

text \<open>\<open>json.Unmarshal(output, &items)\<close> for a list of raw messages.\<close>

definition unmarshal_items :: "raw \<Rightarrow> json list option" where
  "unmarshal_items r = (case r of RJson (JArr js) \<Rightarrow> Some js | RJson JNull \<Rightarrow> Some [] | _ \<Rightarrow> None)"

definition planMapStep :: "engine \<Rightarrow> WorkflowDef \<Rightarrow> WorkflowRun \<Rightarrow> StepDef \<Rightarrow> (WorkflowRun \<times> effect) handler" where
  "planMapStep E wfDef run step =
     (if sd_Type step \<noteq> StepTypeMap then lift (Panic ''planMapStep: step is not a Map step'')
      else
        (case sd_DependsOn step of
           [dep] \<Rightarrow>
             (case unmarshal_items (ss_Output (step_of (wr_Steps run) dep)) of
                None \<Rightarrow> raise (MapNotArray (sd_ID step))
              | Some items \<Rightarrow>
                  bind (validateAndInitMapInstances run step items) (\<lambda>run.
                    ret (run, publishMapTasks E (wd_Name wfDef) step 0 items)))
         | _ \<Rightarrow> lift (Panic ''planMapStep: Map step must have exactly one dep'')))"

definition markSpawnedStep :: "WorkflowRun \<Rightarrow> StepDef \<Rightarrow> SubWorkflowConfig \<Rightarrow> string \<Rightarrow> WorkflowRun handler" where
  "markSpawnedStep run step cfg childRunID =
     (if childRunID = [] then lift (Panic ''markSpawnedStep: childRunID must not be empty'')
      else if sd_ID step = [] then lift (Panic ''markSpawnedStep: step.ID must not be empty'')
      else
        let state = (step_of (wr_Steps run) (sd_ID step))\<lparr>ss_ChildRunID := childRunID\<rparr>
        in ret (set_step (sd_ID step)
             (if sw_Detach cfg
              then state\<lparr>ss_Status := StepStatusCompleted,
                         ss_Output := RJson (JObj [(''child_run_id'', JStr childRunID)])\<rparr>
              else state\<lparr>ss_Status := StepStatusRunning\<rparr>) run))"

definition publishSpawnEvent :: "engine \<Rightarrow> StepDef \<Rightarrow> SubWorkflowConfig \<Rightarrow> raw \<Rightarrow> string \<Rightarrow> effect" where
  "publishSpawnEvent E step cfg input childRunID run =
     (case raw_json input of
        None \<Rightarrow> raise (ResolveInputFailed (sd_ID step) (InvalidRawMessage ''input''))
      | Some j \<Rightarrow>
          publish_event (NewStepEvent (en_now E) EventWorkflowSpawn (wr_RunID run) (sd_ID step)
            (RJson (JObj [(''child_run_id'', JStr childRunID), (''child_workflow'', JStr (sw_Workflow cfg)),
                          (''detach'', JBool (sw_Detach cfg)), (''input'', j),
                          (''parent_step_id'', JStr (sd_ID step))]))))"

definition planSubWorkflow :: "engine \<Rightarrow> WorkflowRun \<Rightarrow> StepDef \<Rightarrow> (WorkflowRun \<times> effect) handler" where
  "planSubWorkflow E run step =
     (if sd_Type step \<noteq> StepTypeSubWorkflow then lift (Panic ''planSubWorkflow: wrong step type'')
      else if wr_RunID run = [] then lift (Panic ''planSubWorkflow: RunID must not be empty'')
      else
        bind (lift (map_err (ConfigFailed (sd_ID step)) (ParseSubWorkflowConfig step))) (\<lambda>cfg.
        bind (resolve_input step run) (\<lambda>input.
        bind (markSpawnedStep run step cfg (en_childID E (sd_ID step))) (\<lambda>run.
          ret (run, publishSpawnEvent E step cfg input (en_childID E (sd_ID step)))))))"

definition sleep_fail :: "engine \<Rightarrow> WorkflowRun \<Rightarrow> StepDef \<Rightarrow> string \<Rightarrow> 'a handler" where
  "sleep_fail E run step reason =
     (if reason = [] then lift (Panic ''sleepHandler.failFinal: reason must not be empty'')
      else if wr_RunID run = [] then lift (Panic ''sleepHandler.fail: RunID must not be empty'')
      else if sd_ID step = [] then lift (Panic ''sleepHandler.fail: step.ID must not be empty'')
      else
        let state = (step_of (wr_Steps run) (sd_ID step))\<lparr>ss_Status := StepStatusFailed, ss_Error := reason\<rparr>
        in bind (failWorkflow E (set_step (sd_ID step) state run) step state) (\<lambda>_. raise RunFinalized))"

definition sendTimer :: "engine \<Rightarrow> string \<Rightarrow> duration \<Rightarrow> effect" where
  "sendTimer E stepID sleepFor run =
     bind (publish_event (NewStepEvent (en_now E) EventStepSleepStarted (wr_RunID run) stepID RNil)) (\<lambda>_.
       schedule (zero_TimerMessage\<lparr>tm_Action := TimerActionSleepComplete, tm_RunID := wr_RunID run,
         tm_StepID := stepID, tm_DurationMs := max (to_millis sleepFor) 1\<rparr>))"

definition sleep_plan :: "engine \<Rightarrow> WorkflowRun \<Rightarrow> StepDef \<Rightarrow> (WorkflowRun \<times> effect) handler" where
  "sleep_plan E run step =
     (if sd_Type step \<noteq> StepTypeSleep then lift (Panic ''sleepHandler.plan: step is not a Sleep step'')
      else if wr_RunID run = [] then lift (Panic ''sleepHandler.plan: RunID must not be empty'')
      else
        (case ParseSleepConfig step of
           Panic p \<Rightarrow> lift (Panic p)
         | Err e \<Rightarrow> sleep_fail E run step (en_sleep_text E (SleepConfigError e))
         | Ok cfg \<Rightarrow>
             (case ResolveSleepDuration (en_zone E) (en_rfc3339 E) cfg (wr_Input run) (en_now E) of
                Panic p \<Rightarrow> lift (Panic p)
              | Err e \<Rightarrow> sleep_fail E run step (en_sleep_text E e)
              | Ok sleepFor \<Rightarrow>
                  let state = (step_of (wr_Steps run) (sd_ID step))\<lparr>ss_Status := StepStatusRunning,
                        ss_WakeAt := Some (en_now E + sleepFor)\<rparr>
                  in ret (set_step (sd_ID step) state run, sendTimer E (sd_ID step) sleepFor))))"

definition resolveWaitMatch :: "Match \<Rightarrow> WorkflowRun \<Rightarrow> (path_error, ResolvedMatch) res" where
  "resolveWaitMatch m run =
     Match_Resolve m
       (Some (map (\<lambda>(sid, state). (sid, ss_Output state)) (filter (\<lambda>(sid, state). ss_Output state \<noteq> RNil) (wr_Steps run))))
       (wr_Input run)"

definition scheduleWaitTimeout :: "string \<Rightarrow> string \<Rightarrow> duration \<Rightarrow> unit handler" where
  "scheduleWaitTimeout runID stepID timeout =
     schedule (zero_TimerMessage\<lparr>tm_Action := TimerActionWaitTimeout, tm_RunID := runID, tm_StepID := stepID,
       tm_DurationMs := (if to_millis timeout \<le> 0 then 1 else to_millis timeout)\<rparr>)"

definition startWaitForEvent :: "engine \<Rightarrow> EventWaiter \<Rightarrow> duration \<Rightarrow> effect" where
  "startWaitForEvent E waiter timeout run =
     bind (publish_event (NewStepEvent (en_now E) EventStepWaitStarted (ew_RunID waiter) (ew_StepID waiter) RNil)) (\<lambda>_.
     bind (guard (\<not> en_correlator E \<or> ew_EventType waiter = []) ''Correlator.AddWaiter'') (\<lambda>_.
     bind (emit [AddWaiter waiter]) (\<lambda>_.
       scheduleWaitTimeout (ew_RunID waiter) (ew_StepID waiter) timeout)))"

definition waitForEventSend :: "engine \<Rightarrow> WorkflowRun \<Rightarrow> StepDef \<Rightarrow> effect handler" where
  "waitForEventSend E run step =
     (if sd_Type step \<noteq> StepTypeWaitForEvent then lift (Panic ''waitForEventSend: wrong step type'')
      else if wr_RunID run = [] then lift (Panic ''waitForEventSend: RunID must not be empty'')
      else
        bind (lift (map_err (ConfigFailed (sd_ID step)) (ParseWaitForEventConfig step))) (\<lambda>opts.
        bind (lift (map_err (MatchFailed (sd_ID step)) (resolveWaitMatch (wf_Match opts) run))) (\<lambda>m.
          let timeout = (case ss_StartedAt (step_of (wr_Steps run) (sd_ID step)) of
                           None \<Rightarrow> wf_Timeout opts
                         | Some t \<Rightarrow> wrap64 (wf_Timeout opts - time_since (en_now E) t));
              waiter = \<lparr>ew_RunID = wr_RunID run, ew_StepID = sd_ID step, ew_EventType = wf_Event opts,
                        ew_Match = m, ew_Cancels = False\<rparr>
          in ret (startWaitForEvent E waiter timeout))))"

definition planWaitForEventStep :: "engine \<Rightarrow> WorkflowRun \<Rightarrow> StepDef \<Rightarrow> (WorkflowRun \<times> effect) handler" where
  "planWaitForEventStep E run step =
     (if sd_Type step \<noteq> StepTypeWaitForEvent then lift (Panic ''planWaitForEventStep: wrong step type'')
      else if wr_RunID run = [] then lift (Panic ''planWaitForEventStep: RunID must not be empty'')
      else
        bind (waitForEventSend E run step) (\<lambda>effect.
          ret (set_status StepStatusRunning (sd_ID step) run, effect)))"

definition activate :: "engine \<Rightarrow> WorkflowRun \<Rightarrow> StepDef \<Rightarrow> ApprovalConfig \<Rightarrow> string \<Rightarrow> (WorkflowRun \<times> effect) handler" where
  "activate E run step cfg token =
     (if token = [] then lift (Panic ''activate: token must not be empty'')
      else if ap_Subject cfg = [] then lift (Panic ''activate: Subject must not be empty'')
      else
        let expiresAt = en_now E + ap_Timeout cfg
        in ret (set_status StepStatusRunning (sd_ID step) run,
             \<lambda>run.
               bind (emit [StoreToken (wr_RunID run) (sd_ID step) token (en_now E) expiresAt,
                           RequestApproval (wr_RunID run) (sd_ID step) cfg token expiresAt]) (\<lambda>_.
                 schedule (zero_TimerMessage\<lparr>tm_Action := TimerActionApprovalTimeout, tm_RunID := wr_RunID run,
                   tm_StepID := sd_ID step, tm_DurationMs := to_millis (ap_Timeout cfg)\<rparr>))))"

definition approval_Plan :: "engine \<Rightarrow> WorkflowRun \<Rightarrow> StepDef \<Rightarrow> (WorkflowRun \<times> effect) handler" where
  "approval_Plan E run step =
     (if \<not> en_approval E then raise ApprovalNotConfigured
      else if sd_Type step \<noteq> StepTypeApproval then lift (Panic ''Plan: wrong step type'')
      else if wr_RunID run = [] then lift (Panic ''Plan: RunID must not be empty'')
      else
        bind (lift (map_err (ConfigFailed (sd_ID step)) (ParseApprovalConfig step))) (\<lambda>cfg.
          if to_millis (ap_Timeout cfg) \<le> 0 then raise (ApprovalTimeout (ap_Timeout cfg))
          else activate E run step cfg (en_token E (sd_ID step))))"

definition respond_plan :: "engine \<Rightarrow> WorkflowRun \<Rightarrow> StepDef \<Rightarrow> (WorkflowRun \<times> effect) handler" where
  "respond_plan E run step =
     bind (lift (map_err RespondFailed (planRespondStep run step))) (\<lambda>(run, cfg, body).
       ret (run, \<lambda>run.
         bind (guard (rc_Status cfg = 0) ''publishRespondPayload: Status must be defaulted before publish'') (\<lambda>_.
         bind (emit [PublishResponse (wr_RunID run) cfg body]) (\<lambda>_.
           publish_event (NewStepEvent (en_now E) EventStepCompleted (wr_RunID run) (sd_ID step) body)))))"

text \<open>None: a normal task, published in one batch after the save.\<close>

definition planStep :: "engine \<Rightarrow> WorkflowDef \<Rightarrow> WorkflowRun \<Rightarrow> StepDef \<Rightarrow> (WorkflowRun \<times> effect option) handler" where
  "planStep E wfDef run step =
     (if sd_ID step = [] then lift (Panic ''planStep: step.ID must not be empty'')
      else
        let some = (\<lambda>p. bind p (\<lambda>(run, eff). ret (run, Some eff))) in
        (case sd_Type step of
           StepTypeSubWorkflow \<Rightarrow> some (planSubWorkflow E run step)
         | StepTypeMap \<Rightarrow> some (planMapStep E wfDef run step)
         | StepTypeSleep \<Rightarrow> some (sleep_plan E run step)
         | StepTypeWaitForEvent \<Rightarrow> some (planWaitForEventStep E run step)
         | StepTypeApproval \<Rightarrow> some (approval_Plan E run step)
         | StepTypeRespond \<Rightarrow> some (respond_plan E run step)
         | _ \<Rightarrow> ret (run, None)))"

section \<open>The plan of a dispatch\<close>

record dispatchPlan =
  dp_effects :: "(string \<times> effect) list"
  dp_normalSteps :: "StepDef list"
  dp_alreadySent :: "string list"
  dp_continueRun :: bool

definition empty_plan :: dispatchPlan where
  "empty_plan = \<lparr>dp_effects = [], dp_normalSteps = [], dp_alreadySent = [], dp_continueRun = False\<rparr>"

fun planDispatch :: "engine \<Rightarrow> WorkflowDef \<Rightarrow> WorkflowRun \<Rightarrow> StepDef list \<Rightarrow> dispatchPlan \<Rightarrow>
    (WorkflowRun \<times> dispatchPlan) handler" where
  "planDispatch E wfDef run [] plan = ret (run, plan)"
| "planDispatch E wfDef run (step # ready) plan =
     bind (planStep E wfDef run step) (\<lambda>(run, eff).
       planDispatch E wfDef run ready
         (case eff of
            None \<Rightarrow> plan\<lparr>dp_normalSteps := dp_normalSteps plan @ [step]\<rparr>
          | Some e \<Rightarrow>
              let plan = plan\<lparr>dp_effects := dp_effects plan @ [(sd_ID step, e)]\<rparr>
              in if sd_Type step = StepTypeSubWorkflow \<and> status_of run (sd_ID step) = StepStatusCompleted
                 then plan\<lparr>dp_continueRun := True\<rparr> else plan))"

text \<open>The steps whose effect succeeded, and the first error; an effect that fails does not keep the
  others from running.\<close>

fun run_effects :: "WorkflowRun \<Rightarrow> (string \<times> effect) list \<Rightarrow> (string list \<times> engine_error option) handler" where
  "run_effects run [] = ret ([], None)"
| "run_effects run ((sid, eff) # effs) =
     (case eff run of
        (acts, Ok u) \<Rightarrow>
          bind (emit acts) (\<lambda>_. bind (run_effects run effs) (\<lambda>(sent, err). ret (sid # sent, err)))
      | (acts, Err e) \<Rightarrow>
          bind (emit acts) (\<lambda>_. bind (run_effects run effs) (\<lambda>(sent, err). ret (sent, Some e)))
      | (acts, Panic p) \<Rightarrow> (acts, Panic p))"

fun PublishBatch :: "WorkflowRun \<Rightarrow> StepDef list \<Rightarrow> unit handler" where
  "PublishBatch run [] = ret ()"
| "PublishBatch run (step # ready) =
     bind (resolve_input step run) (\<lambda>input.
     bind (publish_task step input run (wr_WorkflowID run) (ss_DispatchNonce (step_of (wr_Steps run) (sd_ID step)))) (\<lambda>_.
       PublishBatch run ready))"

definition sendPlan :: "WorkflowRun \<Rightarrow> dispatchPlan \<Rightarrow> (string list \<times> engine_error option) handler" where
  "sendPlan run plan =
     bind (run_effects run (dp_effects plan)) (\<lambda>(sent, err).
       let sent = dp_alreadySent plan @ sent in
       if dp_normalSteps plan = [] then ret (sent, err)
       else
         (case PublishBatch run (dp_normalSteps plan) of
            (acts, Ok u) \<Rightarrow> bind (emit acts) (\<lambda>_. ret (sent @ map sd_ID (dp_normalSteps plan), err))
          | (acts, Err e) \<Rightarrow> bind (emit acts) (\<lambda>_. ret (sent, Some (case err of None \<Rightarrow> e | Some f \<Rightarrow> f)))
          | (acts, Panic p) \<Rightarrow> (acts, Panic p)))"

definition markSent :: "engine \<Rightarrow> WorkflowRun \<Rightarrow> string list \<Rightarrow> WorkflowRun handler" where
  "markSent E run sent =
     (if wr_RunID run = [] then lift (Panic ''markSent: RunID must not be empty'')
      else
        let nonces = fold (\<lambda>sid. mput sid (ss_DispatchNonce (step_of (wr_Steps run) sid))) sent [] in
        if length nonces > length (wr_Steps run) then lift (Panic ''clearUnsent: more sent steps than the run has'')
        else
          let (run, cleared) = clearUnsent nonces run
          in if cleared then saveSnapshot E run else ret run)"

definition publish_queued :: "engine \<Rightarrow> WorkflowRun \<Rightarrow> StepDef \<Rightarrow> unit handler" where
  "publish_queued E run step =
     (if sd_Type step \<noteq> StepTypeNormal \<and> sd_Type step \<noteq> StepTypeAgentLoop then ret ()
      else bind (lift (NewStepEvent (en_now E) EventStepQueued (wr_RunID run) (sd_ID step) RNil)) (\<lambda>evt.
        emit [PublishEvent (evt\<lparr>ev_AttemptNumber := 1\<rparr>)]))"

fun publishStepQueuedEvents :: "engine \<Rightarrow> WorkflowRun \<Rightarrow> StepDef list \<Rightarrow> unit handler" where
  "publishStepQueuedEvents E run [] = ret ()"
| "publishStepQueuedEvents E run (step # ready) =
     bind (publish_queued E run step) (\<lambda>_. publishStepQueuedEvents E run ready)"

text \<open>The loop of \<open>enqueueReady\<close> that stamps every ready step.\<close>

definition queue_step :: "engine \<Rightarrow> StepDef \<Rightarrow> WorkflowRun \<Rightarrow> WorkflowRun" where
  "queue_step E step run =
     (let state = (step_of (wr_Steps run) (sd_ID step))\<lparr>ss_Status := StepStatusQueued\<rparr>
      in set_step (sd_ID step)
           ((stampDispatch (en_now E) (en_nonce E (sd_ID step)) state)\<lparr>ss_DispatchUnsent := resendable (sd_Type step)\<rparr>) run)"

text \<open>\<open>runDispatchPlan\<close> up to the continuation of the run.\<close>

definition run_plan :: "engine \<Rightarrow> WorkflowRun \<Rightarrow> dispatchPlan \<Rightarrow> WorkflowRun handler" where
  "run_plan E run plan =
     bind (guard (wr_RunID run = []) ''runDispatchPlan: RunID must not be empty'') (\<lambda>_.
     bind (sendPlan run plan) (\<lambda>(sent, sendErr).
     bind (markSent E run sent) (\<lambda>run.
       (case sendErr of Some e \<Rightarrow> raise e | None \<Rightarrow> ret run))))"

text \<open>\<open>enqueueReady\<close> calls itself when a detached sub-workflow completed its step at dispatch; the first
  argument bounds how often.\<close>

fun enqueue_ready :: "nat \<Rightarrow> engine \<Rightarrow> WorkflowDef \<Rightarrow> WorkflowRun \<Rightarrow> unit handler" where
  "enqueue_ready 0 E wfDef run = raise OutOfFuel"
| "enqueue_ready (Suc n) E wfDef run =
     (if wr_RunID run = [] then lift (Panic ''enqueueReady: RunID must not be empty'')
      else
        bind (resolveReadySteps E wfDef run) (\<lambda>(run, ready, finished).
          if finished \<or> ready = [] then ret ()
          else
            (case planDispatch E wfDef (fold (queue_step E) ready run) ready empty_plan of
               (acts, Panic p) \<Rightarrow> (acts, Panic p)
             | (acts, Err e) \<Rightarrow> (acts, if e = RunFinalized then Ok () else Err e)
             | (acts, Ok (run, plan)) \<Rightarrow>
                 bind (emit acts) (\<lambda>_.
                 bind (saveSnapshot E run) (\<lambda>run.
                 bind (publishStepQueuedEvents E run ready) (\<lambda>_.
                 bind (run_plan E run plan) (\<lambda>run.
                   if \<not> dp_continueRun plan then ret ()
                   else if IsComplete wfDef (completedSet run) then completeWorkflow E run
                   else enqueue_ready n E wfDef run)))))))"

definition enqueueReady :: "engine \<Rightarrow> WorkflowDef \<Rightarrow> WorkflowRun \<Rightarrow> unit handler" where
  "enqueueReady E wfDef run = enqueue_ready (Suc (length (wd_Steps wfDef))) E wfDef run"

end
