(* ===== verification/Engine_Recovery.thy ===== *)
theory Engine_Recovery
  imports Engine_Dispatch
begin

text \<open>
  What the engine does when a step has failed for good: failure handlers, compensation chains and the
  failure of the run (src/internal/engine/recovery_manager.go), the failure of a map step
  (map_handlers.go), and the materialisation of a planner's output (planner.go), which fails or continues
  the run.
\<close>

section \<open>Recovery\<close>

definition releaseTaskSlot :: "engine \<Rightarrow> WorkflowDef \<Rightarrow> string \<Rightarrow> string \<Rightarrow> unit handler" where
  "releaseTaskSlot E wfDef runID stepID =
     (if runID = [] then lift (Panic ''releaseTaskSlot: runID must not be empty'')
      else if \<not> en_concurrency E then ret ()
      else
        (case findStepDef wfDef stepID of
           None \<Rightarrow> ret ()
         | Some stepDef \<Rightarrow>
             if sd_MaxTaskConcurrency stepDef \<le> 0 then ret ()
             else bind (lift (taskSlotHolder runID stepID)) (\<lambda>holder.
               emit [ReleaseTaskSlot (sd_Task stepDef) holder])))"

definition findCompensateSource :: "WorkflowDef \<Rightarrow> string \<Rightarrow> string" where
  "findCompensateSource wfDef compStepID =
     (case find (\<lambda>step. sd_Compensate step = compStepID) (wd_Steps wfDef) of None \<Rightarrow> [] | Some s \<Rightarrow> sd_ID s)"

text \<open>The subject of a dead letter is only built for a step with a task.\<close>

definition dead_letter :: "engine \<Rightarrow> WorkflowRun \<Rightarrow> WorkflowDef \<Rightarrow> StepDef \<Rightarrow> StepState \<Rightarrow> unit handler" where
  "dead_letter E run wfDef stepDef state =
     bind (if sd_Task stepDef \<noteq> [] then bind (lift (StepSubject (en_routes E) stepDef (wr_RunID run))) (\<lambda>_. ret ())
           else ret ()) (\<lambda>_.
       PublishDeadLetter run wfDef stepDef state)"

definition failAuxStep :: "engine \<Rightarrow> WorkflowRun \<Rightarrow> WorkflowDef \<Rightarrow> StepDef \<Rightarrow> StepState \<Rightarrow> unit handler" where
  "failAuxStep E run wfDef stepDef state =
     bind (guard (wr_RunID run = []) ''failAuxStep: RunID must not be empty'') (\<lambda>_.
     bind (guard (sd_ID stepDef = []) ''failAuxStep: stepDef.ID must not be empty'') (\<lambda>_.
     bind (finalizeRun E run RunStatusCompensateFailed [ReleaseAdmission run]) (\<lambda>run.
     bind (dead_letter E run wfDef stepDef state) (\<lambda>_.
       notifyParentIfChild E run (Some (''compensation failed: '' @ ss_Error state))))))"

text \<open>Queue a step and stamp its dispatch.\<close>

definition queue_stamped :: "engine \<Rightarrow> string \<Rightarrow> WorkflowRun \<Rightarrow> WorkflowRun" where
  "queue_stamped E sid run =
     set_step sid (stampDispatch (en_now E) (en_nonce E sid)
       ((step_of (wr_Steps run) sid)\<lparr>ss_Status := StepStatusQueued\<rparr>)) run"

text \<open>The failure handler's dispatch, shared by \<open>TryOnFailure\<close> and \<open>runMapOnFailure\<close>.\<close>

definition dispatch_handler :: "engine \<Rightarrow> WorkflowRun \<Rightarrow> StepDef \<Rightarrow> string \<Rightarrow> string \<Rightarrow> unit handler" where
  "dispatch_handler E run onFailStep failedID failedError =
     bind (saveSnapshot E (queue_stamped E (sd_ID onFailStep) run)) (\<lambda>run.
       publish_task onFailStep (en_failureInput E failedID failedError) run (wr_WorkflowID run)
         (en_nonce E (sd_ID onFailStep)))"

definition TryOnFailure :: "engine \<Rightarrow> WorkflowDef \<Rightarrow> WorkflowRun \<Rightarrow> StepDef \<Rightarrow> StepState \<Rightarrow> string \<Rightarrow> bool handler" where
  "TryOnFailure E wfDef run stepDef state stepID =
     (if sd_OnFailure stepDef = [] then lift (Panic ''TryOnFailure: OnFailure must not be empty'')
      else if stepID = [] then lift (Panic ''TryOnFailure: stepID must not be empty'')
      else
        (case findStepDef wfDef (sd_OnFailure stepDef) of
           None \<Rightarrow> ret False
         | Some onFailStep \<Rightarrow>
             bind (dispatch_handler E run onFailStep stepID (ss_Error state)) (\<lambda>_. ret True)))"

definition StartCompensation :: "engine \<Rightarrow> WorkflowDef \<Rightarrow> WorkflowRun \<Rightarrow> string \<Rightarrow> string \<Rightarrow> unit handler" where
  "StartCompensation E wfDef run failedStepID failedError =
     (case ResolveCompensateChain wfDef (completedSet run) failedStepID of
        [] \<Rightarrow> ret ()
      | first # rest \<Rightarrow>
          bind (saveSnapshot E (fold (\<lambda>step. queue_stamped E (sd_ID step)) (first # rest) run)) (\<lambda>run.
            let originalID = findCompensateSource wfDef (sd_ID first)
            in publish_task first
                 (en_compensateInput E originalID (ss_Output (step_of (wr_Steps run) originalID)) failedStepID failedError)
                 run (wr_WorkflowID run) (ss_DispatchNonce (step_of (wr_Steps run) (sd_ID first)))))"

definition HandlePermanentFailure ::
    "engine \<Rightarrow> WorkflowDef \<Rightarrow> WorkflowRun \<Rightarrow> StepDef \<Rightarrow> StepState \<Rightarrow> string \<Rightarrow> unit handler" where
  "HandlePermanentFailure E wfDef run stepDef state stepID =
     (if stepID = [] then lift (Panic ''HandlePermanentFailure: stepID must not be empty'')
      else if wr_RunID run = [] then lift (Panic ''HandlePermanentFailure: RunID must not be empty'')
      else
        bind (releaseTaskSlot E wfDef (wr_RunID run) stepID) (\<lambda>_.
          if bget (wd_AuxSteps wfDef) stepID then failAuxStep E run wfDef stepDef state
          else
            bind (if sd_OnFailure stepDef \<noteq> [] then TryOnFailure E wfDef run stepDef state stepID else ret False) (\<lambda>handled.
              if handled then ret ()
              else if ResolveCompensateChain wfDef (completedSet run) stepID \<noteq> []
              then StartCompensation E wfDef run stepID (ss_Error state)
              else failWorkflow E run stepDef state)))"

text \<open>\<open>HandleCompensateCompleted\<close> drops the errors of what it calls and goes on with the run it has.\<close>

fun ignore_error :: "'a \<Rightarrow> 'a handler \<Rightarrow> 'a handler" where
  "ignore_error a (acts, Err e) = (acts, Ok a)"
| "ignore_error a m = m"

text \<open>The run after the call, and whether the step was part of a compensation.\<close>

definition HandleCompensateCompleted ::
    "engine \<Rightarrow> WorkflowDef \<Rightarrow> WorkflowRun \<Rightarrow> string \<Rightarrow> (WorkflowRun \<times> bool) handler" where
  "HandleCompensateCompleted E wfDef run stepID =
     (if \<not> bget (wd_AuxSteps wfDef) stepID then ret (run, False)
      else if findCompensateSource wfDef stepID = [] then ret (run, False)
      else
        (case find (\<lambda>step. sd_Compensate step \<noteq> [] \<and> status_of run (sd_Compensate step) = StepStatusQueued)
                (wd_Steps wfDef) of
           Some step \<Rightarrow>
             let comp = sd_Compensate step;
                 (failedStepID, failedError) =
                   (case find (\<lambda>s. status_of run (sd_ID s) = StepStatusFailed) (wd_Steps wfDef) of
                      None \<Rightarrow> ([], [])
                    | Some s \<Rightarrow> (sd_ID s, ss_Error (step_of (wr_Steps run) (sd_ID s))));
                 input = en_compensateInput E (sd_ID step) (ss_Output (step_of (wr_Steps run) (sd_ID step)))
                           failedStepID failedError;
                 run = set_step comp (stampDispatch (en_now E) (en_nonce E comp) (step_of (wr_Steps run) comp)) run
             in bind (ignore_error run (saveSnapshot E run)) (\<lambda>run.
                bind (publish_task (step_def wfDef comp) input run (wr_WorkflowID run) (en_nonce E comp)) (\<lambda>_.
                  ret (run, True)))
         | None \<Rightarrow>
             bind (ignore_error run (finalizeRun E run RunStatusCompensated [ReleaseAdmission run])) (\<lambda>run.
               ret (run, True))))"

definition RecoverIfOnFailure :: "WorkflowDef \<Rightarrow> WorkflowRun \<Rightarrow> string \<Rightarrow> WorkflowRun" where
  "RecoverIfOnFailure wfDef run completedStepID =
     (case find (\<lambda>stepDef. sd_OnFailure stepDef = completedStepID \<and> status_of run (sd_ID stepDef) = StepStatusFailed)
             (wd_Steps wfDef) of
        None \<Rightarrow> run
      | Some stepDef \<Rightarrow>
          fold (\<lambda>s run. if sd_ID stepDef \<in> set (sd_DependsOn s) \<and> status_of run (sd_ID s) = StepStatusPending
                        then set_status StepStatusSkipped (sd_ID s) run else run)
            (wd_Steps wfDef) (set_status StepStatusRecovered (sd_ID stepDef) run))"

section \<open>Map steps\<close>

definition failMapStep :: "engine \<Rightarrow> WorkflowDef \<Rightarrow> WorkflowRun \<Rightarrow> string \<Rightarrow> StepState \<Rightarrow> unit handler" where
  "failMapStep E wfDef run baseID state =
     (let stepDef = step_def wfDef baseID in
      if sd_OnFailure stepDef \<noteq> [] then
        (case findStepDef wfDef (sd_OnFailure stepDef) of
           None \<Rightarrow> ret ()
         | Some onFailStep \<Rightarrow> dispatch_handler E run onFailStep baseID (ss_Error state))
      else
        bind (finalizeRun E run RunStatusFailed [ReleaseAdmission run]) (\<lambda>run.
        bind (dead_letter E run wfDef stepDef state) (\<lambda>_.
          notifyParentIfChild E run (Some (ss_Error state)))))"

text \<open>Complete the run when all its steps are resolved, else save and dispatch what became ready: how
  most handlers end.\<close>

definition continue_run :: "engine \<Rightarrow> WorkflowDef \<Rightarrow> WorkflowRun \<Rightarrow> unit handler" where
  "continue_run E wfDef run =
     (if IsComplete wfDef (completedSet run) then completeWorkflow E run
      else bind (saveSnapshot E run) (\<lambda>run. enqueueReady E wfDef run))"

text \<open>\<open>json.Marshal\<close> of a list of raw messages, a nil one as null.\<close>

fun marshal_items :: "raw list \<Rightarrow> json list option" where
  "marshal_items [] = Some []"
| "marshal_items (r # rs) =
     (case raw_json r of None \<Rightarrow> None | Some j \<Rightarrow> map_option ((#) j) (marshal_items rs))"

definition collectMapOutputs :: "engine \<Rightarrow> WorkflowDef \<Rightarrow> WorkflowRun \<Rightarrow> string \<Rightarrow> StepState \<Rightarrow> unit handler" where
  "collectMapOutputs E wfDef run baseID state =
     (case marshal_items (map mi_Output (ss_MapInstances state)) of
        None \<Rightarrow> raise (MapMarshal baseID)
      | Some js \<Rightarrow>
          continue_run E wfDef (set_step baseID (state\<lparr>ss_Status := StepStatusCompleted, ss_Output := RJson (JArr js)\<rparr>) run))"

definition in_range :: "int \<Rightarrow> 'a list \<Rightarrow> bool" where
  "in_range i xs = (0 \<le> i \<and> i < int (length xs))"

definition handleMapInstanceCompleted :: "engine \<Rightarrow> WorkflowDef \<Rightarrow> WorkflowRun \<Rightarrow> Event \<Rightarrow> unit handler" where
  "handleMapInstanceCompleted E wfDef run evt =
     bind (lift (parseMapInstanceID (ev_StepID evt))) (\<lambda>(baseID, idx).
       let state = step_of (wr_Steps run) baseID in
       if \<not> in_range idx (ss_MapInstances state) then raise (MapIndexRange idx baseID)
       else
         let insts = ss_MapInstances state;
             inst = (insts ! nat idx)\<lparr>mi_Status := StepStatusCompleted, mi_Output := ev_Payload evt\<rparr>;
             state = state\<lparr>ss_MapInstances := insts[nat idx := inst]\<rparr>;
             run = set_step baseID state run
         in if \<not> allMapInstancesDone (ss_MapInstances state)
            then bind (saveSnapshot E run) (\<lambda>_. ret ())
            else collectMapOutputs E wfDef run baseID state)"

definition handleMapInstanceFailed :: "engine \<Rightarrow> WorkflowDef \<Rightarrow> WorkflowRun \<Rightarrow> Event \<Rightarrow> unit handler" where
  "handleMapInstanceFailed E wfDef run evt =
     bind (lift (parseMapInstanceID (ev_StepID evt))) (\<lambda>(baseID, idx).
       let state = step_of (wr_Steps run) baseID in
       if \<not> in_range idx (ss_MapInstances state) then raise (MapIndexRange idx baseID)
       else
         let insts = ss_MapInstances state;
             inst = (insts ! nat idx)\<lparr>mi_Status := StepStatusFailed\<rparr>;
             inst = (if ev_Payload evt \<noteq> RNil then inst\<lparr>mi_Error := en_text E (ev_Payload evt)\<rparr> else inst);
             state = state\<lparr>ss_MapInstances := insts[nat idx := inst], ss_Status := StepStatusFailed,
                           ss_Error := ''map instance '' @ itoa idx @ '' failed: '' @ mi_Error inst\<rparr>
         in failMapStep E wfDef (set_step baseID state run) baseID state)"

section \<open>Planner steps\<close>

definition failPlannerStep :: "engine \<Rightarrow> WorkflowRun \<Rightarrow> StepDef \<Rightarrow> string \<Rightarrow> unit handler" where
  "failPlannerStep E run stepDef reason =
     (let state = (step_of (wr_Steps run) (sd_ID stepDef))\<lparr>ss_Status := StepStatusFailed, ss_Error := reason\<rparr>
      in failWorkflow E (set_step (sd_ID stepDef) state run) stepDef state)"

definition applyFragment :: "engine \<Rightarrow> WorkflowDef \<Rightarrow> WorkflowRun \<Rightarrow> StepDef \<Rightarrow> StepDef list \<Rightarrow> unit handler" where
  "applyFragment E wfDef run stepDef fragment =
     (if wr_RunID run = [] then lift (Panic ''applyFragment: RunID must not be empty'')
      else if fragment = [] then lift (Panic ''applyFragment: fragment must not be empty'')
      else
        bind (saveSnapshot E (apply_fragment run fragment)) (\<lambda>run.
        bind (publish_event (NewStepEvent (en_now E) EventPlannerMaterialized (wr_RunID run) (sd_ID stepDef) RNil)) (\<lambda>_.
        bind (lift (EffectiveDef wfDef run)) (\<lambda>augmented.
          enqueueReady E augmented run))))"

definition materializePlannerOutput :: "engine \<Rightarrow> WorkflowDef \<Rightarrow> WorkflowRun \<Rightarrow> StepDef \<Rightarrow> raw \<Rightarrow> unit handler" where
  "materializePlannerOutput E wfDef run stepDef payload =
     (case planned_steps (en_plan E) wfDef run stepDef payload of
        Panic p \<Rightarrow> lift (Panic p)
      | Err e \<Rightarrow> failPlannerStep E run stepDef (en_plan_text E e)
      | Ok fragment \<Rightarrow>
          if fragment = [] then continue_run E wfDef run
          else applyFragment E wfDef run stepDef fragment)"

end
