(* ===== verification/Engine_Handlers.thy ===== *)
theory Engine_Handlers
  imports Engine_Recovery
begin

text \<open>
  The handlers of the events of a run (src/internal/engine/step_handlers.go, retry_handlers.go,
  wait_handlers.go, spawn_handlers.go, approval.go, agent_inputs.go, dispatch_resend.go and orchestrator.go)
  and their routing. Each takes the snapshot it loaded. The events that create runs,
  workflow.started for a new run and workflow.spawn, are not here.
\<close>

section \<open>Completion\<close>

definition create_binding :: "engine \<Rightarrow> WorkflowDef \<Rightarrow> WorkflowRun \<Rightarrow> Event \<Rightarrow> unit handler" where
  "create_binding E wfDef run evt =
     (if \<not> en_sticky E \<or> wd_Sticky wfDef = [] \<or> ev_WorkerID evt = [] then ret ()
      else emit [CreateBinding (wr_RunID run) (ev_WorkerID evt)])"

definition completePlannerStep :: "engine \<Rightarrow> WorkflowDef \<Rightarrow> WorkflowRun \<Rightarrow> StepDef \<Rightarrow> Event \<Rightarrow> unit handler" where
  "completePlannerStep E wfDef run stepDef evt =
     (if sd_Type stepDef \<noteq> StepTypePlanner then lift (Panic ''completePlannerStep: step is not a planner step'')
      else if ev_StepID evt \<noteq> sd_ID stepDef then lift (Panic ''completePlannerStep: event and step must match'')
      else
        let state = (step_of (wr_Steps run) (ev_StepID evt))\<lparr>ss_Status := StepStatusCompleted, ss_Output := ev_Payload evt\<rparr>;
            run = set_step (ev_StepID evt) state run
        in bind (releaseTaskSlot E wfDef (ev_RunID evt) (ev_StepID evt)) (\<lambda>_.
             materializePlannerOutput E wfDef run stepDef (ev_Payload evt)))"

definition no_failure :: FailPayload where
  "no_failure = \<lparr>fp_Error = [], fp_FailureType = FailureTypeOther []\<rparr>"

definition core_completed :: "Event \<Rightarrow> CoreEvent" where
  "core_completed evt = \<lparr>ce_Type = CoreStepCompleted, ce_StepID = ev_StepID evt, ce_Payload = ev_Payload evt,
     ce_FailPayload = no_failure\<rparr>"

definition core_continue :: "Event \<Rightarrow> CoreEvent" where
  "core_continue evt = \<lparr>ce_Type = CoreStepContinue, ce_StepID = ev_StepID evt, ce_Payload = RNil,
     ce_FailPayload = no_failure\<rparr>"

definition core_failed :: "Event \<Rightarrow> string \<Rightarrow> CoreEvent" where
  "core_failed evt err = \<lparr>ce_Type = CoreStepFailed, ce_StepID = ev_StepID evt, ce_Payload = RNil,
     ce_FailPayload = \<lparr>fp_Error = err, fp_FailureType = FailureTypeNonRetriable\<rparr>\<rparr>"

text \<open>The part of \<open>handleStepCompleted\<close> after the guards.\<close>

definition complete_step :: "engine \<Rightarrow> WorkflowDef \<Rightarrow> WorkflowRun \<Rightarrow> Event \<Rightarrow> unit handler" where
  "complete_step E wfDef run evt =
     bind (lift (Advance wfDef run (core_completed evt))) (\<lambda>(run, _).
     bind (releaseTaskSlot E wfDef (ev_RunID evt) (ev_StepID evt)) (\<lambda>_.
     bind (create_binding E wfDef run evt) (\<lambda>_.
     bind (HandleCompensateCompleted E wfDef (RecoverIfOnFailure wfDef run (ev_StepID evt)) (ev_StepID evt)) (\<lambda>(run, handled).
       if handled then ret () else continue_run E wfDef run))))"

definition handleStepCompleted :: "engine \<Rightarrow> WorkflowRun \<Rightarrow> Event \<Rightarrow> unit handler" where
  "handleStepCompleted E run evt =
     (if ev_RunID evt = [] then lift (Panic ''handleStepCompleted: RunID must not be empty'')
      else if ev_StepID evt = [] then lift (Panic ''handleStepCompleted: StepID must not be empty'')
      else
        bind (loadRunAndDef E run) (\<lambda>wfDef.
        bind (lift (lateEventForTerminalRun run evt)) (\<lambda>late.
          if late then ret ()
          else if isMapInstanceID (ev_StepID evt) then handleMapInstanceCompleted E wfDef run evt
          else
            let stepDef = findStepDef wfDef (ev_StepID evt);
                engineResolved = (case stepDef of None \<Rightarrow> False | Some s \<Rightarrow> sd_Type s = StepTypeRespond)
            in bind (if engineResolved then ret (run, True) else lift (fenceStepEvent (en_legacy E) run evt)) (\<lambda>(run, pass).
                 if \<not> pass then ret ()
                 else
                   (case stepDef of
                      Some s \<Rightarrow>
                        if sd_Type s = StepTypePlanner then completePlannerStep E wfDef run s evt
                        else complete_step E wfDef run evt
                    | None \<Rightarrow> complete_step E wfDef run evt)))))"

section \<open>Loops\<close>

definition failLoopStep :: "engine \<Rightarrow> WorkflowRun \<Rightarrow> string \<Rightarrow> StepState \<Rightarrow> string \<Rightarrow> unit handler" where
  "failLoopStep E run stepID state reason =
     (if stepID = [] then lift (Panic ''failLoopStep: stepID must not be empty'')
      else if reason = [] then lift (Panic ''failLoopStep: reason must not be empty'')
      else
        let run = set_step stepID (state\<lparr>ss_Status := StepStatusFailed, ss_Error := reason\<rparr>) run
        in bind (finalizeRun E run RunStatusFailed [ReleaseAdmission run]) (\<lambda>run.
             notifyParentIfChild E run (Some reason)))"

definition sendWait :: "engine \<Rightarrow> WorkflowRun \<Rightarrow> StepDef \<Rightarrow> StepState \<Rightarrow> unit handler" where
  "sendWait E run stepDef state =
     (if \<not> waiting state then lift (Panic ''sendWait: step is not waiting'')
      else if wr_RunID run = [] then lift (Panic ''sendWait: RunID must not be empty'')
      else
        (case ss_WaitUntil state of
           None \<Rightarrow> ret ()
         | Some t \<Rightarrow>
             schedule (zero_TimerMessage\<lparr>tm_Action := TimerActionLoopWait, tm_RunID := wr_RunID run,
               tm_StepID := sd_ID stepDef, tm_DurationMs := max (to_millis (time_sub t (en_now E))) 1,
               tm_Attempt := ss_Attempts state, tm_Iteration := ss_Iterations state,
               tm_DispatchNonce := ss_DispatchNonce state\<rparr>)))"

definition publishIterationNow :: "engine \<Rightarrow> WorkflowRun \<Rightarrow> StepDef \<Rightarrow> StepState \<Rightarrow> unit handler" where
  "publishIterationNow E run stepDef state =
     (if sd_ID stepDef = [] \<or> wr_RunID run = [] then lift (Panic ''publishIterationNow: run and step must not be empty'')
      else if waiting state then lift (Panic ''publishIterationNow: step is still waiting'')
      else
        bind (resolve_input stepDef run) (\<lambda>input.
        bind (lift (dispatchIdentity run (sd_ID stepDef) dispatchSameAttempt)) (\<lambda>(attempt, iteration).
          emit [PublishLoopTask stepDef input attempt iteration (wr_WorkflowID run) (ss_DispatchNonce state)
                  (ss_LoopState state)])))"

definition scheduleDelayedIteration ::
    "engine \<Rightarrow> WorkflowRun \<Rightarrow> StepDef \<Rightarrow> raw \<Rightarrow> int \<Rightarrow> int \<Rightarrow> duration \<Rightarrow> unit handler" where
  "scheduleDelayedIteration E run stepDef input attempt iteration delay =
     (if wr_RunID run = [] then lift (Panic ''scheduleDelayedIteration: runID must not be empty'')
      else if delay \<le> 0 then lift (Panic ''scheduleDelayedIteration: delay must be positive'')
      else
        bind (lift (StepSubject (en_routes E) stepDef (wr_RunID run))) (\<lambda>subject.
          schedule (zero_TimerMessage\<lparr>tm_Action := TimerActionLoopDelay, tm_RunID := wr_RunID run,
            tm_StepID := sd_ID stepDef, tm_DurationMs := to_millis delay, tm_TaskType := sd_Task stepDef,
            tm_Subject := subject, tm_Metadata := sd_Metadata stepDef, tm_Input := input, tm_Attempt := attempt,
            tm_Iteration := iteration, tm_WorkflowName := wr_WorkflowID run,
            tm_DispatchNonce := ss_DispatchNonce (step_of (wr_Steps run) (sd_ID stepDef)),
            tm_RequiredCapabilities :=
              effectiveCapabilities (sd_RequiredCapabilities stepDef) (wr_WorkflowID run) (en_policy E)\<rparr>)))"

definition loop_delay :: "StepDef \<Rightarrow> duration" where
  "loop_delay stepDef = (case ParseAgentLoopConfig stepDef of Ok cfg \<Rightarrow> al_LoopDelay cfg | _ \<Rightarrow> 0)"

definition publishContinueTask :: "engine \<Rightarrow> WorkflowRun \<Rightarrow> StepDef \<Rightarrow> StepState \<Rightarrow> unit handler" where
  "publishContinueTask E run stepDef state =
     (if sd_ID stepDef = [] then lift (Panic ''publishContinueTask: stepDef.ID must not be empty'')
      else if wr_RunID run = [] then lift (Panic ''publishContinueTask: RunID must not be empty'')
      else if waiting state then sendWait E run stepDef state
      else
        bind (resolve_input stepDef run) (\<lambda>input.
        bind (lift (dispatchIdentity run (sd_ID stepDef) dispatchSameAttempt)) (\<lambda>(attempt, iteration).
          if loop_delay stepDef > 0
          then scheduleDelayedIteration E run stepDef input attempt iteration (loop_delay stepDef)
          else publishIterationNow E run stepDef state)))"

definition dispatchNextIteration ::
    "engine \<Rightarrow> WorkflowRun \<Rightarrow> StepDef \<Rightarrow> StepState \<Rightarrow> raw \<Rightarrow> ContinueWait option \<Rightarrow> unit handler" where
  "dispatchNextIteration E run stepDef state loopState wait =
     (if wr_RunID run = [] then lift (Panic ''dispatchNextIteration: RunID must not be empty'')
      else if ss_Iterations state < 1 then lift (Panic ''dispatchNextIteration: Advance must have bumped Iterations'')
      else
        let state = (stampDispatch (en_now E) (en_nonce E (sd_ID stepDef)) state)\<lparr>
              ss_DispatchUnsent := True, ss_LoopState := loopState\<rparr>
        in bind (lift (applyWait (en_now E) (en_queuedInputs E (sd_ID stepDef)) wait state)) (\<lambda>state.
           bind (saveSnapshot E (set_step (sd_ID stepDef) state run)) (\<lambda>run.
           bind (publishContinueTask E run stepDef state) (\<lambda>_.
           bind (markSent E run [sd_ID stepDef]) (\<lambda>_. ret ())))))"

text \<open>The bytes of a loop state as the snapshot holds them.\<close>

definition state_bytes :: "string \<Rightarrow> raw" where
  "state_bytes s = (if s = [] then RNil else RBad s)"

definition handleStepContinue :: "engine \<Rightarrow> WorkflowRun \<Rightarrow> Event \<Rightarrow> unit handler" where
  "handleStepContinue E run evt =
     (if ev_RunID evt = [] then lift (Panic ''handleStepContinue: RunID must not be empty'')
      else if ev_StepID evt = [] then lift (Panic ''handleStepContinue: StepID must not be empty'')
      else
        bind (loadRunAndDef E run) (\<lambda>wfDef.
          (case findStepDef wfDef (ev_StepID evt) of
             None \<Rightarrow> raise (StepNotFound (ev_StepID evt))
           | Some stepDef \<Rightarrow>
               bind (lift (fenceStepEvent (en_legacy E) run evt)) (\<lambda>(run, pass).
                 if \<not> pass then ret ()
                 else
                   bind (lift (map_err BadContinue (continueState (en_bytes E) (en_rfc3339 E) evt))) (\<lambda>(loopState, stateSet).
                   bind (lift (map_err BadContinue (continueWait (en_bytes E) (en_rfc3339 E) evt))) (\<lambda>wait.
                   bind (lift (loopStateOverCap (int (length loopState)) (en_stateMax E))) (\<lambda>capErr.
                     (case capErr of
                        Some reason \<Rightarrow>
                          failLoopStep E run (ev_StepID evt) (step_of (wr_Steps run) (ev_StepID evt)) reason
                      | None \<Rightarrow>
                          bind (lift (Advance wfDef run (core_continue evt))) (\<lambda>(run, effects).
                            let state = step_of (wr_Steps run) (ev_StepID evt) in
                            if list_ex (\<lambda>e. case e of FailWorkflow _ _ \<Rightarrow> True | _ \<Rightarrow> False) effects
                            then failLoopStep E run (ev_StepID evt) state (ss_Error state)
                            else
                              let state = (if ss_Iterations state = 1 then state\<lparr>ss_LoopStartedAt := en_now E\<rparr> else state)
                              in (case checkLoopBounds (en_duration_text E) (en_now E) stepDef state of
                                    Some reason \<Rightarrow> failLoopStep E run (ev_StepID evt) state reason
                                  | None \<Rightarrow>
                                      dispatchNextIteration E run stepDef state
                                        (if stateSet then state_bytes loopState else ss_LoopState state) wait))))))))))"

definition wakeStep :: "engine \<Rightarrow> WorkflowRun \<Rightarrow> StepDef \<Rightarrow> StepState \<Rightarrow> bool \<Rightarrow> unit handler" where
  "wakeStep E run stepDef state by_input =
     (if \<not> waiting state then lift (Panic ''wakeStep: step is not waiting'')
      else
        let state = state\<lparr>ss_WaitUntil := None, ss_WaitInput := False,
              ss_HasInputs := (ss_HasInputs state \<or> by_input), ss_DispatchUnsent := True\<rparr>
        in bind (saveSnapshot E (set_step (sd_ID stepDef) state run)) (\<lambda>run.
           bind (publishIterationNow E run stepDef state) (\<lambda>_.
           bind (markSent E run [sd_ID stepDef]) (\<lambda>_. ret ()))))"

definition handleInputQueued :: "engine \<Rightarrow> WorkflowRun \<Rightarrow> Event \<Rightarrow> unit handler" where
  "handleInputQueued E run evt =
     (if ev_RunID evt = [] \<or> ev_StepID evt = [] then lift (Panic ''handleInputQueued: run and step must not be empty'')
      else if ev_Type evt \<noteq> EventStepInputQueued then lift (Panic ''handleInputQueued: event must be a step.input.queued'')
      else
        (case loadRunAndDef E run of
           (acts, Panic p) \<Rightarrow> (acts, Panic p)
         | (acts, Err e) \<Rightarrow> (acts, Ok ())
         | (acts, Ok wfDef) \<Rightarrow>
             bind (emit acts) (\<lambda>_.
               (case (map_of (wr_Steps run) (ev_StepID evt), findStepDef wfDef (ev_StepID evt)) of
                  (Some state, Some stepDef) \<Rightarrow>
                    if IsTerminal (wr_Status run) \<or> stepFinished state
                    then emit [SettleInputs (wr_RunID run) (ev_StepID evt)]
                    else if ss_WaitInput state then wakeStep E run stepDef state True
                    else if ss_HasInputs state then ret ()
                    else bind (saveSnapshot E (set_step (ev_StepID evt) (state\<lparr>ss_HasInputs := True\<rparr>) run)) (\<lambda>_. ret ())
                | _ \<Rightarrow> ret ()))))"

definition handleWaitElapsed :: "engine \<Rightarrow> WorkflowRun \<Rightarrow> Event \<Rightarrow> unit handler" where
  "handleWaitElapsed E run evt =
     (if ev_RunID evt = [] \<or> ev_StepID evt = [] then lift (Panic ''handleWaitElapsed: run and step must not be empty'')
      else if ev_Type evt \<noteq> EventStepWaitElapsed then lift (Panic ''handleWaitElapsed: event must be a step.wait.elapsed'')
      else
        (case loadRunAndDef E run of
           (acts, Panic p) \<Rightarrow> (acts, Panic p)
         | (acts, Err e) \<Rightarrow> (acts, Ok ())
         | (acts, Ok wfDef) \<Rightarrow>
             bind (emit acts) (\<lambda>_.
               let state = step_of (wr_Steps run) (ev_StepID evt) in
               (case findStepDef wfDef (ev_StepID evt) of
                  None \<Rightarrow> ret ()
                | Some stepDef \<Rightarrow>
                    if IsTerminal (wr_Status run) \<or> stepFinished state \<or> ss_WaitUntil state = None \<or>
                       \<not> HasIdentity evt \<or> ev_Iteration evt \<noteq> Some (ss_Iterations state) \<or>
                       ev_DispatchNonce evt \<noteq> ss_DispatchNonce state
                    then ret ()
                    else wakeStep E run stepDef state False))))"

section \<open>Failures and retries\<close>

definition retry_timer :: "TimerAction \<Rightarrow> string \<Rightarrow> string \<Rightarrow> int \<Rightarrow> StepDef \<Rightarrow> string \<Rightarrow> raw \<Rightarrow> WorkflowRun \<Rightarrow> string \<Rightarrow> TimerMessage" where
  "retry_timer act runID stepID delayMs stepDef subject input run workflowName =
     zero_TimerMessage\<lparr>tm_Action := act, tm_RunID := runID, tm_StepID := stepID, tm_DurationMs := delayMs,
       tm_TaskType := sd_Task stepDef, tm_Subject := subject, tm_Metadata := sd_Metadata stepDef, tm_Input := input,
       tm_Attempt := ss_Attempts (step_of (wr_Steps run) stepID), tm_WorkflowName := workflowName,
       tm_DispatchNonce := ss_DispatchNonce (step_of (wr_Steps run) stepID)\<rparr>"

definition scheduleRetryAfter :: "engine \<Rightarrow> string \<Rightarrow> string \<Rightarrow> StepDef \<Rightarrow> int \<Rightarrow> WorkflowRun \<Rightarrow> string \<Rightarrow> unit handler" where
  "scheduleRetryAfter E runID stepID stepDef retryAfterMs run workflowName =
     (if runID = [] then lift (Panic ''scheduleRetryAfter: runID must not be empty'')
      else if stepID = [] then lift (Panic ''scheduleRetryAfter: stepID must not be empty'')
      else
        bind (resolve_input stepDef run) (\<lambda>input.
        bind (lift (StepSubject (en_routes E) stepDef runID)) (\<lambda>subject.
          schedule (retry_timer TimerActionRetryAfter runID stepID (retryAfterDelayMs retryAfterMs) stepDef subject
                      input run workflowName))))"

definition scheduleRetryBackoff :: "engine \<Rightarrow> string \<Rightarrow> string \<Rightarrow> StepDef \<Rightarrow> RetryPolicy \<Rightarrow> WorkflowRun \<Rightarrow> string \<Rightarrow> unit handler" where
  "scheduleRetryBackoff E runID stepID stepDef policy run workflowName =
     (let attempts = ss_Attempts (step_of (wr_Steps run) stepID) in
      if runID = [] then lift (Panic ''scheduleRetryBackoff: runID must not be empty'')
      else if stepID = [] then lift (Panic ''scheduleRetryBackoff: stepID must not be empty'')
      else if attempts < 1 then lift (Panic ''scheduleRetryBackoff: attempts must be >= 1'')
      else if attempts > 100000 then lift (Panic ''scheduleRetryBackoff: attempts exceeds RetryAttemptCountMax'')
      else
        bind (lift (retryBackoffDelayMs (en_float E) policy attempts)) (\<lambda>delayMs.
        bind (resolve_input stepDef run) (\<lambda>input.
        bind (lift (StepSubject (en_routes E) stepDef runID)) (\<lambda>subject.
          schedule (retry_timer TimerActionRetryBackoff runID stepID delayMs stepDef subject input run workflowName)))))"

text \<open>The step stamped for its retry, which is due after the delay.\<close>

definition retry_state :: "engine \<Rightarrow> string \<Rightarrow> int \<Rightarrow> StepState \<Rightarrow> (engine_error, StepState) res" where
  "retry_state E stepID delayMs state =
     markRetryPending (en_now E) delayMs (stampDispatch (en_now E) (en_nonce E stepID) state)"

definition dispatchRetriableFailure ::
    "engine \<Rightarrow> WorkflowDef \<Rightarrow> WorkflowRun \<Rightarrow> StepState \<Rightarrow> StepDef \<Rightarrow> Event \<Rightarrow> RetryPolicy option \<Rightarrow> unit handler" where
  "dispatchRetriableFailure E wfDef run state stepDef evt policy =
     (let stepID = ev_StepID evt;
          give_up = (let state = state\<lparr>ss_Status := StepStatusFailed\<rparr>
                     in HandlePermanentFailure E wfDef (set_step stepID state run) stepDef state stepID)
      in case policy of
           None \<Rightarrow> give_up
         | Some p \<Rightarrow>
             if ss_Attempts state \<le> rp_MaxAttempts p then
               bind (lift (retryBackoffDelayMs (en_float E) p (ss_Attempts state))) (\<lambda>delayMs.
               bind (lift (retry_state E stepID delayMs state)) (\<lambda>state.
               bind (saveSnapshot E (set_step stepID state run)) (\<lambda>run.
                 scheduleRetryBackoff E (ev_RunID evt) stepID stepDef p run (wd_Name wfDef))))
             else give_up)"

definition handleRetryAfter ::
    "engine \<Rightarrow> WorkflowDef \<Rightarrow> WorkflowRun \<Rightarrow> StepDef \<Rightarrow> StepState \<Rightarrow> string \<Rightarrow> int \<Rightarrow> RetryPolicy option \<Rightarrow> unit handler" where
  "handleRetryAfter E wfDef run stepDef state stepID retryAfterMs policy =
     (let give_up = (let state = state\<lparr>ss_Status := StepStatusFailed\<rparr>
                     in HandlePermanentFailure E wfDef (set_step stepID state run) stepDef state stepID)
      in case policy of
           None \<Rightarrow> give_up
         | Some p \<Rightarrow>
             if ss_Attempts state \<le> rp_MaxAttempts p then
               bind (lift (retry_state E stepID (retryAfterDelayMs retryAfterMs) state)) (\<lambda>state.
               bind (saveSnapshot E (set_step stepID state run)) (\<lambda>run.
                 scheduleRetryAfter E (wr_RunID run) stepID stepDef retryAfterMs run (wd_Name wfDef)))
             else give_up)"

definition dispatchNonRetriableFailure ::
    "engine \<Rightarrow> WorkflowDef \<Rightarrow> WorkflowRun \<Rightarrow> StepDef \<Rightarrow> Event \<Rightarrow> string \<Rightarrow> unit handler" where
  "dispatchNonRetriableFailure E wfDef run stepDef evt err =
     bind (lift (Advance wfDef run (core_failed evt err))) (\<lambda>(run', _).
       let run' = run'\<lparr>wr_Status := wr_Status run\<rparr>
       in HandlePermanentFailure E wfDef run' stepDef (step_of (wr_Steps run') (ev_StepID evt)) (ev_StepID evt))"

definition handleStepFailed :: "engine \<Rightarrow> WorkflowRun \<Rightarrow> Event \<Rightarrow> unit handler" where
  "handleStepFailed E run evt =
     (if ev_RunID evt = [] then lift (Panic ''handleStepFailed: RunID must not be empty'')
      else if ev_StepID evt = [] then lift (Panic ''handleStepFailed: StepID must not be empty'')
      else
        bind (loadRunAndDef E run) (\<lambda>wfDef.
        bind (lift (lateEventForTerminalRun run evt)) (\<lambda>late.
          if late then ret ()
          else if isMapInstanceID (ev_StepID evt) then handleMapInstanceFailed E wfDef run evt
          else
            bind (lift (fenceStepEvent (en_legacy E) run evt)) (\<lambda>(run, pass).
              if \<not> pass then ret ()
              else
                let stepID = ev_StepID evt;
                    state = step_of (wr_Steps run) stepID;
                    floor = state\<lparr>ss_Attempts := 1\<rparr>;
                    run = (if ss_Attempts state < 1 then set_step stepID floor run else run);
                    state = (if ss_Attempts state < 1 then floor else state);
                    fp = parseFailPayload (en_text E) (ev_Payload evt);
                    state = state\<lparr>ss_Error := sf_Error fp\<rparr>;
                    stepDef = step_def wfDef stepID;
                    policy = ResolveRetryPolicy wfDef stepDef
                in if sf_FailureType fp = FailureTypeNonRetriable
                   then dispatchNonRetriableFailure E wfDef run stepDef evt (sf_Error fp)
                   else if sf_FailureType fp = FailureTypeRetryAfter
                   then handleRetryAfter E wfDef run stepDef state stepID (sf_RetryAfterMs fp) policy
                   else dispatchRetriableFailure E wfDef run state stepDef evt policy))))"

section \<open>Lifecycle\<close>

definition scheduleStepTimeout :: "string \<Rightarrow> string \<Rightarrow> StepDef \<Rightarrow> int \<Rightarrow> duration \<Rightarrow> unit handler" where
  "scheduleStepTimeout runID stepID stepDef attempt elapsed =
     (if runID = [] then lift (Panic ''scheduleStepTimeout: runID must not be empty'')
      else if elapsed < 0 then lift (Panic ''scheduleStepTimeout: elapsed must not be negative'')
      else if stepID = [] then lift (Panic ''scheduleStepTimeout: stepID must not be empty'')
      else if sd_Timeout stepDef \<le> 0 then lift (Panic ''scheduleStepTimeout: Timeout must be > 0'')
      else if attempt < 1 then lift (Panic ''scheduleStepTimeout: attempt must be >= 1'')
      else
        schedule (zero_TimerMessage\<lparr>tm_Action := TimerActionStepTimeout, tm_RunID := runID, tm_StepID := stepID,
          tm_DurationMs := min (max (to_millis (wrap64 (sd_Timeout stepDef - elapsed))) 1) 86400000,
          tm_TaskType := sd_Task stepDef, tm_Attempt := attempt\<rparr>))"

definition armStepWatchdog :: "engine \<Rightarrow> WorkflowRun \<Rightarrow> string \<Rightarrow> int \<Rightarrow> duration \<Rightarrow> unit handler" where
  "armStepWatchdog E run stepID attempts elapsed =
     (if stepID = [] then lift (Panic ''armStepWatchdog: stepID must not be empty'')
      else if attempts < 0 then lift (Panic ''armStepWatchdog: attempts must not be negative'')
      else
        (case loadDef E (wr_WorkflowID run) of
           Panic p \<Rightarrow> lift (Panic p)
         | Err e \<Rightarrow> ret ()
         | Ok wfDef \<Rightarrow>
             (case findStepDef wfDef stepID of
                None \<Rightarrow> ret ()
              | Some stepDef \<Rightarrow>
                  if sd_Timeout stepDef \<le> 0 then ret ()
                  else scheduleStepTimeout (wr_RunID run) stepID stepDef attempts elapsed)))"

definition handleStepStarted :: "engine \<Rightarrow> WorkflowRun \<Rightarrow> Event \<Rightarrow> unit handler" where
  "handleStepStarted E run evt =
     (if ev_RunID evt = [] then lift (Panic ''handleStepStarted: evt.RunID must not be empty'')
      else if ev_StepID evt = [] then lift (Panic ''handleStepStarted: evt.StepID must not be empty'')
      else
        (case map_of (wr_Steps run) (ev_StepID evt) of
           None \<Rightarrow> ret ()
         | Some state \<Rightarrow>
             if ss_Status state = StepStatusCompleted \<or> ss_Status state = StepStatusFailed then ret ()
             else
               bind (lift (lateEventForTerminalRun run evt)) (\<lambda>late.
                 if late then ret ()
                 else
                   bind (lift (startedForOtherDispatch state evt)) (\<lambda>other.
                     if other then ret ()
                     else
                       let state = state\<lparr>ss_Status := StepStatusRunning, ss_DispatchUnsent := False,
                             ss_Attempts := max (ss_Attempts state) (ev_AttemptNumber evt)\<rparr>;
                           (state, elapsed) = startAttemptClock (en_now E) state
                       in bind (saveSnapshot E (set_step (ev_StepID evt) state run)) (\<lambda>run.
                            armStepWatchdog E run (ev_StepID evt) (ss_Attempts state) elapsed)))))"

definition handleStepQueued :: "engine \<Rightarrow> WorkflowRun \<Rightarrow> Event \<Rightarrow> unit handler" where
  "handleStepQueued E run evt =
     (if ev_RunID evt = [] then lift (Panic ''handleStepQueued: evt.RunID must not be empty'')
      else if ev_StepID evt = [] then lift (Panic ''handleStepQueued: evt.StepID must not be empty'')
      else
        (case map_of (wr_Steps run) (ev_StepID evt) of
           None \<Rightarrow> ret ()
         | Some state \<Rightarrow>
             if ss_Status state = StepStatusCompleted \<or> ss_Status state = StepStatusFailed \<or>
                ss_Status state = StepStatusRunning then ret ()
             else
               bind (lift (lateEventForTerminalRun run evt)) (\<lambda>late.
                 if late then ret ()
                 else
                   bind (saveSnapshot E (set_step (ev_StepID evt)
                           (state\<lparr>ss_Status := StepStatusQueued,
                                  ss_Attempts := max (ss_Attempts state) (ev_AttemptNumber evt)\<rparr>) run)) (\<lambda>_. ret ()))))"

section \<open>Waits, children, approvals\<close>

definition handleWaitTimeout :: "engine \<Rightarrow> WorkflowRun \<Rightarrow> Event \<Rightarrow> unit handler" where
  "handleWaitTimeout E run evt =
     (if ev_RunID evt = [] then lift (Panic ''handleWaitTimeout: RunID must not be empty'')
      else if ev_StepID evt = [] then lift (Panic ''handleWaitTimeout: StepID must not be empty'')
      else
        bind (loadRunAndDef E run) (\<lambda>wfDef.
          let state = step_of (wr_Steps run) (ev_StepID evt) in
          if ss_Status state \<noteq> StepStatusRunning then ret ()
          else
            let run = set_step (ev_StepID evt) (state\<lparr>ss_Status := StepStatusCompleted,
                        ss_Output := RJson (JObj [(''timeout'', JBool True)])\<rparr>) run
            in bind (if en_correlator E then emit [RemoveWaitersForRun (ev_RunID evt)] else ret ()) (\<lambda>_.
                 continue_run E wfDef run)))"

definition collectTerminalOutputs :: "WorkflowDef \<Rightarrow> WorkflowRun \<Rightarrow> (engine_error, raw) res" where
  "collectTerminalOutputs def run =
     (if wd_Steps def = [] then Panic ''collectTerminalOutputs: def has no steps''
      else
        let depTargets = concat (map sd_DependsOn (wd_Steps def));
            terminals = take 1001 (filter (\<lambda>step. sd_ID step \<notin> set depTargets) (wd_Steps def))
        in case terminals of
             [step] \<Rightarrow> Ok (ss_Output (step_of (wr_Steps run) (sd_ID step)))
           | _ \<Rightarrow> map_err ChildMarshal (marshal_raw_map
                    (fold (\<lambda>step m. mput (sd_ID step) (ss_Output (step_of (wr_Steps run) (sd_ID step))) m) terminals [])))"

definition loadChildTerminalOutputs :: "engine \<Rightarrow> string \<Rightarrow> raw handler" where
  "loadChildTerminalOutputs E childRunID =
     (if childRunID = [] then lift (Panic ''loadChildTerminalOutputs: childRunID empty'')
      else
        (case en_runs E childRunID of
           None \<Rightarrow> raise (ChildNotFound childRunID)
         | Some child \<Rightarrow>
             bind (loadRunAndDef E child) (\<lambda>childDef. lift (collectTerminalOutputs childDef child))))"

definition handleChildCompleted :: "engine \<Rightarrow> WorkflowRun \<Rightarrow> Event \<Rightarrow> unit handler" where
  "handleChildCompleted E run evt =
     (if ev_RunID evt = [] then lift (Panic ''handleChildCompleted: RunID must not be empty'')
      else if ev_StepID evt = [] then lift (Panic ''handleChildCompleted: StepID must not be empty'')
      else
        bind (loadRunAndDef E run) (\<lambda>wfDef.
          let state = step_of (wr_Steps run) (ev_StepID evt) in
          if ss_Status state \<noteq> StepStatusRunning then ret ()
          else
            bind (loadChildTerminalOutputs E (ss_ChildRunID state)) (\<lambda>output.
              continue_run E wfDef (set_step (ev_StepID evt)
                (state\<lparr>ss_Status := StepStatusCompleted, ss_Output := output\<rparr>) run))))"

definition dec_child_error :: "(string \<times> json) list \<Rightarrow> string option" where
  "dec_child_error kvs = dec_field ''error'' dec_str [] kvs"

text \<open>Fail a step that was running, and the run with it.\<close>

definition fail_running_step :: "engine \<Rightarrow> WorkflowDef \<Rightarrow> WorkflowRun \<Rightarrow> string \<Rightarrow> string \<Rightarrow> unit handler" where
  "fail_running_step E wfDef run stepID err =
     (let state = (step_of (wr_Steps run) stepID)\<lparr>ss_Status := StepStatusFailed, ss_Error := err\<rparr>
      in failWorkflow E (set_step stepID state run) (step_def wfDef stepID) state)"

definition handleChildFailed :: "engine \<Rightarrow> WorkflowRun \<Rightarrow> Event \<Rightarrow> unit handler" where
  "handleChildFailed E run evt =
     (if ev_RunID evt = [] then lift (Panic ''handleChildFailed: RunID must not be empty'')
      else if ev_StepID evt = [] then lift (Panic ''handleChildFailed: StepID must not be empty'')
      else
        bind (loadRunAndDef E run) (\<lambda>wfDef.
          if status_of run (ev_StepID evt) \<noteq> StepStatusRunning then ret ()
          else
            (case (if ev_Payload evt = RNil then Some [] else unmarshal_struct dec_child_error (ev_Payload evt)) of
               None \<Rightarrow> raise BadChildPayload
             | Some err \<Rightarrow> fail_running_step E wfDef run (ev_StepID evt) (''child workflow failed: '' @ err))))"

definition HandleGranted :: "engine \<Rightarrow> WorkflowRun \<Rightarrow> Event \<Rightarrow> unit handler" where
  "HandleGranted E run evt =
     (if \<not> en_approval E then ret ()
      else if ev_RunID evt = [] then lift (Panic ''HandleGranted: RunID must not be empty'')
      else if ev_StepID evt = [] then lift (Panic ''HandleGranted: StepID must not be empty'')
      else
        bind (loadRunAndDef E run) (\<lambda>wfDef.
          let state = step_of (wr_Steps run) (ev_StepID evt) in
          if ss_Status state \<noteq> StepStatusRunning then ret ()
          else continue_run E wfDef (set_step (ev_StepID evt)
                 (state\<lparr>ss_Status := StepStatusCompleted, ss_Output := ev_Payload evt\<rparr>) run)))"

text \<open>\<open>HandleRejected\<close> and \<open>HandleExpired\<close> differ in the error they record.\<close>

definition approval_failed :: "engine \<Rightarrow> WorkflowRun \<Rightarrow> Event \<Rightarrow> string \<Rightarrow> unit handler" where
  "approval_failed E run evt err =
     (if \<not> en_approval E then ret ()
      else if ev_RunID evt = [] then lift (Panic ''RunID must not be empty'')
      else if ev_StepID evt = [] then lift (Panic ''StepID must not be empty'')
      else
        bind (loadRunAndDef E run) (\<lambda>wfDef.
          if status_of run (ev_StepID evt) \<noteq> StepStatusRunning then ret ()
          else fail_running_step E wfDef run (ev_StepID evt) err))"

definition HandleRejected :: "engine \<Rightarrow> WorkflowRun \<Rightarrow> Event \<Rightarrow> unit handler" where
  "HandleRejected E run evt =
     approval_failed E run evt
       (if ev_Payload evt = RNil then ''approval rejected'' else en_text E (ev_Payload evt))"

definition HandleExpired :: "engine \<Rightarrow> WorkflowRun \<Rightarrow> Event \<Rightarrow> unit handler" where
  "HandleExpired E run evt = approval_failed E run evt ''approval timed out''"

section \<open>Cancellation\<close>

fun release_slots :: "engine \<Rightarrow> WorkflowDef \<Rightarrow> string \<Rightarrow> (string \<times> StepState) list \<Rightarrow> unit handler" where
  "release_slots E wfDef runID [] = ret ()"
| "release_slots E wfDef runID ((sid, state) # steps) =
     bind (if ss_Status state \<noteq> StepStatusCancelled then ret ()
           else
             (case findStepDef wfDef sid of
                None \<Rightarrow> ret ()
              | Some stepDef \<Rightarrow>
                  if sd_MaxTaskConcurrency stepDef \<le> 0 then ret ()
                  else bind (lift (taskSlotHolder runID sid)) (\<lambda>holder. emit [ReleaseTaskSlot (sd_Task stepDef) holder])))
       (\<lambda>_. release_slots E wfDef runID steps)"

definition releaseCancelledTaskSlots :: "engine \<Rightarrow> WorkflowDef \<Rightarrow> WorkflowRun \<Rightarrow> unit handler" where
  "releaseCancelledTaskSlots E wfDef run =
     (if \<not> en_concurrency E then ret () else release_slots E wfDef (wr_RunID run) (wr_Steps run))"

fun deleteTokens :: "string \<Rightarrow> string list \<Rightarrow> unit handler" where
  "deleteTokens runID [] = ret ()"
| "deleteTokens runID (stepID # stepIDs) =
     bind (guard (runID = []) ''deleteToken: runID must not be empty'') (\<lambda>_.
     bind (guard (stepID = []) ''deleteToken: stepID must not be empty'') (\<lambda>_.
     bind (emit [DeleteToken runID stepID]) (\<lambda>_. deleteTokens runID stepIDs)))"

definition CleanupTokens :: "engine \<Rightarrow> WorkflowDef \<Rightarrow> WorkflowRun \<Rightarrow> unit handler" where
  "CleanupTokens E wfDef run =
     (if \<not> en_approval E then ret ()
      else if wr_RunID run = [] then lift (Panic ''CleanupTokens: RunID must not be empty'')
      else deleteTokens (wr_RunID run) (map sd_ID
             (filter (\<lambda>step. sd_Type step = StepTypeApproval \<and> status_of run (sd_ID step) = StepStatusCancelled)
                (wd_Steps wfDef))))"

fun map_res :: "('a \<Rightarrow> ('e, 'b) res) \<Rightarrow> 'a list \<Rightarrow> ('e, 'b list) res" where
  "map_res f [] = Ok []"
| "map_res f (x # xs) = and_then (f x) (\<lambda>y. and_then (map_res f xs) (\<lambda>ys. Ok (y # ys)))"

text \<open>Without a definition: the slots of all cancelled steps, and the tokens of those that have one (deleting a
  token that does not exist changes nothing).\<close>

definition releaseCancelledWithoutDef :: "engine \<Rightarrow> WorkflowRun \<Rightarrow> unit handler" where
  "releaseCancelledWithoutDef E run =
     (let cancelled = map fst (filter (\<lambda>(sid, state). ss_Status state = StepStatusCancelled) (wr_Steps run)) in
      bind (lift (map_res (taskSlotHolder (wr_RunID run)) cancelled)) (\<lambda>holders.
      bind (if en_concurrency E then emit [ReleaseTaskHoldersOf holders] else ret ()) (\<lambda>_.
        if en_approval E then deleteTokens (wr_RunID run) (filter (\<lambda>sid. sid \<noteq> []) cancelled) else ret ())))"

definition cascadeCancelChildren :: "engine \<Rightarrow> WorkflowRun \<Rightarrow> unit handler" where
  "cascadeCancelChildren E run =
     (let children = filter (\<lambda>c. c \<noteq> [] \<and>
            (case en_runs E c of None \<Rightarrow> False
             | Some child \<Rightarrow> wr_ParentRunID child \<noteq> [] \<and> wr_Status child = RunStatusRunning))
            (map (\<lambda>(sid, state). ss_ChildRunID state) (wr_Steps run))
      in emit (map (\<lambda>c. PublishEvent (new_event (en_now E) EventWorkflowCancelled c [] RNil)) children))"

definition handleWorkflowCancelled :: "engine \<Rightarrow> WorkflowRun \<Rightarrow> Event \<Rightarrow> unit handler" where
  "handleWorkflowCancelled E run evt =
     (if ev_RunID evt = [] then lift (Panic ''handleWorkflowCancelled: RunID must not be empty'')
      else if wr_Status run \<noteq> RunStatusRunning then ret ()
      else
        bind (case loadPinnedOrLatestDef E run of
                (acts, Ok wfDef) \<Rightarrow> (acts, Ok (Some wfDef))
              | (acts, Err e) \<Rightarrow> if isDefUnresolvable e then (acts, Ok None) else (acts, Err e)
              | (acts, Panic p) \<Rightarrow> (acts, Panic p)) (\<lambda>found.
          let run = cancelUnfinishedSteps run in
          bind (case found of
                  None \<Rightarrow> releaseCancelledWithoutDef E run
                | Some wfDef \<Rightarrow>
                    bind (lift (EffectiveDef wfDef run)) (\<lambda>wfDef.
                    bind (releaseCancelledTaskSlots E wfDef run) (\<lambda>_. CleanupTokens E wfDef run))) (\<lambda>_.
          bind (if en_correlator E then emit [RemoveWaitersForRun (wr_RunID run)] else ret ()) (\<lambda>_.
          bind (cascadeCancelChildren E run) (\<lambda>_.
          bind (emit [DeleteBinding (wr_RunID run)]) (\<lambda>_.
          bind (finalizeRun E run RunStatusCancelled [ReleaseAdmission run]) (\<lambda>run.
          bind (emit [SignalCancel (wr_RunID run)]) (\<lambda>_.
            notifyParentIfChild E run (Some ''cancelled'')))))))))"

section \<open>Unsent dispatches\<close>

definition planTaskResend :: "engine \<Rightarrow> WorkflowRun \<Rightarrow> StepDef \<Rightarrow> dispatchPlan \<Rightarrow> dispatchPlan handler" where
  "planTaskResend E run step plan =
     (if \<not> resendable (sd_Type step) then lift (Panic ''planTaskResend: step type is never marked unsent'')
      else
        let state = step_of (wr_Steps run) (sd_ID step);
            loopIteration = (sd_Type step = StepTypeAgentLoop \<and> ss_Iterations state > 0);
            sent = ret (plan\<lparr>dp_alreadySent := dp_alreadySent plan @ [sd_ID step]\<rparr>)
        in if ss_Status state \<noteq> StepStatusQueued \<and> \<not> loopIteration then sent
           else if en_stillQueued E (sd_ID step) then sent
           else if loopIteration
           then ret (plan\<lparr>dp_effects := dp_effects plan @ [(sd_ID step, \<lambda>_. publishContinueTask E run step state)]\<rparr>)
           else ret (plan\<lparr>dp_normalSteps := dp_normalSteps plan @ [step]\<rparr>))"

definition sleep_resume :: "engine \<Rightarrow> WorkflowRun \<Rightarrow> StepDef \<Rightarrow> effect handler" where
  "sleep_resume E run step =
     (case ss_WakeAt (step_of (wr_Steps run) (sd_ID step)) of
        None \<Rightarrow> lift (Panic ''sleepHandler.resume: a planned sleep has a wake time'')
      | Some t \<Rightarrow> ret (sendTimer E (sd_ID step) (time_sub t (en_now E))))"

fun planResend :: "engine \<Rightarrow> WorkflowRun \<Rightarrow> StepDef list \<Rightarrow> dispatchPlan \<Rightarrow> dispatchPlan handler" where
  "planResend E run [] plan = ret plan"
| "planResend E run (step # steps) plan =
     (if \<not> ss_DispatchUnsent (step_of (wr_Steps run) (sd_ID step)) then planResend E run steps plan
      else
        bind (if sd_Type step = StepTypeSleep then
                bind (sleep_resume E run step) (\<lambda>eff. ret (plan\<lparr>dp_effects := dp_effects plan @ [(sd_ID step, eff)]\<rparr>))
              else if sd_Type step = StepTypeWaitForEvent then
                bind (waitForEventSend E run step) (\<lambda>eff. ret (plan\<lparr>dp_effects := dp_effects plan @ [(sd_ID step, eff)]\<rparr>))
              else planTaskResend E run step plan) (\<lambda>plan.
          planResend E run steps plan))"

definition resendUnsent :: "engine \<Rightarrow> WorkflowRun \<Rightarrow> unit handler" where
  "resendUnsent E run =
     (if wr_RunID run = [] then lift (Panic ''resendUnsent: RunID must not be empty'')
      else if \<not> hasUnsentStep run then ret ()
      else
        bind (loadPinnedOrLatestDef E run) (\<lambda>wfDef.
        bind (lift (EffectiveDef wfDef run)) (\<lambda>wfDef.
        bind (guard (wd_Steps wfDef = []) ''planResend: def must have steps'') (\<lambda>_.
        bind (planResend E run (wd_Steps wfDef) empty_plan) (\<lambda>plan.
        bind (sendPlan run plan) (\<lambda>(sent, sendErr).
        bind (markSent E run sent) (\<lambda>_.
          (case sendErr of Some e \<Rightarrow> raise e | None \<Rightarrow> ret ()))))))))"

section \<open>The step timeout\<close>

definition round_ms :: "duration \<Rightarrow> duration" where
  "round_ms d =
     (let r = \<bar>d\<bar> mod 1000000;
          v = (if 2 * r < 1000000 then \<bar>d\<bar> - r else \<bar>d\<bar> + 1000000 - r)
      in sgn d * min v (2 ^ 63 - 1))"

fun failure_type_name :: "FailureType \<Rightarrow> string" where
  "failure_type_name FailureTypeRetriable = ''retriable''"
| "failure_type_name FailureTypeNonRetriable = ''non_retriable''"
| "failure_type_name FailureTypeRetryAfter = ''retry_after''"
| "failure_type_name (FailureTypeOther s) = s"

definition enc_StepFailedPayload :: "StepFailedPayload \<Rightarrow> json" where
  "enc_StepFailedPayload p =
     JObj ([(''error'', JStr (sf_Error p))]
       @ (if failure_type_name (sf_FailureType p) = [] then []
          else [(''failure_type'', JStr (failure_type_name (sf_FailureType p)))])
       @ (if sf_RetryAfterMs p = 0 then [] else [(''retry_after_ms'', JInt (sf_RetryAfterMs p))]))"

definition fireStepTimeout :: "engine \<Rightarrow> WorkflowRun \<Rightarrow> TimerMessage \<Rightarrow> unit handler" where
  "fireStepTimeout E run tm =
     (if tm_RunID tm = [] then lift (Panic ''fireStepTimeout: RunID must not be empty'')
      else if tm_StepID tm = [] then lift (Panic ''fireStepTimeout: StepID must not be empty'')
      else
        (case map_of (wr_Steps run) (tm_StepID tm) of
           None \<Rightarrow> ret ()
         | Some state \<Rightarrow>
             if ss_Status state \<noteq> StepStatusRunning then ret ()
             else if ss_Attempts state \<noteq> tm_Attempt tm then ret ()
             else
               let dur = tm_DurationMs tm * 1000000;
                   dur = (case ss_AttemptStartedAt state of None \<Rightarrow> dur
                          | Some t \<Rightarrow> max dur (round_ms (time_since (en_now E) t)));
                   payload = \<lparr>sf_Error = ''step timeout exceeded ('' @ en_duration_text E dur @ '')'',
                     sf_FailureType = FailureTypeRetriable, sf_RetryAfterMs = 0\<rparr>
               in bind (lift (NewStepEvent (en_now E) EventStepFailed (tm_RunID tm) (tm_StepID tm)
                          (RJson (enc_StepFailedPayload payload)))) (\<lambda>evt.
                  publish_event (SetIdentity (ss_Iterations state) (tm_Attempt tm) (ss_DispatchNonce state) evt))))"

section \<open>Redelivered starts\<close>

definition hasReadyPendingSteps :: "engine \<Rightarrow> WorkflowRun \<Rightarrow> bool handler" where
  "hasReadyPendingSteps E run =
     (if wr_RunID run = [] then lift (Panic ''hasReadyPendingSteps: RunID must not be empty'')
      else if wr_Status run \<noteq> RunStatusRunning then ret False
      else
        bind (loadPinnedOrLatestDef E run) (\<lambda>wfDef.
        bind (lift (EffectiveDef wfDef run)) (\<lambda>wfDef.
          ret (ResolveReady wfDef (completedSet run) (queuedSet run) \<noteq> []))))"

fun register_waiters :: "WorkflowRun \<Rightarrow> nat \<Rightarrow> CancelOn list \<Rightarrow> unit handler" where
  "register_waiters run i [] = ret ()"
| "register_waiters run i (cancel # cancels) =
     bind (case Match_Resolve (co_Match cancel) None (wr_Input run) of
             Panic p \<Rightarrow> lift (Panic p)
           | Err e \<Rightarrow> ret ()
           | Ok m \<Rightarrow>
               bind (guard (co_Event cancel = []) ''Correlator.AddWaiter: EventType must not be empty'') (\<lambda>_.
                 emit [AddWaiter \<lparr>ew_RunID = wr_RunID run, ew_StepID = ''__cancel_'' @ itoa (int i),
                   ew_EventType = co_Event cancel, ew_Match = m, ew_Cancels = True\<rparr>]))
       (\<lambda>_. register_waiters run (Suc i) cancels)"

definition registerCancelWaiters :: "engine \<Rightarrow> WorkflowDef \<Rightarrow> WorkflowRun \<Rightarrow> unit handler" where
  "registerCancelWaiters E wfDef run =
     (if \<not> en_correlator E then ret ()
      else if wr_RunID run = [] then lift (Panic ''registerCancelWaiters: RunID must not be empty'')
      else register_waiters run 0 (wd_CancelOn wfDef))"

definition healRun :: "engine \<Rightarrow> WorkflowRun \<Rightarrow> unit handler" where
  "healRun E run =
     (if wr_RunID run = [] then lift (Panic ''healRun: run.RunID must not be empty'')
      else if wr_Status run \<noteq> RunStatusRunning then ret ()
      else
        bind (loadPinnedOrLatestDef E run) (\<lambda>wfDef.
        bind (lift (EffectiveDef wfDef run)) (\<lambda>wfDef.
        bind (enqueueReady E wfDef run) (\<lambda>_. registerCancelWaiters E wfDef run))))"

text \<open>\<open>startExistingRun\<close> when the run has a snapshot; \<open>isRunTerminal\<close> says whether the start is a link of a
  trigger chain.\<close>

definition startExistingRun :: "engine \<Rightarrow> WorkflowRun \<Rightarrow> bool \<Rightarrow> unit handler" where
  "startExistingRun E run isRunTerminal =
     bind (hasReadyPendingSteps E run) (\<lambda>stranded.
       if isRunTerminal \<or> stranded then healRun E run else ret ())"

definition dec_chain :: "(string \<times> json) list \<Rightarrow> (string \<times> string \<times> raw \<times> int) option" where
  "dec_chain kvs =
     Option.bind (dec_field ''trigger'' dec_str [] kvs) (\<lambda>t.
     Option.bind (dec_field ''workflow_id'' dec_str [] kvs) (\<lambda>w.
     Option.bind (dec_field ''input'' dec_raw RNil kvs) (\<lambda>i.
     Option.bind (dec_field ''trigger_depth'' dec_int 0 kvs) (\<lambda>d. Some (t, w, i, d)))))"

definition decodeRunTerminalChainPayload :: "raw \<Rightarrow> (string \<times> raw \<times> int) option" where
  "decodeRunTerminalChainPayload payload =
     (case unmarshal_struct dec_chain payload of
        None \<Rightarrow> None
      | Some (t, w, i, d) \<Rightarrow> if t \<noteq> ''run_terminal'' \<or> w = [] \<or> raw_empty i then None else Some (w, i, d))"

definition isRunTerminalChainPayload :: "raw \<Rightarrow> bool" where
  "isRunTerminalChainPayload payload = (decodeRunTerminalChainPayload payload \<noteq> None)"

section \<open>Routing\<close>

definition isHandledEventType :: "EventType \<Rightarrow> bool" where
  "isHandledEventType t = (t \<in> {EventWorkflowStarted, EventStepQueued, EventStepStarted, EventStepCompleted,
     EventStepContinue, EventStepFailed, EventWorkflowSpawn, EventWorkflowChildCompleted, EventWorkflowChildFailed,
     EventWorkflowCancelled, EventStepSleepCompleted, EventStepWaitMatched, EventStepWaitTimeout,
     EventApprovalGranted, EventApprovalRejected, EventApprovalExpired, EventStepInputQueued, EventStepWaitElapsed})"

text \<open>The routing of an event of a run that has a snapshot. A spawn acts on another run; what it does
  there is an argument.\<close>

definition routeEvent :: "unit handler \<Rightarrow> engine \<Rightarrow> WorkflowRun \<Rightarrow> Event \<Rightarrow> unit handler" where
  "routeEvent spawn E run evt =
     (if ev_RunID evt = [] then lift (Panic ''routeEvent: RunID must not be empty'')
      else
        (case ev_Type evt of
           EventWorkflowStarted \<Rightarrow>
             if ev_Payload evt = RNil then lift (Panic ''handleWorkflowStarted: Payload must not be nil'')
             else startExistingRun E run (isRunTerminalChainPayload (ev_Payload evt))
         | EventStepCompleted \<Rightarrow> handleStepCompleted E run evt
         | EventStepSleepCompleted \<Rightarrow> handleStepCompleted E run evt
         | EventStepWaitMatched \<Rightarrow> handleStepCompleted E run evt
         | EventStepWaitTimeout \<Rightarrow> handleWaitTimeout E run evt
         | EventStepContinue \<Rightarrow> handleStepContinue E run evt
         | EventStepFailed \<Rightarrow> handleStepFailed E run evt
         | EventStepStarted \<Rightarrow> handleStepStarted E run evt
         | EventStepQueued \<Rightarrow> handleStepQueued E run evt
         | EventWorkflowSpawn \<Rightarrow> spawn
         | EventWorkflowChildCompleted \<Rightarrow> handleChildCompleted E run evt
         | EventWorkflowChildFailed \<Rightarrow> handleChildFailed E run evt
         | EventWorkflowCancelled \<Rightarrow> handleWorkflowCancelled E run evt
         | EventApprovalGranted \<Rightarrow> HandleGranted E run evt
         | EventApprovalRejected \<Rightarrow> HandleRejected E run evt
         | EventApprovalExpired \<Rightarrow> HandleExpired E run evt
         | EventStepInputQueued \<Rightarrow> handleInputQueued E run evt
         | EventStepWaitElapsed \<Rightarrow> handleWaitElapsed E run evt
         | _ \<Rightarrow> ret ()))"

definition dispatchEvent :: "unit handler \<Rightarrow> engine \<Rightarrow> WorkflowRun \<Rightarrow> Event \<Rightarrow> unit handler" where
  "dispatchEvent spawn E run evt =
     (if ev_RunID evt = [] then lift (Panic ''dispatchEvent: RunID must not be empty'')
      else if (case wr_Deadline run of None \<Rightarrow> False | Some d \<Rightarrow> en_now E > d) \<and> wr_Status run = RunStatusRunning
      then handleWorkflowCancelled E run evt
      else
        let handled = routeEvent spawn E run evt in
        bind handled (\<lambda>_.
          if hasUnsentStep run then resendUnsent E (stored run (fst handled)) else ret ()))"

end
