(* ===== verification/Engine_Contract.thy ===== *)
theory Engine_Contract
  imports Engine_Handlers
begin

text \<open>
  The contract of the orchestrator towards its store and its queues, and the proof that saving a
  snapshot and ending a run keep it. Calls are judged against the snapshot that is stored when they are made: a task is sent only once
  the snapshot records its dispatch, the end of a run is announced and its slots are released only once the
  end is stored, an end that is stored never changes, and a run ends as completed only when its steps are
  resolved. The contract also follows the steps of a set \<open>wt_steps\<close>: no snapshot lets the event of the
  dispatch \<open>wt_nonce\<close>, \<open>wt_iter\<close> pass the fence again.
\<close>

section \<open>The contract\<close>

definition final :: "WorkflowRun \<Rightarrow> bool" where
  "final r \<longleftrightarrow> IsTerminal (wr_Status r) \<and> wr_CompletedAt r \<noteq> None"

text \<open>What a handler never changes.\<close>

definition ident where
  "ident r = ((wr_RunID r, wr_WorkflowID r, wr_DefHash r, wr_Input r, wr_CreatedAt r, wr_Deadline r),
     (wr_ParentRunID r, wr_ParentStepID r, wr_RootRunID r, wr_Labels r, wr_TraceParent r, wr_TriggerDepth r),
     (wr_PriorityOffset r, wr_SingletonKey r, wr_ReleaseAttempts r, wr_Revision r))"

text \<open>A run that has no end time unless it has ended.\<close>

definition clean :: "WorkflowRun \<Rightarrow> bool" where
  "clean r \<longleftrightarrow> (wr_CompletedAt r \<noteq> None \<longrightarrow> IsTerminal (wr_Status r))"

definition ext :: "WorkflowRun \<Rightarrow> WorkflowRun \<Rightarrow> bool" where
  "ext r r' \<longleftrightarrow> ident r' = ident r \<and> (final r \<longrightarrow> final r') \<and> (clean r \<longrightarrow> clean r') \<and> mdom (wr_Steps r) \<subseteq> mdom (wr_Steps r')
     \<and> (\<exists>ds. wr_DynamicSteps r' = wr_DynamicSteps r @ ds)"

definition keeps :: "WorkflowRun \<Rightarrow> WorkflowRun \<Rightarrow> bool" where
  "keeps r r' \<longleftrightarrow> (final r \<longrightarrow> wr_Status r' = wr_Status r \<and> wr_CompletedAt r' = wr_CompletedAt r)"

definition complete_run :: "WorkflowDef \<Rightarrow> WorkflowRun \<Rightarrow> bool" where
  "complete_run d r \<longleftrightarrow> (\<exists>e. (EffectiveDef d r :: (engine_error, WorkflowDef) res) = Ok e \<and> IsComplete e (completedSet r))"

record watch =
  wt_def :: WorkflowDef
  wt_ready :: "WorkflowDef option"
  wt_steps :: "string set"
  wt_nonce :: string
  wt_iter :: int

definition stale :: "watch \<Rightarrow> StepState \<Rightarrow> bool" where
  "stale W s \<longleftrightarrow> ss_Status s \<notin> {StepStatusQueued, StepStatusRunning} \<or> ss_Iterations s \<noteq> wt_iter W
     \<or> ss_DispatchNonce s \<noteq> wt_nonce W"

definition mem :: "watch \<Rightarrow> WorkflowRun \<Rightarrow> WorkflowRun \<Rightarrow> bool" where
  "mem W r run \<longleftrightarrow> ext r run \<and> (\<forall>sid \<in> wt_steps W. stale W (step_of (wr_Steps run) sid))"

text \<open>The snapshot records the dispatch of a task, of the step itself or of a map step it is an instance of.\<close>

definition recorded :: "WorkflowRun \<Rightarrow> StepDef \<Rightarrow> string \<Rightarrow> bool" where
  "recorded r step nonce \<longleftrightarrow>
     (dispatched (status_of r (sd_ID step)) \<and> ss_DispatchNonce (step_of (wr_Steps r) (sd_ID step)) = nonce)
     \<or> (\<exists>base i. sd_ID step = mapInstanceID base i \<and> dispatched (status_of r base))"

definition ready_task :: "WorkflowDef \<Rightarrow> WorkflowRun \<Rightarrow> StepDef \<Rightarrow> bool" where
  "ready_task D r step \<longleftrightarrow>
     (\<exists>base \<in> set (wd_Steps D). \<not> bget (wd_AuxSteps D) (sd_ID base)
        \<and> (\<forall>dep \<in> set (sd_DependsOn base). resolved (status_of r dep))
        \<and> (step = base \<or> (\<exists>i. sd_ID step = mapInstanceID (sd_ID base) i)))"

definition admits :: "watch \<Rightarrow> WorkflowRun \<Rightarrow> action \<Rightarrow> bool" where
  "admits W r a =
     (case a of
        SaveRun r' \<Rightarrow>
          mem W r r' \<and> keeps r r' \<and>
          (final r' \<and> \<not> final r \<and> wr_Status r' = RunStatusCompleted \<longrightarrow> complete_run (wt_def W) r')
      | PublishTask step input run workflow nonce \<Rightarrow>
          run = r \<and> recorded r step nonce \<and> (case wt_ready W of None \<Rightarrow> True | Some D \<Rightarrow> ready_task D r step)
      | PublishLoopTask step input attempt iteration workflow nonce loopState \<Rightarrow>
          (let s = step_of (wr_Steps r) (sd_ID step)
           in wt_ready W = None \<and> attempt = ss_Attempts s \<and> iteration = ss_Iterations s \<and> nonce = ss_DispatchNonce s
              \<and> loopState = ss_LoopState s)
      | ScheduleTimer tm \<Rightarrow>
          tm_RunID tm = wr_RunID r \<and>
          (tm_DispatchNonce tm \<noteq> [] \<longrightarrow>
             tm_DispatchNonce tm = ss_DispatchNonce (step_of (wr_Steps r) (tm_StepID tm)) \<and>
             tm_Attempt tm = ss_Attempts (step_of (wr_Steps r) (tm_StepID tm)))
      | PublishRunEvent r' \<Rightarrow> r' = r \<and> final r
      | ReleaseAdmission r' \<Rightarrow> wr_RunID r' = wr_RunID r \<and> final r
      | DeleteActiveEntry runID \<Rightarrow> runID = wr_RunID r \<and> final r
      | CreateActiveEntry runID \<Rightarrow> runID = wr_RunID r \<and> final r
      | _ \<Rightarrow> True)"

section \<open>Changing a run in memory\<close>

lemma ident_upd [simp]:
  "ident (r\<lparr>wr_Status := a\<rparr>) = ident r" "ident (r\<lparr>wr_Steps := b\<rparr>) = ident r" "ident (r\<lparr>wr_DynamicSteps := c\<rparr>) = ident r"
  "ident (r\<lparr>wr_CompletedAt := t\<rparr>) = ident r" "ident (r\<lparr>wr_ReleasePending := p\<rparr>) = ident r"
  by (simp_all add: ident_def)

lemma ident_set_step [simp]: "ident (set_step sid s r) = ident r" "ident (set_status v sid r) = ident r"
  by (simp_all add: set_status_def set_step_def)

lemma identD:
  assumes "ident a = ident b"
  shows "wr_RunID a = wr_RunID b" "wr_WorkflowID a = wr_WorkflowID b" "wr_Input a = wr_Input b"
    "wr_ParentRunID a = wr_ParentRunID b" "wr_DefHash a = wr_DefHash b" "wr_Deadline a = wr_Deadline b"
  using assms by (simp_all add: ident_def)

lemma final_set_step [simp]: "final (set_step sid s r) = final r" "final (set_status v sid r) = final r"
  by (simp_all add: final_def set_status_def run_simps)

lemma final_steps [simp]: "final (r\<lparr>wr_Steps := s\<rparr>) = final r" "final (r\<lparr>wr_DynamicSteps := c\<rparr>) = final r"
  "final (r\<lparr>wr_ReleasePending := p\<rparr>) = final r"
  by (simp_all add: final_def)

lemma clean_simps [simp]: "clean (set_step sid s r) = clean r" "clean (set_status v sid r) = clean r"
  "clean (r\<lparr>wr_Steps := m\<rparr>) = clean r" "clean (r\<lparr>wr_DynamicSteps := c\<rparr>) = clean r" "clean (r\<lparr>wr_ReleasePending := p\<rparr>) = clean r"
  by (simp_all add: clean_def set_status_def run_simps)

lemma ext_refl [simp]: "ext r r"
  by (simp add: ext_def)

lemma ext_trans [trans]: "ext a b \<Longrightarrow> ext b c \<Longrightarrow> ext a c"
  unfolding ext_def by auto

lemma mdom_set_step [simp]: "mdom (wr_Steps (set_step sid s r)) = insert sid (mdom (wr_Steps r))"
  by (simp add: set_step_def)

lemma memD: "mem W r run \<Longrightarrow> ext r run" "mem W r run \<Longrightarrow> sid \<in> wt_steps W \<Longrightarrow> stale W (step_of (wr_Steps run) sid)"
  by (simp_all add: mem_def)

lemma mem_RunID: "mem W r run \<Longrightarrow> wr_RunID run = wr_RunID r"
  unfolding mem_def ext_def by (blast intro: identD(1))

lemma mem_set_step: "mem W r run \<Longrightarrow> (sid \<in> wt_steps W \<Longrightarrow> stale W s) \<Longrightarrow> mem W r (set_step sid s run)"
  by (auto simp: mem_def ext_def run_simps)

lemma mem_set_status:
  "mem W r run \<Longrightarrow> v \<notin> {StepStatusQueued, StepStatusRunning} \<Longrightarrow> mem W r (set_status v sid run)"
  unfolding set_status_def by (rule mem_set_step) (auto simp: stale_def)

lemma mem_fold_status:
  "mem W r run \<Longrightarrow> v \<notin> {StepStatusQueued, StepStatusRunning} \<Longrightarrow>
     mem W r (fold (\<lambda>step. set_status v (sd_ID step)) steps run)"
  by (induction steps arbitrary: run) (auto simp: mem_set_status)

lemma keeps_refl [simp]: "keeps r r"
  by (simp add: keeps_def)

lemma keeps_same: "same_run run' run \<Longrightarrow> keeps r run' = keeps r run"
  using same_runD(3) [of run' run] same_runD(5) [of run' run] by (simp add: keeps_def)

lemma keeps_set_step [simp]: "keeps r (set_step sid s run) = keeps r run" "keeps r (set_status v sid run) = keeps r run"
  by (simp_all add: keeps_def run_simps set_status_def)

lemma keeps_nonfinal: "\<not> final r \<Longrightarrow> keeps r run"
  by (simp add: keeps_def)

section \<open>Saving\<close>

text \<open>Two runs that differ in what a save itself fills in: the time a step ended, and whether it has inputs.\<close>

definition same_step :: "StepState \<Rightarrow> StepState \<Rightarrow> bool" where
  "same_step a b \<longleftrightarrow> (\<exists>t h. b = a\<lparr>ss_CompletedAt := t, ss_HasInputs := h\<rparr>)"

definition saved :: "WorkflowRun \<Rightarrow> WorkflowRun \<Rightarrow> bool" where
  "saved run run' \<longleftrightarrow> same_run run' run \<and> mdom (wr_Steps run') = mdom (wr_Steps run) \<and>
     (\<forall>sid. same_step (step_of (wr_Steps run) sid) (step_of (wr_Steps run') sid))"

lemma same_stepI: "same_step a (a\<lparr>ss_CompletedAt := t, ss_HasInputs := h\<rparr>)"
  unfolding same_step_def by blast

lemma same_step_upd [simp]: "same_step a a" "same_step a (a\<lparr>ss_CompletedAt := t\<rparr>)" "same_step a (a\<lparr>ss_HasInputs := h\<rparr>)"
  using same_stepI [of a "ss_HasInputs a" "ss_CompletedAt a"] same_stepI [of a "ss_HasInputs a" t]
    same_stepI [of a h "ss_CompletedAt a"] by simp_all

lemma same_step_trans: "same_step a b \<Longrightarrow> same_step b c \<Longrightarrow> same_step a c"
  unfolding same_step_def by (elim exE) (simp, blast)

lemma same_stepD:
  assumes "same_step a b"
  shows "ss_Status b = ss_Status a" "ss_Attempts b = ss_Attempts a" "ss_Iterations b = ss_Iterations a"
    "ss_DispatchNonce b = ss_DispatchNonce a" "ss_LoopState b = ss_LoopState a" "ss_WaitUntil b = ss_WaitUntil a"
    "ss_WaitInput b = ss_WaitInput a" "ss_DispatchUnsent b = ss_DispatchUnsent a"
  using assms unfolding same_step_def by (elim exE, simp)+

lemma saved_refl [simp]: "saved r r"
  by (simp add: saved_def)

lemma saved_trans [trans]: "saved a b \<Longrightarrow> saved b c \<Longrightarrow> saved a c"
  unfolding saved_def using same_run_trans [of c b a] same_step_trans by metis

lemma saved_step: "saved run run' \<Longrightarrow> same_step (step_of (wr_Steps run) sid) (step_of (wr_Steps run') sid)"
  by (simp add: saved_def)

lemmas saved_steps = same_stepD [OF saved_step]

lemma saved_run:
  assumes "saved run run'"
  shows "ident run' = ident run" "wr_Status run' = wr_Status run" "wr_CompletedAt run' = wr_CompletedAt run"
    "wr_DynamicSteps run' = wr_DynamicSteps run" "wr_RunID run' = wr_RunID run" "mdom (wr_Steps run') = mdom (wr_Steps run)"
    "final run' = final run" "clean run' = clean run"
proof -
  have *: "run' = run\<lparr>wr_Steps := wr_Steps run'\<rparr>" using assms by (simp add: saved_def same_run_def)
  show "ident run' = ident run" "wr_Status run' = wr_Status run" "wr_CompletedAt run' = wr_CompletedAt run"
    "wr_DynamicSteps run' = wr_DynamicSteps run" "wr_RunID run' = wr_RunID run" "final run' = final run"
    "clean run' = clean run"
    by (subst *, simp)+
  show "mdom (wr_Steps run') = mdom (wr_Steps run)" using assms by (simp add: saved_def)
qed

lemma mget_map_zero:
  assumes "f d = d"
  shows "mget d (map (\<lambda>(k, v). (k, f v)) m) k = f (mget d m k)"
  using mget_map_snd [of f d m k] assms by simp

lemma mdom_map: "mdom (map (\<lambda>(k, v). (k, f v)) m) = mdom m"
  by (induction m) auto

lemma saved_stamp: "saved run (run\<lparr>wr_Steps := stampTerminalSteps now (wr_Steps run)\<rparr>)"
proof -
  define f where "f = (\<lambda>state. if ss_CompletedAt state \<noteq> None then state
                  else if ss_Status state \<noteq> StepStatusCompleted \<and> ss_Status state \<noteq> StepStatusFailed then state
                  else stampCompleted now state)"
  have st: "stampTerminalSteps now m = map (\<lambda>(k, v). (k, f v)) m" for m
    by (simp add: stampTerminalSteps_def f_def)
  have z: "f zero_StepState = zero_StepState" by (simp add: f_def)
  have "same_step s (f s)" for s by (simp add: stampCompleted_def f_def)
  then show ?thesis
    by (simp add: saved_def same_run_def st mdom_map mget_map_zero [of f, OF z] del: set_map)
qed

lemma saved_set_inputs:
  assumes "sid \<in> mdom (wr_Steps run)"
  shows "saved run (set_step sid ((step_of (wr_Steps run) sid)\<lparr>ss_HasInputs := h\<rparr>) run)"
  using assms by (auto simp: saved_def run_simps)

lemma saved_fold_inputs:
  assumes "set ids \<subseteq> mdom (wr_Steps run)"
  shows "saved run (fold (\<lambda>sid run. set_step sid ((step_of (wr_Steps run) sid)\<lparr>ss_HasInputs := False\<rparr>) run) ids run)"
  using assms
proof (induction ids arbitrary: run)
  case (Cons sid ids)
  let ?r = "set_step sid ((step_of (wr_Steps run) sid)\<lparr>ss_HasInputs := False\<rparr>) run"
  have a: "saved run ?r" by (rule saved_set_inputs) (use Cons.prems in auto)
  have "saved ?r (fold (\<lambda>sid run. set_step sid ((step_of (wr_Steps run) sid)\<lparr>ss_HasInputs := False\<rparr>) run) ids ?r)"
    by (rule Cons.IH) (use Cons.prems in auto)
  with a show ?case by (simp add: saved_trans)
qed simp

lemma stale_same_step: "same_step a b \<Longrightarrow> stale W b = stale W a"
  by (simp add: stale_def same_stepD)

lemma mem_saved: "mem W r run \<Longrightarrow> saved run run' \<Longrightarrow> mem W r run'"
  by (auto simp: mem_def ext_def saved_run stale_same_step [OF saved_step])

lemma mem_self: "mem W r run \<Longrightarrow> mem W run run"
  by (simp add: mem_def)

lemma IsComplete_cong: "(\<And>sid. bget c sid = bget c' sid) \<Longrightarrow> IsComplete d c = IsComplete d c'"
  by (simp add: IsComplete_def)

lemma EffectiveDef_cong:
  "wr_DynamicSteps a = wr_DynamicSteps b \<Longrightarrow> wr_RunID a = wr_RunID b \<Longrightarrow> EffectiveDef d a = EffectiveDef d b"
  by (simp add: EffectiveDef_def EffectiveSteps_def)

lemma complete_run_saved:
  assumes "complete_run d run" "saved run run'" shows "complete_run d run'"
proof -
  have "IsComplete e (completedSet run') = IsComplete e (completedSet run)" for e
    by (rule IsComplete_cong) (simp add: run_simps saved_steps [OF assms(2)])
  moreover have "(EffectiveDef d run' :: (engine_error, WorkflowDef) res) = EffectiveDef d run"
    by (rule EffectiveDef_cong) (simp_all add: saved_run [OF assms(2)])
  ultimately show ?thesis using assms(1) by (simp add: complete_run_def)
qed

section \<open>Calls that are always admissible\<close>

fun neutral :: "action \<Rightarrow> bool" where
  "neutral (PublishEvent e) = True"
| "neutral (AddWaiter w) = True"
| "neutral (RemoveWaitersForRun x) = True"
| "neutral (ReleaseTaskSlot x y) = True"
| "neutral (ReleaseTaskHoldersOf xs) = True"
| "neutral (CreateBinding x y) = True"
| "neutral (DeleteBinding x) = True"
| "neutral (DeadLetter x y p e) = True"
| "neutral (PublishResponse x c b) = True"
| "neutral (StoreToken x y z t u) = True"
| "neutral (RequestApproval x y c z t) = True"
| "neutral (DeleteToken x y) = True"
| "neutral (SignalCancel x) = True"
| "neutral (SettleInputs x y) = True"
| "neutral (CreateVersion x d) = True"
| "neutral _ = False"

lemma neutral_step: "neutral a \<Longrightarrow> admits W r a \<and> next_run r a = r"
  by (cases a) (simp_all add: admits_def next_run_def)

lemma neutral_all: "list_all neutral acts \<Longrightarrow> allowed (admits W) r acts \<and> stored r acts = r"
  by (induction acts) (auto simp: neutral_step)

lemma next_other [simp]:
  "next_run r (PublishTask st i x w n) = r" "next_run r (PublishLoopTask st i a b w n l) = r"
  "next_run r (ScheduleTimer tm) = r" "next_run r (PublishRunEvent x) = r" "next_run r (ReleaseAdmission x) = r"
  "next_run r (DeleteActiveEntry y) = r" "next_run r (CreateActiveEntry y) = r"
  by (simp_all add: next_run_def)

lemma admits_simps [simp]:
  "admits W r (PublishTask step input run workflow nonce) =
     (run = r \<and> recorded r step nonce \<and> (case wt_ready W of None \<Rightarrow> True | Some D \<Rightarrow> ready_task D r step))"
  "admits W r (ScheduleTimer tm) =
     (tm_RunID tm = wr_RunID r \<and>
      (tm_DispatchNonce tm \<noteq> [] \<longrightarrow>
         tm_DispatchNonce tm = ss_DispatchNonce (step_of (wr_Steps r) (tm_StepID tm)) \<and>
         tm_Attempt tm = ss_Attempts (step_of (wr_Steps r) (tm_StepID tm))))"
  "admits W r (PublishRunEvent x) = (x = r \<and> final r)" "admits W r (ReleaseAdmission x) = (wr_RunID x = wr_RunID r \<and> final r)"
  "admits W r (DeleteActiveEntry y) = (y = wr_RunID r \<and> final r)"
  "admits W r (CreateActiveEntry y) = (y = wr_RunID r \<and> final r)"
  by (simp_all add: admits_def)

text \<open>A handler that leaves the store and the queues alone.\<close>

definition quiet :: "'a handler \<Rightarrow> bool" where
  "quiet m \<longleftrightarrow> list_all neutral (fst m)"

lemma quiet_sat: "quiet m \<Longrightarrow> (\<And>a. snd m = Ok a \<Longrightarrow> Q r a) \<Longrightarrow> sat (admits W) r m Q"
  by (simp add: sat_def quiet_def neutral_all)

lemma quiet_bind: "quiet m \<Longrightarrow> (\<And>a. snd m = Ok a \<Longrightarrow> quiet (f a)) \<Longrightarrow> quiet (bind m f)"
  by (cases m; cases "snd m") (auto simp: quiet_def)

lemma quiet_simps [simp]: "quiet (ret a)" "quiet (lift x)" "quiet (raise e)" "quiet (guard b g)"
  "quiet (emit acts) = list_all neutral acts"
  by (simp_all add: quiet_def ret_def lift_def raise_def guard_def emit_def)

lemma quiet_if: "(c \<Longrightarrow> quiet m) \<Longrightarrow> (\<not> c \<Longrightarrow> quiet m') \<Longrightarrow> quiet (if c then m else m')"
  by simp

lemma sat_bind_quiet:
  "quiet m \<Longrightarrow> (\<And>a. snd m = Ok a \<Longrightarrow> sat (admits W) r (f a) Q) \<Longrightarrow> sat (admits W) r (bind m f) Q"
  by (rule sat_bind [where P = "\<lambda>r' a. r' = r \<and> snd m = Ok a"], rule quiet_sat) auto

lemma quiet_publish_event [simp]: "quiet (publish_event e)"
  by (auto simp: publish_event_def intro: quiet_bind)

lemma quiet_notify [simp]: "quiet (notifyParentIfChild E run err)" "quiet (publishHistoryTerminalEvent E st runID)"
  by (auto simp: notifyParentIfChild_def publishHistoryTerminalEvent_def split: RunStatus.split)

lemma quiet_dead_letter [simp]: "quiet (PublishDeadLetter run wfDef stepDef state)" "quiet (dead_letter E run wfDef stepDef state)"
proof -
  show "quiet (PublishDeadLetter run wfDef stepDef state)"
    by (auto simp: PublishDeadLetter_def intro!: quiet_bind split: res.split)
  then show "quiet (dead_letter E run wfDef stepDef state)"
    by (auto simp: dead_letter_def intro!: quiet_bind quiet_if)
qed

lemma quiet_self_heal [simp]: "quiet (selfHealMissingVersion E run key)"
  by (auto simp: selfHealMissingVersion_def intro!: quiet_bind split: res.split)

lemma quiet_load [simp]: "quiet (loadPinnedOrLatestDef E run)" "quiet (loadRunAndDef E run)"
proof -
  show q: "quiet (loadPinnedOrLatestDef E run)"
    by (auto simp: loadPinnedOrLatestDef_def intro!: quiet_bind split: res.split def_error.split option.split)
  show "quiet (loadRunAndDef E run)"
    using q by (cases "loadPinnedOrLatestDef E run")
      (auto simp: loadRunAndDef_def quiet_def split: res.split)
qed

lemma quiet_release_slot [simp]: "quiet (releaseTaskSlot E wfDef runID stepID)"
  by (auto simp: releaseTaskSlot_def intro!: quiet_bind split: option.split)

section \<open>Saving and ending a run\<close>

lemma resave:
  assumes "mem W run run" "saved run run'"
  shows "admits W run (SaveRun run')" "next_run run (SaveRun run') = run'"
  using mem_saved [OF assms] saved_run [OF assms(2)] by (auto simp: admits_def keeps_def next_run_def)

lemma settle_sat:
  assumes m: "mem W run run"
  shows "sat (admits W) run (settleFinishedSteps E run) (\<lambda>r' run'. r' = run' \<and> saved run run')"
proof -
  define due where "due = map fst (filter (\<lambda>(sid, state). ss_HasInputs state \<and>
    (stepFinished state \<or> IsTerminal (wr_Status run))) (wr_Steps run))"
  define run' where "run' = fold (\<lambda>sid run. set_step sid ((step_of (wr_Steps run) sid)\<lparr>ss_HasInputs := False\<rparr>) run)
                 (filter (en_settles E) due) run"
  have s: "saved run run'" unfolding run'_def by (rule saved_fold_inputs) (auto simp: due_def)
  have eq: "settleFinishedSteps E run = bind (emit (map (SettleInputs (wr_RunID run)) due)) (\<lambda>_.
      if filter (en_settles E) due = [] then ret run else bind (emit [SaveRun run']) (\<lambda>_. ret run'))"
    by (simp only: settleFinishedSteps_def Let_def due_def run'_def)
  show ?thesis unfolding eq
    by (rule sat_bind_quiet) (auto simp: list_all_iff resave [OF m s] s intro!: sat_intros sat_bind_emit)
qed

lemma saveSnapshot_sat:
  assumes "mem W r run" "keeps r run"
    "final run \<Longrightarrow> \<not> final r \<Longrightarrow> wr_Status run = RunStatusCompleted \<Longrightarrow> complete_run (wt_def W) run"
  shows "sat (admits W) r (saveSnapshot E run) (\<lambda>r' run'. r' = run' \<and> saved run run' \<and> mem W run' run')"
proof -
  define run1 where "run1 = run\<lparr>wr_Steps := stampTerminalSteps (en_now E) (wr_Steps run)\<rparr>"
  have s: "saved run run1" unfolding run1_def by (rule saved_stamp)
  note sr = saved_run [OF s]
  have m1: "mem W r run1" by (rule mem_saved [OF assms(1) s])
  have "admits W r (SaveRun run1)"
    using m1 assms(2,3) complete_run_saved [OF _ s] by (simp add: admits_def keeps_def sr)
  moreover have "next_run r (SaveRun run1) = run1" using mem_RunID [OF m1] by (simp add: next_run_def)
  moreover have "sat (admits W) run1 (settleFinishedSteps E run1)
      (\<lambda>r' run'. r' = run' \<and> saved run run' \<and> mem W run' run')"
    by (rule sat_weaken [OF settle_sat [OF mem_self [OF m1]]])
      (use s m1 saved_trans mem_saved mem_self in blast)
  ultimately show ?thesis
    unfolding saveSnapshot_def Let_def run1_def [symmetric]
    by (intro sat_intros sat_bind_emit) simp_all
qed

lemma sat_save:
  assumes "mem W r run" "keeps r run"
    "final run \<Longrightarrow> \<not> final r \<Longrightarrow> wr_Status run = RunStatusCompleted \<Longrightarrow> complete_run (wt_def W) run"
    "\<And>run'. saved run run' \<Longrightarrow> mem W run' run' \<Longrightarrow> sat (admits W) run' (f run') Q"
  shows "sat (admits W) r (bind (saveSnapshot E run) f) Q"
  by (rule sat_bind [OF saveSnapshot_sat [OF assms(1-3)]]) (use assms(4) in auto)

lemma publishRunEvent_sat: "final r \<Longrightarrow> sat (admits W) r (publishRunEvent r) (\<lambda>r' _. r' = r)"
  unfolding publishRunEvent_def
  by (intro sat_bind_guard sat_emit) (simp_all add: admits_def next_run_def)

lemma allowed_afterPersist:
  assumes "final r" "set acts \<subseteq> insert (ReleaseAdmission run) (range DeleteBinding)" "wr_RunID run = wr_RunID r"
  shows "allowed (admits W) r acts" "stored r acts = r"
  using assms(2) by (induction acts) (auto simp: admits_def next_run_def assms)

lemma mem_release: "mem W r (run\<lparr>wr_ReleasePending := p\<rparr>) = mem W r run"
  by (simp add: mem_def ext_def)

lemma release_debt_sat:
  assumes "final run" "mem W run run"
  shows "sat (admits W) run (finalizeWithReleaseDebt E run status) (\<lambda>r' run'. mem W r' run')"
  unfolding finalizeWithReleaseDebt_def
proof (intro sat_bind_guard, rule sat_bind [OF saveSnapshot_sat])
  show "mem W run (run\<lparr>wr_ReleasePending := True\<rparr>)" using assms(2) by (simp add: mem_release)
  show "keeps run (run\<lparr>wr_ReleasePending := True\<rparr>)" by (simp add: keeps_def)
  fix r' run' assume "r' = run' \<and> saved (run\<lparr>wr_ReleasePending := True\<rparr>) run' \<and> mem W run' run'"
  then have r': "r' = run'" and s: "saved (run\<lparr>wr_ReleasePending := True\<rparr>) run'" and m: "mem W run' run'" by auto
  have f: "final run'" using saved_run(7) [OF s] assms(1) by simp
  show "sat (admits W) r' (bind (emit [CreateActiveEntry (wr_RunID run')]) (\<lambda>_.
     bind (publishHistoryTerminalEvent E status (wr_RunID run')) (\<lambda>_.
     bind (publishRunEvent run') (\<lambda>_. ret run')))) (\<lambda>r' run'. mem W r' run')"
    unfolding r'
    by (rule sat_bind_emit; simp add: next_other f)
      (rule sat_bind_quiet, simp, rule sat_bind [OF publishRunEvent_sat [OF f]], simp add: sat_ret m)
qed (use assms in simp)

lemma complete_run_status: "complete_run d (run\<lparr>wr_Status := v, wr_CompletedAt := t\<rparr>) = complete_run d run"
  by (simp add: complete_run_def EffectiveDef_def EffectiveSteps_def completedSet_def)

lemma mem_terminal:
  assumes "mem W r run" "IsTerminal v"
  shows "mem W r (run\<lparr>wr_Status := v, wr_CompletedAt := Some t\<rparr>)" "final (run\<lparr>wr_Status := v, wr_CompletedAt := Some t\<rparr>)"
  using assms by (auto simp: mem_def ext_def ident_def final_def clean_def)

lemma announce_sat:
  assumes f: "final run" and m: "mem W run run"
    and acts: "set acts \<subseteq> insert (ReleaseAdmission run0) (range DeleteBinding)" and id: "wr_RunID run0 = wr_RunID run"
  shows "sat (admits W) run (bind (emit acts) (\<lambda>_.
          if acts \<noteq> [] \<and> en_releaseFails E then finalizeWithReleaseDebt E run status
          else
            bind (emit [DeleteActiveEntry (wr_RunID run)]) (\<lambda>_.
            bind (publishHistoryTerminalEvent E status (wr_RunID run)) (\<lambda>_.
            bind (publishRunEvent run) (\<lambda>_. ret run))))) (\<lambda>r' run'. mem W r' run')"
proof -
  note ap = allowed_afterPersist [OF f acts id]
  show ?thesis
    by (rule sat_bind_emit, rule ap, unfold ap, intro sat_if release_debt_sat [OF f m])
      (rule sat_bind_emit, simp add: f, simp, rule sat_bind_quiet, simp,
       rule sat_bind [OF publishRunEvent_sat [OF f]], simp add: sat_ret m)
qed

lemma finalizeRun_sat:
  assumes m: "mem W r run" and c: "status = RunStatusCompleted \<Longrightarrow> complete_run (wt_def W) run"
    and acts: "set acts \<subseteq> insert (ReleaseAdmission run) (range DeleteBinding)"
  shows "sat (admits W) r (finalizeRun E run status acts) (\<lambda>r' run'. mem W r' run')"
  unfolding finalizeRun_def final_def [symmetric]
proof (intro sat_if sat_bind_lift, goal_cases)
  case 1
  show ?case by (rule sat_ret) (rule m)
next
  case (2 run1)
  then have run1: "run1 = run\<lparr>wr_Status := status, wr_CompletedAt := Some (en_now E)\<rparr>" and t: "IsTerminal status"
    by (auto simp: markTerminal_def split: if_splits)
  note m1 = mem_terminal [OF m t, of "en_now E", folded run1]
  have "\<not> final r" using memD(1) [OF m] 2(1) by (auto simp: ext_def)
  moreover have "wr_Status run1 = RunStatusCompleted \<Longrightarrow> complete_run (wt_def W) run1"
    using c by (simp add: run1 complete_run_status)
  moreover have "wr_RunID run = wr_RunID run2" "final run2" if "saved run1 run2" for run2
    using saved_run(5,7) [OF that] m1(2) by (simp_all add: run1)
  ultimately show ?case
    by (intro sat_save announce_sat [OF _ _ acts] m1 keeps_nonfinal) simp_all
qed

lemma failWorkflow_sat:
  assumes "mem W r run" shows "sat (admits W) r (failWorkflow E run stepDef state) (\<lambda>_ _. True)"
  unfolding failWorkflow_def
  by (rule sat_bind [OF finalizeRun_sat [OF assms]], simp, simp)
    (auto intro!: quiet_sat quiet_bind quiet_if)

lemma failOnOutputSchema_sat:
  assumes "mem W r run" shows "sat (admits W) r (failOnOutputSchema E run stepID v) (\<lambda>_ _. True)"
  unfolding failOnOutputSchema_def Let_def
  by (intro sat_intros failWorkflow_sat mem_set_step assms) (simp add: stale_def)

lemma completeWorkflow_sat:
  assumes "mem W r run" "complete_run (wt_def W) run"
  shows "sat (admits W) r (completeWorkflow E run) (\<lambda>_ _. True)"
  unfolding completeWorkflow_def
  by (intro sat_intros sat_bind_lift failOnOutputSchema_sat assms sat_bind [OF finalizeRun_sat [OF assms(1)]])
    (auto simp: assms intro: quiet_sat)

end
