(* ===== verification/Dispatch_Contract.thy ===== *)
theory Dispatch_Contract
  imports Engine_Contract
begin

text \<open>
  Dispatching keeps the contract of the orchestrator: \<open>enqueueReady\<close> saves one snapshot with all dispatches
  stamped before it sends any of them, and sends tasks only for steps whose dependencies are resolved.
\<close>

section \<open>Effects after a save\<close>

text \<open>Calls that are admissible for the stored run and leave it alone, whether the handler succeeds or not.\<close>

definition steady :: "watch \<Rightarrow> WorkflowRun \<Rightarrow> 'a handler \<Rightarrow> bool" where
  "steady W r m \<longleftrightarrow> list_all (\<lambda>a. admits W r a \<and> next_run r a = r) (fst m)"

lemma steady_trace: "list_all (\<lambda>a. admits W r a \<and> next_run r a = r) acts \<Longrightarrow> allowed (admits W) r acts \<and> stored r acts = r"
  by (induction acts) auto

lemma steady_sat: "steady W r m \<Longrightarrow> (\<And>a. snd m = Ok a \<Longrightarrow> Q r a) \<Longrightarrow> sat (admits W) r m Q"
  by (simp add: sat_def steady_def steady_trace)

lemma steady_quiet: "quiet m \<Longrightarrow> steady W r m"
  by (auto simp: quiet_def steady_def list_all_iff neutral_step)

lemma steady_bind: "steady W r m \<Longrightarrow> (\<And>a. snd m = Ok a \<Longrightarrow> steady W r (f a)) \<Longrightarrow> steady W r (bind m f)"
  by (cases m; cases "snd m") (auto simp: steady_def)

lemma steady_simps [simp]: "steady W r (ret a)" "steady W r (lift x)" "steady W r (raise e)" "steady W r (guard b g)"
  "steady W r (emit acts) = list_all (\<lambda>a. admits W r a \<and> next_run r a = r) acts"
  by (simp_all add: steady_def ret_def lift_def raise_def guard_def emit_def)

lemma steady_if: "(c \<Longrightarrow> steady W r m) \<Longrightarrow> (\<not> c \<Longrightarrow> steady W r m') \<Longrightarrow> steady W r (if c then m else m')"
  by simp

lemma sat_bind_steady:
  "steady W r m \<Longrightarrow> (\<And>a. snd m = Ok a \<Longrightarrow> sat (admits W) r (f a) Q) \<Longrightarrow> sat (admits W) r (bind m f) Q"
  by (rule sat_bind [where P = "\<lambda>r' a. r' = r \<and> snd m = Ok a"], rule steady_sat) auto

lemma snd_bind_Ok: "snd (bind m f) = Ok b \<longleftrightarrow> (\<exists>a. snd m = Ok a \<and> snd (f a) = Ok b)"
  by (cases m; cases "snd m") auto

lemma bind_simps [simp]: "bind (ret a) f = f a" "bind (raise e) f = raise e" "bind (lift (Panic p)) f = lift (Panic p)"
  "bind (lift (Ok a)) f = f a" "bind (lift (Err e)) f = raise e"
  by (simp_all add: ret_def raise_def lift_def)

lemma snd_simps [simp]: "snd (ret a) = Ok a" "snd (lift x) = x" "snd (raise e) = Err e" "snd (emit acts) = Ok ()"
  "snd (guard b g) = Ok () \<longleftrightarrow> \<not> b"
  by (simp_all add: ret_def lift_def raise_def emit_def guard_def panic_if_def)

text \<open>A timer that names no dispatch, or the one that is stored.\<close>

lemma schedule_steady:
  assumes "tm_RunID tm = wr_RunID r"
    "tm_DispatchNonce tm \<noteq> [] \<Longrightarrow> tm_DispatchNonce tm = ss_DispatchNonce (step_of (wr_Steps r) (tm_StepID tm))
       \<and> tm_Attempt tm = ss_Attempts (step_of (wr_Steps r) (tm_StepID tm))"
  shows "steady W r (schedule tm)"
  unfolding schedule_def by (rule steady_bind) (use assms in auto)

lemma publish_task_steady:
  assumes "recorded r step nonce" "wt_ready W = None \<or> (\<exists>D. wt_ready W = Some D \<and> ready_task D r step)"
  shows "steady W r (publish_task step input r name nonce)"
  unfolding publish_task_def by (intro steady_bind) (use assms in auto)

section \<open>Planning\<close>

text \<open>What planning changes: the steps it plans, and of them neither the nonce nor that they are dispatched.\<close>

definition planned :: "string set \<Rightarrow> WorkflowRun \<Rightarrow> WorkflowRun \<Rightarrow> bool" where
  "planned ids run run' \<longleftrightarrow> same_run run' run \<and> mdom (wr_Steps run) \<subseteq> mdom (wr_Steps run')
     \<and> (\<forall>sid. sid \<notin> ids \<longrightarrow> step_of (wr_Steps run') sid = step_of (wr_Steps run) sid)
     \<and> (\<forall>sid. ss_DispatchNonce (step_of (wr_Steps run') sid) = ss_DispatchNonce (step_of (wr_Steps run) sid)
           \<and> (dispatched (status_of run sid) \<longrightarrow> dispatched (status_of run' sid)))"

lemma planned_refl [simp]: "planned ids run run"
  by (simp add: planned_def)

lemma planned_trans: "planned A a b \<Longrightarrow> planned B b c \<Longrightarrow> planned (A \<union> B) a c"
  unfolding planned_def using same_run_trans [of c b a] by auto

lemma planned_set_step:
  assumes "ss_DispatchNonce s = ss_DispatchNonce (step_of (wr_Steps run) sid)"
    "dispatched (status_of run sid) \<Longrightarrow> dispatched (ss_Status s)"
  shows "planned {sid} run (set_step sid s run)"
  using assms by (auto simp: planned_def run_simps)

lemma same_run_final: "same_run a b \<Longrightarrow> final a = final b"
  using same_runD(3) [of a b] same_runD(5) [of a b] by (simp add: final_def)

lemma same_run_eq: "same_run a b \<Longrightarrow> \<exists>s. a = b\<lparr>wr_Steps := s\<rparr>"
  by (auto simp: same_run_def)

lemma mem_planned:
  assumes "mem W r run" "planned ids run run'"
    "\<And>sid. sid \<in> ids \<Longrightarrow> sid \<in> wt_steps W \<Longrightarrow> ss_DispatchNonce (step_of (wr_Steps run) sid) \<noteq> wt_nonce W"
  shows "mem W r run'"
proof -
  obtain s where s: "run' = run\<lparr>wr_Steps := s\<rparr>" using assms(2) same_run_eq [of run' run] by (auto simp: planned_def)
  have "ext run run'" using assms(2) unfolding ext_def planned_def by (simp add: s)
  then have "ext r run'" using memD(1) [OF assms(1)] ext_trans by blast
  moreover have "stale W (step_of (wr_Steps run') sid)" if "sid \<in> wt_steps W" for sid
  proof (cases "sid \<in> ids")
    case True
    then show ?thesis using assms(2) assms(3) [OF True that] by (auto simp: planned_def stale_def)
  next
    case False
    then show ?thesis using assms(1,2) that by (simp add: planned_def mem_def)
  qed
  ultimately show ?thesis by (simp add: mem_def)
qed

text \<open>What the task of a planned step needs of the snapshot.\<close>

definition sendable :: "watch \<Rightarrow> WorkflowRun \<Rightarrow> StepDef \<Rightarrow> bool" where
  "sendable W r step \<longleftrightarrow> dispatched (status_of r (sd_ID step))
     \<and> (\<forall>D. wt_ready W = Some D \<longrightarrow> step \<in> set (wd_Steps D) \<and> \<not> bget (wd_AuxSteps D) (sd_ID step)
          \<and> (\<forall>dep \<in> set (sd_DependsOn step). resolved (status_of r dep)))"

definition effect_ok :: "watch \<Rightarrow> string \<Rightarrow> StepDef \<Rightarrow> effect \<Rightarrow> bool" where
  "effect_ok W runID step eff \<longleftrightarrow> (\<forall>r. wr_RunID r = runID \<longrightarrow> sendable W r step \<longrightarrow> steady W r (eff r))"

lemma quiet_effect: "(\<And>r. quiet (eff r)) \<Longrightarrow> effect_ok W runID step eff"
  by (simp add: effect_ok_def steady_quiet)

lemma map_tasks_steady:
  assumes "sendable W r step" shows "steady W r (publishMapTasks E name step i items r)"
proof (induction items arbitrary: i)
  case (Cons item items)
  let ?step = "step\<lparr>sd_ID := mapInstanceID (sd_ID step) i,
            sd_RequiredCapabilities := stripControlPlaneCapability (sd_RequiredCapabilities step)\<rparr>"
  have "recorded r ?step n" for n using assms by (auto simp: recorded_def sendable_def)
  moreover have "wt_ready W = None \<or> (\<exists>D. wt_ready W = Some D \<and> ready_task D r ?step)"
    using assms by (cases "wt_ready W") (auto simp: sendable_def ready_task_def)
  ultimately have "steady W r (publish_task ?step (RJson item) r name n)" for n by (rule publish_task_steady)
  then show ?case unfolding publishMapTasks.simps Let_def by (rule steady_bind) (rule Cons.IH)
qed simp

text \<open>The planner of each kind of step.\<close>

abbreviation plan_post :: "watch \<Rightarrow> WorkflowRun \<Rightarrow> WorkflowRun \<Rightarrow> StepDef \<Rightarrow> WorkflowRun \<Rightarrow> WorkflowRun \<times> effect \<Rightarrow> bool" where
  "plan_post W r run step \<equiv>
     \<lambda>r' (run', eff). r' = r \<and> planned {sd_ID step} run run' \<and> effect_ok W (wr_RunID run) step eff"

lemma planSubWorkflow_sat: "sat (admits W) r (planSubWorkflow E run step) (plan_post W r run step)"
  unfolding planSubWorkflow_def markSpawnedStep_def resolve_input_def Let_def
  by (intro sat_intros sat_bind_lift)
    (auto intro!: sat_intros planned_set_step quiet_effect simp: publishSpawnEvent_def split: option.split)

lemma planMapStep_sat: "sat (admits W) r (planMapStep E D run step) (plan_post W r run step)"
  unfolding planMapStep_def validateAndInitMapInstances_def Let_def
  by (auto intro!: sat_intros planned_set_step map_tasks_steady simp: effect_ok_def
      split: list.split res.split option.split)

lemma sendTimer_steady: "steady W r (sendTimer E stepID d r)"
  unfolding sendTimer_def
  by (intro steady_bind steady_quiet quiet_publish_event schedule_steady) (simp_all add: zero_TimerMessage_def)

lemma sleep_fail_sat:
  assumes "mem W r run" shows "sat (admits W) r (sleep_fail E run step reason) Q"
  unfolding sleep_fail_def Let_def
  by (intro sat_intros sat_bind [OF failWorkflow_sat] mem_set_step assms) (simp_all add: stale_def)

lemma sleep_plan_sat:
  assumes "mem W r run" shows "sat (admits W) r (sleep_plan E run step) (plan_post W r run step)"
  unfolding sleep_plan_def Let_def
  by (intro sat_intros sleep_fail_sat [OF assms])
    (auto simp: effect_ok_def sendTimer_steady intro!: planned_set_step)

lemma waitForEventSend_post:
  "quiet (waitForEventSend E run step)"
  "snd (waitForEventSend E run step) = Ok eff \<Longrightarrow> wr_RunID r = wr_RunID run \<Longrightarrow> steady W r (eff r)"
proof -
  show "quiet (waitForEventSend E run step)"
    by (auto simp: waitForEventSend_def Let_def intro!: quiet_bind quiet_if)
  assume "snd (waitForEventSend E run step) = Ok eff" and id: "wr_RunID r = wr_RunID run"
  then obtain waiter timeout where "eff = startWaitForEvent E waiter timeout" "ew_RunID waiter = wr_RunID run"
    by (auto simp: waitForEventSend_def Let_def snd_bind_Ok split: if_splits)
  with id show "steady W r (eff r)"
    by (auto simp: startWaitForEvent_def scheduleWaitTimeout_def zero_TimerMessage_def admits_def next_run_def
        intro!: steady_bind steady_quiet [OF quiet_publish_event] schedule_steady)
qed

lemma planWaitForEventStep_sat: "sat (admits W) r (planWaitForEventStep E run step) (plan_post W r run step)"
  unfolding planWaitForEventStep_def
  by (intro sat_intros sat_bind_quiet waitForEventSend_post)
    (auto simp: set_status_def effect_ok_def intro!: planned_set_step waitForEventSend_post)

lemma approval_Plan_sat: "sat (admits W) r (approval_Plan E run step) (plan_post W r run step)"
  unfolding approval_Plan_def activate_def Let_def
  by (intro sat_intros sat_bind_lift)
    (auto simp: set_status_def effect_ok_def zero_TimerMessage_def admits_def next_run_def
      intro!: planned_set_step steady_bind schedule_steady)

lemma respond_plan_sat: "sat (admits W) r (respond_plan E run step) (plan_post W r run step)"
  unfolding respond_plan_def
  by (intro sat_intros sat_bind_lift)
    (auto simp: planRespondStep_def Let_def res_simps intro!: planned_set_step quiet_effect quiet_bind split: if_splits)

abbreviation step_post :: "watch \<Rightarrow> WorkflowRun \<Rightarrow> WorkflowRun \<Rightarrow> StepDef \<Rightarrow> WorkflowRun \<Rightarrow> WorkflowRun \<times> effect option \<Rightarrow> bool" where
  "step_post W r run step \<equiv>
     \<lambda>r' (run', eff). r' = r \<and> planned {sd_ID step} run run' \<and> (\<forall>e. eff = Some e \<longrightarrow> effect_ok W (wr_RunID run) step e)"

lemma sat_some:
  "sat ok r m (plan_post W r run step) \<Longrightarrow>
     sat ok r (bind m (\<lambda>(run, eff). ret (run, Some eff))) (step_post W r run step)"
  by (rule sat_bind, assumption) (auto intro!: sat_intros)

lemma planStep_sat:
  assumes "mem W r run" shows "sat (admits W) r (planStep E D run step) (step_post W r run step)"
proof -
  note kinds = planSubWorkflow_sat planMapStep_sat sleep_plan_sat [OF assms] planWaitForEventStep_sat
    approval_Plan_sat respond_plan_sat
  show ?thesis
    unfolding planStep_def Let_def
    by (intro sat_if sat_panic; cases "sd_Type step"; simp only: StepType.case)
      ((rule sat_some, rule kinds) | (rule sat_ret, simp))+
qed

text \<open>The plan of a list of steps.\<close>

definition plan_ok :: "watch \<Rightarrow> string \<Rightarrow> StepDef list \<Rightarrow> dispatchPlan \<Rightarrow> bool" where
  "plan_ok W runID ready plan \<longleftrightarrow> set (dp_normalSteps plan) \<subseteq> set ready
     \<and> (\<forall>(sid, eff) \<in> set (dp_effects plan). \<exists>step \<in> set ready. effect_ok W runID step eff)"

lemma plan_ok_empty [simp]: "plan_ok W runID ready empty_plan"
  by (simp add: plan_ok_def empty_plan_def)

lemma plan_ok_mono: "plan_ok W runID ready plan \<Longrightarrow> set ready \<subseteq> set ready' \<Longrightarrow> plan_ok W runID ready' plan"
  unfolding plan_ok_def by fast

lemma plan_ok_add:
  assumes "plan_ok W runID ready plan" "step \<in> set ready"
  shows "plan_ok W runID ready (plan\<lparr>dp_normalSteps := dp_normalSteps plan @ [step]\<rparr>)"
    "effect_ok W runID step e \<Longrightarrow> plan_ok W runID ready (plan\<lparr>dp_effects := dp_effects plan @ [(sid, e)]\<rparr>)"
    "plan_ok W runID ready (plan\<lparr>dp_continueRun := b\<rparr>)"
    "plan_ok W runID ready (plan\<lparr>dp_alreadySent := ids\<rparr>)"
  using assms by (auto simp: plan_ok_def)

lemma planDispatch_sat:
  assumes "mem W r run" "plan_ok W (wr_RunID run) all plan" "set ready \<subseteq> set all"
    "\<And>step. step \<in> set ready \<Longrightarrow> sd_ID step \<in> wt_steps W \<Longrightarrow>
       ss_DispatchNonce (step_of (wr_Steps run) (sd_ID step)) \<noteq> wt_nonce W"
  shows "sat (admits W) r (planDispatch E D run ready plan)
    (\<lambda>r' (run', plan'). r' = r \<and> planned (set (step_ids ready)) run run' \<and> mem W r run' \<and> plan_ok W (wr_RunID run) all plan')"
  using assms
proof (induction ready arbitrary: run plan)
  case Nil
  then show ?case by (simp add: sat_ret)
next
  case (Cons step ready)
  show ?case unfolding planDispatch.simps
  proof (rule sat_bind [OF planStep_sat [OF Cons.prems(1)]], clarify, goal_cases)
    case (1 _ run1 eff)
    then have p: "planned {sd_ID step} run run1" and e: "\<And>x. eff = Some x \<Longrightarrow> effect_ok W (wr_RunID run) step x"
      by auto
    have id: "wr_RunID run1 = wr_RunID run" using p same_runD(1) by (auto simp: planned_def)
    have m: "mem W r run1" by (rule mem_planned [OF Cons.prems(1) p]) (use Cons.prems(4) in auto)
    define plan1 where "plan1 = (case eff of
            None \<Rightarrow> plan\<lparr>dp_normalSteps := dp_normalSteps plan @ [step]\<rparr>
          | Some e \<Rightarrow>
              let plan = plan\<lparr>dp_effects := dp_effects plan @ [(sd_ID step, e)]\<rparr>
              in if sd_Type step = StepTypeSubWorkflow \<and> status_of run1 (sd_ID step) = StepStatusCompleted
                 then plan\<lparr>dp_continueRun := True\<rparr> else plan)"
    have st: "step \<in> set all" using Cons.prems(3) by simp
    have pl: "plan_ok W (wr_RunID run) all plan1"
      unfolding plan1_def Let_def
      by (cases eff) (auto intro!: plan_ok_add [OF _ st] Cons.prems(2) e)
    have "sat (admits W) r (planDispatch E D run1 ready plan1)
      (\<lambda>r' (run', plan'). r' = r \<and> planned (set (step_ids ready)) run1 run' \<and> mem W r run' \<and> plan_ok W (wr_RunID run1) all plan')"
      by (rule Cons.IH [OF m]) (use pl id Cons.prems(3,4) p in \<open>auto simp: planned_def\<close>)
    then show ?case unfolding plan1_def [symmetric]
      by (rule sat_weaken) (use planned_trans [OF p] id in auto)
  qed
qed

section \<open>Sending\<close>

lemma run_effects_steady:
  "(\<And>sid eff. (sid, eff) \<in> set effs \<Longrightarrow> steady W r (eff r)) \<Longrightarrow> steady W r (run_effects r effs)"
proof (induction effs)
  case (Cons x effs)
  obtain sid eff where x: "x = (sid, eff)" by (cases x)
  have a: "steady W r (eff r)" and b: "steady W r (run_effects r effs)" using Cons x by auto
  show ?case
    using a b by (cases "eff r"; cases "snd (eff r)") (auto simp: x steady_def emit_def ret_def intro!: steady_bind [unfolded steady_def])
qed simp

lemma PublishBatch_steady:
  "(\<And>step. step \<in> set steps \<Longrightarrow> sendable W r step) \<Longrightarrow> steady W r (PublishBatch r steps)"
proof (induction steps)
  case (Cons step steps)
  have s: "sendable W r step" using Cons.prems by simp
  have "recorded r step (ss_DispatchNonce (step_of (wr_Steps r) (sd_ID step)))"
    using s by (simp add: recorded_def sendable_def)
  moreover have "wt_ready W = None \<or> (\<exists>D. wt_ready W = Some D \<and> ready_task D r step)"
    using s by (cases "wt_ready W") (auto simp: sendable_def ready_task_def)
  ultimately have "steady W r (publish_task step input r (wr_WorkflowID r) (ss_DispatchNonce (step_of (wr_Steps r) (sd_ID step))))"
    for input by (rule publish_task_steady)
  then show ?case
    unfolding PublishBatch.simps resolve_input_def by (intro steady_bind steady_simps Cons.IH) (use Cons.prems in auto)
qed simp

lemma sendPlan_steady:
  assumes e: "\<And>sid eff. (sid, eff) \<in> set (dp_effects plan) \<Longrightarrow> steady W r (eff r)"
    and n: "\<And>step. step \<in> set (dp_normalSteps plan) \<Longrightarrow> sendable W r step"
  shows "steady W r (sendPlan r plan)"
proof -
  have "steady W r (PublishBatch r (dp_normalSteps plan))" by (rule PublishBatch_steady [OF n])
  then have b: "steady W r (case PublishBatch r (dp_normalSteps plan) of
            (acts, Ok u) \<Rightarrow> bind (emit acts) (\<lambda>_. ret (f acts))
          | (acts, Err e) \<Rightarrow> bind (emit acts) (\<lambda>_. ret (g acts e))
          | (acts, Panic p) \<Rightarrow> (acts, Panic p))" for f :: "_ \<Rightarrow> 'a" and g
    by (cases "PublishBatch r (dp_normalSteps plan)"; cases "snd (PublishBatch r (dp_normalSteps plan))")
      (auto simp: steady_def emit_def ret_def)
  show ?thesis
    unfolding sendPlan_def Let_def by (rule steady_bind, rule run_effects_steady, rule e) (auto intro!: b)
qed

lemma plan_ok_steady:
  assumes "plan_ok W (wr_RunID r) ready plan" "\<And>step. step \<in> set ready \<Longrightarrow> sendable W r step"
  shows "steady W r (sendPlan r plan)"
  by (rule sendPlan_steady) (use assms in \<open>fastforce simp: plan_ok_def effect_ok_def\<close>)+

lemma clearUnsent_mem: "mem W r run \<Longrightarrow> mem W r (fst (clearUnsent nonces run))"
proof (induction nonces run rule: clearUnsent.induct)
  case (2 sid nonce nonces run)
  have "stale W (s\<lparr>ss_DispatchUnsent := False\<rparr>)" if "map_of (wr_Steps run) sid = Some s" "sid \<in> wt_steps W" for s
    using memD(2) [OF 2(4) that(2)] that(1) by (simp add: stale_def mget_def)
  with 2 show ?case by (auto split: option.split simp: mem_set_step)
qed simp

lemma same_run_set_step_right [simp]: "same_run a (set_step sid s b) = same_run a b"
  by (simp add: same_run_def set_step_def)

lemma clearUnsent_same: "same_run (fst (clearUnsent nonces run)) run"
  by (induction nonces run rule: clearUnsent.induct) (auto split: option.split)

text \<open>A run in memory that may be saved.\<close>

definition savable :: "watch \<Rightarrow> WorkflowRun \<Rightarrow> WorkflowRun \<Rightarrow> bool" where
  "savable W r run \<longleftrightarrow> mem W r run \<and> keeps r run \<and> (final run \<longrightarrow> final r)"

lemma sat_save_run:
  assumes "savable W r run" "\<And>run'. saved run run' \<Longrightarrow> mem W run' run' \<Longrightarrow> sat (admits W) run' (f run') Q"
  shows "sat (admits W) r (bind (saveSnapshot E run) f) Q"
  by (rule sat_save) (use assms in \<open>auto simp: savable_def\<close>)

lemma saveSnapshot_savable:
  assumes "savable W r run"
  shows "sat (admits W) r (saveSnapshot E run) (\<lambda>r' run'. r' = run' \<and> saved run run' \<and> mem W run' run')"
  by (rule saveSnapshot_sat) (use assms in \<open>auto simp: savable_def\<close>)

lemma savable_self: "mem W r r \<Longrightarrow> savable W r r"
  by (simp add: savable_def)

lemma savable_same:
  assumes "savable W r run" "same_run run' run" "mem W r run'"
  shows "savable W r run'"
  using assms keeps_same [OF assms(2)] same_run_final [OF assms(2)] by (simp add: savable_def)

lemma savable_set_step: "savable W r run \<Longrightarrow> (sid \<in> wt_steps W \<Longrightarrow> stale W s) \<Longrightarrow> savable W r (set_step sid s run)"
  by (simp add: savable_def mem_set_step)

lemma markSent_sat:
  assumes "mem W run run"
  shows "sat (admits W) run (markSent E run sent) (\<lambda>r' run'. r' = run' \<and> mem W run' run' \<and> same_run run' run)"
proof -
  have "savable W run (fst (clearUnsent n run))" for n
    by (rule savable_same [OF savable_self clearUnsent_same clearUnsent_mem]) (rule assms)+
  then have save: "sat (admits W) run (saveSnapshot E (fst (clearUnsent n run)))
      (\<lambda>r' run'. r' = run' \<and> mem W run' run' \<and> same_run run' run)" for n
    by (rule sat_weaken [OF saveSnapshot_savable])
      (use clearUnsent_same same_run_trans in \<open>fastforce simp: saved_def\<close>)
  have same: "run' = run" if "clearUnsent n run = (run', False)" for n run'
    using that by (induction n run rule: clearUnsent.induct) (auto split: option.splits if_splits)
  have "sat (admits W) run (case clearUnsent n run of (run, cleared) \<Rightarrow> if cleared then saveSnapshot E run else ret run)
      (\<lambda>r' run'. r' = run' \<and> mem W run' run' \<and> same_run run' run)" for n
    by (cases "clearUnsent n run") (use save [of n] same [of n] assms in \<open>auto intro!: sat_intros\<close>)
  then show ?thesis unfolding markSent_def Let_def by (intro sat_if sat_panic)
qed

lemma run_plan_sat:
  assumes "mem W run run" "plan_ok W (wr_RunID run) ready plan" "\<And>step. step \<in> set ready \<Longrightarrow> sendable W run step"
  shows "sat (admits W) run (run_plan E run plan) (\<lambda>r' run'. r' = run' \<and> mem W run' run' \<and> same_run run' run)"
  unfolding run_plan_def
  by (rule sat_bind_guard, rule sat_bind_steady [OF plan_ok_steady [OF assms(2,3)]], assumption)
    (auto intro!: sat_bind [OF markSent_sat [OF assms(1)]] sat_intros)

section \<open>Dispatching what is ready\<close>

text \<open>The definition a handler works with: complete for it is complete for the run's own definition.\<close>

definition stands :: "WorkflowDef \<Rightarrow> WorkflowDef \<Rightarrow> WorkflowRun \<Rightarrow> bool" where
  "stands d D run \<longleftrightarrow> (\<exists>e. (EffectiveDef d run :: (engine_error, WorkflowDef) res) = Ok e \<and> (\<forall>c. IsComplete D c \<longrightarrow> IsComplete e c))"

definition fresh :: "engine \<Rightarrow> watch \<Rightarrow> bool" where
  "fresh E W \<longleftrightarrow> (\<forall>sid \<in> wt_steps W. en_nonce E sid \<noteq> wt_nonce W)"

lemma stands_cong:
  "wr_RunID run' = wr_RunID run \<Longrightarrow> wr_DynamicSteps run' = wr_DynamicSteps run \<Longrightarrow> stands d D run' = stands d D run"
  by (simp add: stands_def EffectiveDef_def EffectiveSteps_def)

lemma stands_same: "same_run run' run \<Longrightarrow> stands d D run' = stands d D run"
  by (rule stands_cong) (rule same_runD, assumption)+

lemma stands_complete: "stands d D run \<Longrightarrow> IsComplete D (completedSet run) \<Longrightarrow> complete_run d run"
  by (auto simp: stands_def complete_run_def)

lemma stale_fresh: "fresh E W \<Longrightarrow> sid \<in> wt_steps W \<Longrightarrow> ss_DispatchNonce s = en_nonce E sid \<Longrightarrow> stale W s"
  by (auto simp: fresh_def stale_def)

lemma queue_step_of:
  "step_of (wr_Steps (queue_step E step run)) x =
     (if x = sd_ID step
      then (stampDispatch (en_now E) (en_nonce E x) ((step_of (wr_Steps run) x)\<lparr>ss_Status := StepStatusQueued\<rparr>))
             \<lparr>ss_DispatchUnsent := resendable (sd_Type step)\<rparr>
      else step_of (wr_Steps run) x)"
  by (simp add: queue_step_def run_simps Let_def)

lemma queue_fold_other:
  "x \<notin> set (step_ids ready) \<Longrightarrow> step_of (wr_Steps (fold (queue_step E) ready run)) x = step_of (wr_Steps run) x"
  by (induction ready arbitrary: run) (auto simp: queue_step_of)

lemma queue_fold_keep:
  "status_of run x = StepStatusQueued \<and> ss_DispatchNonce (step_of (wr_Steps run) x) = en_nonce E x \<Longrightarrow>
   status_of (fold (queue_step E) ready run) x = StepStatusQueued \<and>
   ss_DispatchNonce (step_of (wr_Steps (fold (queue_step E) ready run)) x) = en_nonce E x"
  by (induction ready arbitrary: run) (auto simp: queue_step_of stampDispatch_def)

lemma queue_fold_ready:
  "x \<in> set (step_ids ready) \<Longrightarrow>
   status_of (fold (queue_step E) ready run) x = StepStatusQueued \<and>
   ss_DispatchNonce (step_of (wr_Steps (fold (queue_step E) ready run)) x) = en_nonce E x"
proof (induction ready arbitrary: run)
  case (Cons step ready)
  show ?case
  proof (cases "x = sd_ID step")
    case True
    then show ?thesis by (simp add: queue_fold_keep queue_step_of stampDispatch_def)
  next
    case False
    with Cons show ?thesis by auto
  qed
qed simp

lemma queue_fold_same [simp]: "same_run (fold (queue_step E) ready a) b = same_run a b"
  by (induction ready arbitrary: a) (auto simp: queue_step_def Let_def)

lemma queue_fold_mem: "fresh E W \<Longrightarrow> mem W r run \<Longrightarrow> mem W r (fold (queue_step E) ready run)"
proof (induction ready arbitrary: run)
  case (Cons step ready)
  have "mem W r (queue_step E step run)"
    unfolding queue_step_def Let_def
    by (rule mem_set_step [OF Cons.prems(2)]) (simp add: stale_fresh [OF Cons.prems(1)] stampDispatch_def)
  with Cons show ?case by simp
qed simp

definition ready_for :: "WorkflowDef \<Rightarrow> WorkflowRun \<Rightarrow> StepDef \<Rightarrow> bool" where
  "ready_for D run step \<longleftrightarrow> step \<in> set (wd_Steps D) \<and> \<not> bget (wd_AuxSteps D) (sd_ID step)
     \<and> \<not> resolved (status_of run (sd_ID step)) \<and> (\<forall>dep \<in> set (sd_DependsOn step). resolved (status_of run dep))"

lemma cap_ready_subset: "cap_ready D run ready0 = (ready, fin) \<Longrightarrow> step \<in> set ready \<Longrightarrow> step \<in> set ready0"
  by (auto simp: cap_ready_def Let_def dest: in_set_takeD split: option.splits if_splits)

lemma resolveReadySteps_sat:
  assumes s: "savable W r run" and d: "stands (wt_def W) D run"
  shows "sat (admits W) r (resolveReadySteps E D run) (\<lambda>r' (run', ready, finished).
    \<not> finished \<longrightarrow> r' = r \<and> savable W r run' \<and> same_run run' run \<and> (\<forall>step \<in> set ready. ready_for D run' step))"
proof -
  define run1 where "run1 = fold (\<lambda>step. set_status StepStatusSkipped (sd_ID step))
    (ResolveSkipped D (completedSet run) (queuedSet run) (wr_Steps run)) run"
  have same: "same_run run1 run" by (simp add: run1_def)
  have m1: "mem W r run1" using s by (auto simp: run1_def savable_def intro: mem_fold_status)
  have s1: "savable W r run1" by (rule savable_same [OF s same m1])
  have d1: "stands (wt_def W) D run1" using d by (simp add: stands_same [OF same])
  show ?thesis
    unfolding resolveReadySteps_def Let_def run1_def [symmetric]
  proof (intro sat_intros, goal_cases)
    case 1
    then show ?case
      by (intro sat_bind [OF completeWorkflow_sat [OF m1 stands_complete [OF d1]]] sat_ret) auto
  next
    case (2 ready finished)
    have "ready_for D run1 step" if "step \<in> set ready" for step
      using cap_ready_subset [OF 2(3) that] by (auto simp: ready_for_def ResolveReady_iff run_simps)
    then show ?case using s1 same by simp
  qed
qed

lemma sendable_after:
  assumes ready: "\<forall>step \<in> set ready. ready_for D run1 step" and W: "wt_ready W = None \<or> wt_ready W = Some D"
    and p: "planned (set (step_ids ready)) (fold (queue_step E) ready run1) run3" and s: "saved run3 run4"
    and step: "step \<in> set ready"
  shows "sendable W run4 step"
proof -
  have "dispatched (status_of run4 (sd_ID step))"
    using p queue_fold_ready [of "sd_ID step" ready E run1] step by (auto simp: planned_def saved_steps [OF s])
  moreover have "resolved (status_of run4 dep)" if "dep \<in> set (sd_DependsOn step)" for dep
  proof -
    have "resolved (status_of run1 dep)" using ready step that by (auto simp: ready_for_def)
    moreover from this have "dep \<notin> set (step_ids ready)" using ready by (auto simp: ready_for_def)
    ultimately show ?thesis
      using p queue_fold_other [of dep ready E run1] by (simp add: planned_def saved_steps [OF s])
  qed
  ultimately show ?thesis using ready W step by (auto simp: sendable_def ready_for_def)
qed

lemma publishStepQueuedEvents_quiet [simp]: "quiet (publishStepQueuedEvents E run ready)"
  by (induction ready) (auto simp: publish_queued_def intro!: quiet_bind quiet_if)

lemma dispatch_sat:
  assumes fr: "fresh E W" and W: "wt_ready W = None \<or> wt_ready W = Some D"
    and s1: "savable W r run1" and ready: "\<forall>step \<in> set ready. ready_for D run1 step"
    and k: "\<And>run plan. mem W run run \<Longrightarrow> same_run run run1 \<Longrightarrow> sat (admits W) run (k run plan) (\<lambda>_ _. True)"
  shows "sat (admits W) r
    (case planDispatch E D (fold (queue_step E) ready run1) ready empty_plan of
       (acts, Panic p) \<Rightarrow> (acts, Panic p)
     | (acts, Err e) \<Rightarrow> (acts, if e = RunFinalized then Ok () else Err e)
     | (acts, Ok (run, plan)) \<Rightarrow>
         bind (emit acts) (\<lambda>_.
         bind (saveSnapshot E run) (\<lambda>run.
         bind (publishStepQueuedEvents E run ready) (\<lambda>_.
         bind (run_plan E run plan) (\<lambda>run. k run plan))))) (\<lambda>_ _. True)"
proof -
  let ?run2 = "fold (queue_step E) ready run1"
  have m2: "mem W r ?run2" using s1 by (intro queue_fold_mem [OF fr]) (simp add: savable_def)
  have nonces: "ss_DispatchNonce (step_of (wr_Steps ?run2) (sd_ID step)) \<noteq> wt_nonce W"
    if "step \<in> set ready" "sd_ID step \<in> wt_steps W" for step
    using queue_fold_ready [of "sd_ID step" ready E run1] fr that by (auto simp: fresh_def)
  have pd: "sat (admits W) r (planDispatch E D ?run2 ready empty_plan) (\<lambda>r' (run', plan').
      r' = r \<and> planned (set (step_ids ready)) ?run2 run' \<and> mem W r run' \<and> plan_ok W (wr_RunID ?run2) ready plan')"
    by (rule planDispatch_sat [OF m2 plan_ok_empty subset_refl nonces])
  show ?thesis
  proof (rule sat_cases [OF pd], goal_cases)
    case (1 acts x r')
    then obtain run3 plan where x: "x = (run3, plan)" and st: "stored r acts = r" and al: "allowed (admits W) r acts"
      and p: "planned (set (step_ids ready)) ?run2 run3" and m3: "mem W r run3"
      and po: "plan_ok W (wr_RunID ?run2) ready plan"
      by (cases x) auto
    have same3: "same_run run3 run1" using p same_run_trans [of run3 ?run2 run1] by (auto simp: planned_def)
    have s3: "savable W r run3" by (rule savable_same [OF s1 same3 m3])
    have id3: "wr_RunID run3 = wr_RunID ?run2" using p same_runD(1) [of run3 ?run2] by (simp add: planned_def)
    show ?case unfolding x prod.case
    proof (rule sat_bind_emit [OF al], unfold st, rule sat_save_run [OF s3], rule sat_bind_quiet, simp, goal_cases)
      case (1 run4)
      have same4: "same_run run4 run1" using 1(1) same3 same_run_trans by (auto simp: saved_def)
      have po4: "plan_ok W (wr_RunID run4) ready plan" using po id3 saved_run(5) [OF 1(1)] by simp
      show ?case
        by (rule sat_bind [OF run_plan_sat [OF 1(2) po4 sendable_after [OF ready W p 1(1)]]], assumption)
          (use k same_run_trans [OF _ same4] in auto)
    qed
  qed (auto intro: sat_intros sat_pair_Ok)
qed

lemma enqueue_ready_sat:
  assumes "fresh E W" "wt_ready W = None \<or> wt_ready W = Some D" "savable W r run" "stands (wt_def W) D run"
  shows "sat (admits W) r (enqueue_ready n E D run) (\<lambda>_ _. True)"
  using assms(3,4)
proof (induction n arbitrary: r run)
  case (Suc n)
  show ?case unfolding enqueue_ready.simps
  proof (intro sat_if sat_panic, rule sat_bind [OF resolveReadySteps_sat [OF Suc.prems]], clarify, goal_cases)
    case (1 r' run1 ready finished)
    show ?case
    proof (rule sat_if, simp add: sat_ret)
      assume "\<not> (finished \<or> ready = [])"
      then have r': "r' = r" and s1: "savable W r run1" and same1: "same_run run1 run"
        and ready: "\<forall>step \<in> set ready. ready_for D run1 step" using 1 by auto
      have "sat (admits W) run' (if \<not> dp_continueRun plan then ret ()
              else if IsComplete D (completedSet run') then completeWorkflow E run'
              else enqueue_ready n E D run') (\<lambda>_ _. True)"
        if m: "mem W run' run'" and same: "same_run run' run1" for run' plan
      proof -
        have d: "stands (wt_def W) D run'"
          using Suc.prems(2) stands_same [OF same_run_trans [OF same same1]] by simp
        show ?thesis
          by (intro sat_if sat_ret TrueI completeWorkflow_sat [OF m] stands_complete [OF d] Suc.IH [OF savable_self [OF m] d])
      qed
      then show "sat (admits W) r' (case planDispatch E D (fold (queue_step E) ready run1) ready empty_plan of
               (acts, Panic p) \<Rightarrow> (acts, Panic p)
             | (acts, Err e) \<Rightarrow> (acts, if e = RunFinalized then Ok () else Err e)
             | (acts, Ok (run, plan)) \<Rightarrow>
                 bind (emit acts) (\<lambda>_.
                 bind (saveSnapshot E run) (\<lambda>run.
                 bind (publishStepQueuedEvents E run ready) (\<lambda>_.
                 bind (run_plan E run plan) (\<lambda>run.
                   if \<not> dp_continueRun plan then ret ()
                   else if IsComplete D (completedSet run) then completeWorkflow E run
                   else enqueue_ready n E D run))))) (\<lambda>_ _. True)"
        unfolding r' by (rule dispatch_sat [OF assms(1,2) s1 ready])
    qed
  qed
qed (simp add: sat_raise)

lemma enqueueReady_sat:
  assumes "fresh E W" "wt_ready W = None \<or> wt_ready W = Some D" "savable W r run" "stands (wt_def W) D run"
  shows "sat (admits W) r (enqueueReady E D run) (\<lambda>_ _. True)"
  unfolding enqueueReady_def by (rule enqueue_ready_sat [OF assms])

end
