(* ===== verification/Recovery_Contract.thy ===== *)
theory Recovery_Contract
  imports Dispatch_Contract
begin

text \<open>
  Failure handling, compensation, map steps and planner steps keep the contract of the orchestrator.
\<close>

section \<open>Stamped dispatches\<close>

text \<open>The contract without the restriction to ready steps, for an engine whose nonces are new and whose store
  accepts what is saved. A save that is refused ends every handler but the one that drops the error.\<close>

definition plain :: "engine \<Rightarrow> watch \<Rightarrow> bool" where
  "plain E W \<longleftrightarrow> fresh E W \<and> wt_ready W = None \<and> \<not> en_saveFails E"

lemma plainD: "plain E W \<Longrightarrow> fresh E W" "plain E W \<Longrightarrow> wt_ready W = None" "plain E W \<Longrightarrow> \<not> en_saveFails E"
  by (simp_all add: plain_def)

lemma queue_stamped_step:
  "step_of (wr_Steps (queue_stamped E sid run)) x =
     (if x = sid then stampDispatch (en_now E) (en_nonce E sid) ((step_of (wr_Steps run) sid)\<lparr>ss_Status := StepStatusQueued\<rparr>)
      else step_of (wr_Steps run) x)"
  by (simp add: queue_stamped_def run_simps)

lemma queue_stamped_savable: "plain E W \<Longrightarrow> savable W r run \<Longrightarrow> savable W r (queue_stamped E sid run)"
  unfolding queue_stamped_def
  by (rule savable_set_step) (auto intro: stale_fresh plainD simp: stampDispatch_def)

lemma queue_stamped_fold_savable:
  "plain E W \<Longrightarrow> savable W r run \<Longrightarrow> savable W r (fold (\<lambda>step. queue_stamped E (sd_ID step)) steps run)"
  by (induction steps arbitrary: run) (auto simp: queue_stamped_savable)

lemma queue_stamped_fold_keep:
  "dispatched (status_of run x) \<Longrightarrow> dispatched (status_of (fold (\<lambda>step. queue_stamped E (sd_ID step)) steps run) x)"
  by (induction steps arbitrary: run) (auto simp: queue_stamped_step stampDispatch_def)

lemma publish_saved:
  assumes "plain E W" "saved run run'" "dispatched (status_of run (sd_ID step))"
    "nonce = ss_DispatchNonce (step_of (wr_Steps run) (sd_ID step))"
  shows "steady W run' (publish_task step input run' name nonce)"
  by (rule publish_task_steady) (use assms in \<open>auto simp: recorded_def saved_steps plain_def\<close>)

lemma steady_True: "steady W r m \<Longrightarrow> sat (admits W) r m (\<lambda>_ _. True)"
  by (rule steady_sat) auto

lemma quiet_True: "quiet m \<Longrightarrow> sat (admits W) r m (\<lambda>_ _. True)"
  by (rule quiet_sat) auto

section \<open>Recovery\<close>

lemma dispatch_handler_sat:
  assumes "plain E W" "savable W r run"
  shows "sat (admits W) r (dispatch_handler E run step sid err) (\<lambda>_ _. True)"
  unfolding dispatch_handler_def
  by (rule sat_save_run [OF queue_stamped_savable [OF assms]], rule steady_True, rule publish_saved [OF assms(1)], assumption)
    (simp_all add: queue_stamped_step stampDispatch_def)

lemma TryOnFailure_sat:
  assumes "plain E W" "savable W r run"
  shows "sat (admits W) r (TryOnFailure E D run stepDef state stepID) (\<lambda>r' handled. \<not> handled \<longrightarrow> r' = r)"
  unfolding TryOnFailure_def
  by (intro sat_intros sat_bind [OF dispatch_handler_sat [OF assms]]) simp_all

lemma StartCompensation_sat:
  assumes "plain E W" "savable W r run"
  shows "sat (admits W) r (StartCompensation E D run sid err) (\<lambda>_ _. True)"
proof (cases "ResolveCompensateChain D (completedSet run) sid")
  case Nil
  then show ?thesis by (simp add: StartCompensation_def sat_ret)
next
  case (Cons first rest)
  have "dispatched (status_of (fold (\<lambda>step. queue_stamped E (sd_ID step)) (first # rest) run) (sd_ID first))"
    unfolding fold_simps by (rule queue_stamped_fold_keep) (simp add: queue_stamped_step stampDispatch_def)
  then show ?thesis
    unfolding StartCompensation_def Cons list.case Let_def
    by (intro sat_save_run [OF queue_stamped_fold_savable [OF assms]] steady_True publish_saved [OF assms(1)])
      (auto simp: saved_steps)
qed

lemma failAuxStep_sat:
  assumes "mem W r run" shows "sat (admits W) r (failAuxStep E run D stepDef state) (\<lambda>_ _. True)"
  unfolding failAuxStep_def
  by (intro sat_bind_guard sat_bind [OF finalizeRun_sat [OF assms]] quiet_True quiet_bind) auto

lemma HandlePermanentFailure_sat:
  assumes "plain E W" "savable W r run"
  shows "sat (admits W) r (HandlePermanentFailure E D run stepDef state stepID) (\<lambda>_ _. True)"
proof -
  have m: "mem W r run" using assms(2) by (simp add: savable_def)
  have h: "sat (admits W) r (if sd_OnFailure stepDef \<noteq> [] then TryOnFailure E D run stepDef state stepID else ret False)
      (\<lambda>r' handled. \<not> handled \<longrightarrow> r' = r)"
    by (intro sat_if TryOnFailure_sat [OF assms] sat_ret) simp
  show ?thesis
    unfolding HandlePermanentFailure_def
    by (intro sat_if sat_panic sat_bind_quiet [OF quiet_release_slot] failAuxStep_sat [OF m] sat_bind [OF h])
      (auto intro!: sat_intros StartCompensation_sat [OF assms] failWorkflow_sat [OF m])
qed

lemma RecoverIfOnFailure_run:
  "mem W r run \<Longrightarrow> mem W r (RecoverIfOnFailure D run sid)" "same_run (RecoverIfOnFailure D run sid) run"
proof -
  have f: "mem W r a \<Longrightarrow> mem W r (fold (\<lambda>s run. if P s run then set_status StepStatusSkipped (sd_ID s) run else run) steps a)"
    and g: "same_run (fold (\<lambda>s run. if P s run then set_status StepStatusSkipped (sd_ID s) run else run) steps a) b = same_run a b"
    for P steps a b
    by (induction steps arbitrary: a) (auto simp: mem_set_status)
  show "mem W r run \<Longrightarrow> mem W r (RecoverIfOnFailure D run sid)"
    by (auto simp: RecoverIfOnFailure_def intro!: f mem_set_status split: option.split)
  show "same_run (RecoverIfOnFailure D run sid) run"
    by (auto simp: RecoverIfOnFailure_def g split: option.split)
qed

lemma step_def_ID: "sd_ID (step_def D sid) = sid \<or> step_def D sid = zero_StepDef"
  by (auto simp: step_def_def findStepDef_def find_Some_iff split: option.split)

lemma saveSnapshot_no_error: "\<not> en_saveFails E \<Longrightarrow> ignore_error a (saveSnapshot E run) = saveSnapshot E run"
  by (simp add: saveSnapshot_def settleFinishedSteps_def Let_def emit_def ret_def lift_def)

lemma sat_ignore_error:
  assumes "sat ok r m (\<lambda>_ _. True)" shows "sat ok r (bind (ignore_error a m) (\<lambda>x. ret (x, True))) (\<lambda>r' (x, b). b)"
  using assms by (cases m; cases "snd m") (auto simp: sat_def ret_def)

lemma HandleCompensateCompleted_sat:
  assumes "plain E W" "savable W r run"
  shows "sat (admits W) r (HandleCompensateCompleted E D run stepID)
    (\<lambda>r' (run', handled). \<not> handled \<longrightarrow> r' = r \<and> run' = run)"
proof -
  have m: "mem W r run" using assms(2) by (simp add: savable_def)
  have comp: "sat (admits W) r (bind (saveSnapshot E (set_step comp (stampDispatch (en_now E) (en_nonce E comp) (step_of (wr_Steps run) comp)) run))
      (\<lambda>run. bind (publish_task (step_def D comp) (input run) run (wr_WorkflowID run) (en_nonce E comp)) (\<lambda>_. ret (run, True))))
      (\<lambda>r' (run', handled). \<not> handled \<longrightarrow> r' = r \<and> run' = run)"
    if "status_of run comp = StepStatusQueued" for comp input
  proof (rule sat_save_run [OF savable_set_step [OF assms(2)]], goal_cases)
    case 1
    then show ?case by (rule stale_fresh [OF plainD(1) [OF assms(1)]]) (simp add: stampDispatch_def)
  next
    case (2 run')
    have "steady W run' (publish_task (step_def D comp) (input run') run' (wr_WorkflowID run') (en_nonce E comp))"
    proof (cases "sd_ID (step_def D comp) = comp")
      case True
      show ?thesis
        by (rule publish_saved [OF assms(1) 2(1)]) (simp_all add: True run_simps stampDispatch_def that)
    next
      case False
      then have "sd_ID (step_def D comp) = []" using step_def_ID [of D comp] by (simp add: zero_StepDef_def)
      then show ?thesis by (auto simp: publish_task_def guard_def panic_if_def intro!: steady_bind)
    qed
    then show ?case by (rule sat_bind_steady) (simp add: sat_ret)
  qed
  have ended: "sat (admits W) r (bind (ignore_error run (finalizeRun E run RunStatusCompensated [ReleaseAdmission run]))
      (\<lambda>run. ret (run, True))) (\<lambda>r' (run', handled). \<not> handled \<longrightarrow> r' = r \<and> run' = run)"
    by (rule sat_weaken [OF sat_ignore_error [OF sat_weaken [OF finalizeRun_sat [OF m]]]]) auto
  show ?thesis
    unfolding HandleCompensateCompleted_def Let_def saveSnapshot_no_error [OF plainD(3) [OF assms(1)]]
    by (intro sat_intros ended) (auto simp: find_Some_iff intro!: sat_intros comp)
qed

section \<open>Continuing a run\<close>

lemma continue_run_sat:
  assumes "plain E W" "savable W r run" "stands (wt_def W) D run"
  shows "sat (admits W) r (continue_run E D run) (\<lambda>_ _. True)"
proof -
  have "sat (admits W) run' (enqueueReady E D run') (\<lambda>_ _. True)" if "saved run run'" "mem W run' run'" for run'
    using enqueueReady_sat [OF plainD(1) [OF assms(1)] disjI1 [OF plainD(2) [OF assms(1)]] savable_self [OF that(2)]]
      assms(3) stands_cong [OF saved_run(5) [OF that(1)] saved_run(4) [OF that(1)]] by simp
  then show ?thesis
    unfolding continue_run_def
    by (intro sat_if completeWorkflow_sat stands_complete [OF assms(3)] sat_save_run [OF assms(2)])
      (use assms(2) in \<open>auto simp: savable_def\<close>)
qed

lemma stands_set_step [simp]: "stands d D (set_step sid s run) = stands d D run"
  by (rule stands_cong) (simp_all add: run_simps)

section \<open>Map steps\<close>

lemma failMapStep_sat:
  assumes "plain E W" "savable W r run"
  shows "sat (admits W) r (failMapStep E D run baseID state) (\<lambda>_ _. True)"
proof -
  have m: "mem W r run" using assms(2) by (simp add: savable_def)
  show ?thesis
    unfolding failMapStep_def Let_def
    by (intro sat_intros dispatch_handler_sat [OF assms] sat_bind [OF finalizeRun_sat [OF m]])
      (auto intro!: quiet_True quiet_bind)
qed

lemma stale_core:
  "ss_Status a = ss_Status b \<Longrightarrow> ss_Iterations a = ss_Iterations b \<Longrightarrow> ss_DispatchNonce a = ss_DispatchNonce b \<Longrightarrow> stale W a = stale W b"
  by (simp add: stale_def)

lemma savable_core:
  assumes "savable W r run" "ss_Status s = status_of run sid" "ss_Iterations s = ss_Iterations (step_of (wr_Steps run) sid)"
    "ss_DispatchNonce s = ss_DispatchNonce (step_of (wr_Steps run) sid)"
  shows "savable W r (set_step sid s run)"
  by (rule savable_set_step [OF assms(1)])
    (use assms stale_core [OF assms(2-4), of W] memD(2) in \<open>auto simp: savable_def\<close>)

lemma savable_done:
  "savable W r run \<Longrightarrow> ss_Status s \<notin> {StepStatusQueued, StepStatusRunning} \<Longrightarrow> savable W r (set_step sid s run)"
  by (rule savable_set_step) (auto simp: stale_def)

lemma handleMapInstanceCompleted_sat:
  assumes "plain E W" "savable W r run" "stands (wt_def W) D run"
  shows "sat (admits W) r (handleMapInstanceCompleted E D run evt) (\<lambda>_ _. True)"
  unfolding handleMapInstanceCompleted_def collectMapOutputs_def Let_def
  by (intro sat_bind_lift sat_intros sat_save_run continue_run_sat [OF assms(1)] savable_done savable_core [OF assms(2)])
    (simp_all add: assms)

lemma handleMapInstanceFailed_sat:
  assumes "plain E W" "savable W r run"
  shows "sat (admits W) r (handleMapInstanceFailed E D run evt) (\<lambda>_ _. True)"
  unfolding handleMapInstanceFailed_def Let_def
  by (intro sat_bind_lift sat_intros failMapStep_sat [OF assms(1)] savable_done [OF assms(2)]) simp

section \<open>Planner steps\<close>

lemma failPlannerStep_sat:
  assumes "savable W r run" shows "sat (admits W) r (failPlannerStep E run stepDef reason) (\<lambda>_ _. True)"
proof -
  have "mem W r (set_step sid (s\<lparr>ss_Status := StepStatusFailed, ss_Error := e\<rparr>) run)" for sid s e
    using savable_done [OF assms] by (simp add: savable_def)
  then show ?thesis unfolding failPlannerStep_def Let_def by (rule failWorkflow_sat)
qed

lemma fragment_steps:
  "step_of (fold (\<lambda>step m. mput (sd_ID step) (zero_StepState\<lparr>ss_Status := StepStatusPending\<rparr>) m) frag m) x =
     (if x \<in> set (step_ids frag) then zero_StepState else step_of m x)"
proof (induction frag arbitrary: m)
  case (Cons step frag)
  have "zero_StepState\<lparr>ss_Status := StepStatusPending\<rparr> = zero_StepState" by (simp add: zero_StepState_def)
  then show ?case using Cons by (simp add: map_simps)
qed simp

lemma fragment_mdom:
  "mdom m \<subseteq> mdom (fold (\<lambda>step m. mput (sd_ID step) (zero_StepState\<lparr>ss_Status := StepStatusPending\<rparr>) m) frag m)"
proof (induction frag arbitrary: m)
  case (Cons step frag)
  let ?m = "mput (sd_ID step) (zero_StepState\<lparr>ss_Status := StepStatusPending\<rparr>) m"
  have "mdom m \<subseteq> mdom ?m" by (simp only: mdom_mput) blast
  also note Cons.IH [of ?m]
  finally show ?case by (simp only: fold_simps)
qed simp

lemma apply_fragment_savable:
  assumes "savable W r run" shows "savable W r (apply_fragment run frag)"
proof -
  have "ext run (apply_fragment run frag)"
    using fragment_mdom [of "wr_Steps run" frag] unfolding apply_fragment_def ext_def by simp
  then have "ext r (apply_fragment run frag)" using assms ext_trans by (auto simp: savable_def mem_def)
  moreover have "stale W (step_of (wr_Steps (apply_fragment run frag)) sid)" if "sid \<in> wt_steps W" for sid
    using assms that unfolding apply_fragment_def savable_def mem_def by (simp add: fragment_steps) (simp add: stale_def)
  moreover have "keeps r (apply_fragment run frag) = keeps r run" "final (apply_fragment run frag) = final run"
    by (simp_all add: keeps_def final_def apply_fragment_def)
  ultimately show ?thesis using assms by (simp add: savable_def mem_def)
qed

lemma stands_loaded: "(EffectiveDef d run :: (engine_error, WorkflowDef) res) = Ok D \<Longrightarrow> stands d D run"
  by (auto simp: stands_def)

text \<open>The definition after a plan: its steps occur again, which does not matter for completeness.\<close>

lemma EffectiveDef_Ok:
  "EffectiveDef d run = Ok e \<longleftrightarrow> wd_Steps d \<noteq> [] \<and> wr_RunID run \<noteq> [] \<and>
     e = (if wr_DynamicSteps run = [] then d
          else d\<lparr>wd_Steps := wd_Steps d @ wr_DynamicSteps run,
                 wd_AuxSteps := buildAuxSteps (wd_Steps d @ wr_DynamicSteps run)\<rparr>)"
  unfolding EffectiveDef_def EffectiveSteps_def by auto

lemma IsComplete_sets:
  assumes "set (wd_Steps A) = set (wd_Steps B)" "wd_AuxSteps A = buildAuxSteps (wd_Steps A)"
    "wd_AuxSteps B = buildAuxSteps (wd_Steps B)"
  shows "IsComplete A c = IsComplete B c"
proof -
  have "bget (wd_AuxSteps A) x = bget (wd_AuxSteps B) x" for x
    unfolding assms(2,3) buildAuxSteps_iff assms(1) ..
  then show ?thesis unfolding IsComplete_def list_all_iff assms(1) by simp
qed

lemma stands_augmented:
  assumes D: "(EffectiveDef d run :: (engine_error, WorkflowDef) res) = Ok D" and ne: "frag \<noteq> []"
    and A: "(EffectiveDef D (apply_fragment run frag) :: (engine_error, WorkflowDef) res) = Ok A"
  shows "stands d A (apply_fragment run frag)"
proof -
  define dyn where "dyn = wr_DynamicSteps run @ frag"
  have dyn: "wr_DynamicSteps (apply_fragment run frag) = dyn" "wr_RunID (apply_fragment run frag) = wr_RunID run" "dyn \<noteq> []"
    using ne by (simp_all add: apply_fragment_def dyn_def)
  define e where "e = d\<lparr>wd_Steps := wd_Steps d @ dyn, wd_AuxSteps := buildAuxSteps (wd_Steps d @ dyn)\<rparr>"
  have e: "(EffectiveDef d (apply_fragment run frag) :: (engine_error, WorkflowDef) res) = Ok e"
    using D by (simp add: EffectiveDef_Ok dyn e_def)
  have A': "A = D\<lparr>wd_Steps := wd_Steps D @ dyn, wd_AuxSteps := buildAuxSteps (wd_Steps D @ dyn)\<rparr>"
    using A by (simp add: EffectiveDef_Ok dyn)
  have "set (wd_Steps D) \<subseteq> set (wd_Steps d) \<union> set dyn" "set (wd_Steps d) \<subseteq> set (wd_Steps D)"
    using D by (auto simp: EffectiveDef_Ok dyn_def split: if_splits)
  then have "set (wd_Steps A) = set (wd_Steps e)" by (auto simp: A' e_def)
  then have "IsComplete A c = IsComplete e c" for c by (rule IsComplete_sets) (simp_all add: A' e_def)
  with e show ?thesis by (auto simp: stands_def)
qed

lemma applyFragment_sat:
  assumes "plain E W" "savable W r run" "(EffectiveDef (wt_def W) run :: (engine_error, WorkflowDef) res) = Ok D"
  shows "sat (admits W) r (applyFragment E D run stepDef frag) (\<lambda>_ _. True)"
  unfolding applyFragment_def
proof (intro sat_if sat_panic sat_save_run [OF apply_fragment_savable [OF assms(2)]] sat_bind_quiet [OF quiet_publish_event]
    sat_bind_lift, goal_cases)
  case (1 run' u A)
  have id: "wr_RunID run' = wr_RunID (apply_fragment run frag)" "wr_DynamicSteps run' = wr_DynamicSteps (apply_fragment run frag)"
    using saved_run [OF 1(3)] by simp_all
  then have "(EffectiveDef D (apply_fragment run frag) :: (engine_error, WorkflowDef) res) = Ok A"
    using 1(6) by (simp only: EffectiveDef_cong [OF id(2,1)])
  then have "stands (wt_def W) A run'"
    using stands_augmented [OF assms(3) 1(2)] stands_cong [OF id] by simp
  then show ?case
    using enqueueReady_sat [OF plainD(1) [OF assms(1)] disjI1 [OF plainD(2) [OF assms(1)]] savable_self [OF 1(4)]] by simp
qed

lemma materializePlannerOutput_sat:
  assumes "plain E W" "savable W r run" "(EffectiveDef (wt_def W) run :: (engine_error, WorkflowDef) res) = Ok D"
  shows "sat (admits W) r (materializePlannerOutput E D run stepDef payload) (\<lambda>_ _. True)"
  unfolding materializePlannerOutput_def
  by (intro sat_intros failPlannerStep_sat [OF assms(2)] applyFragment_sat [OF assms]
      continue_run_sat [OF assms(1,2) stands_loaded [OF assms(3)]])

end
