(* ===== verification/Engine_Lifecycle.thy ===== *)
theory Engine_Lifecycle
  imports Recovery_Contract
begin

text \<open>
  Every handler of the orchestrator keeps the contract, and what follows for the sequences of events a run
  goes through, with crashes and redeliveries.
\<close>

section \<open>What handlers start from\<close>

definition but :: "string \<Rightarrow> watch \<Rightarrow> watch" where
  "but sid W = W\<lparr>wt_steps := wt_steps W - {sid}\<rparr>"

lemma but_simps [simp]: "stale (but sid W) = stale W" "wt_def (but sid W) = wt_def W" "wt_steps (but sid W) = wt_steps W - {sid}"
  by (auto simp: but_def stale_def fun_eq_iff)

lemma savable_but: "savable W r run \<Longrightarrow> savable (but sid W) r run"
  by (auto simp: savable_def mem_def)

lemma savable_put:
  assumes "savable (but sid W) r run" "sid \<in> wt_steps W \<Longrightarrow> stale W s"
  shows "savable W r (set_step sid s run)"
  using assms by (auto simp: savable_def mem_def ext_def run_simps)

lemma savable_put_done:
  "savable (but sid W) r run \<Longrightarrow> ss_Status s \<notin> {StepStatusQueued, StepStatusRunning} \<Longrightarrow> savable W r (set_step sid s run)"
  by (rule savable_put) (auto simp: stale_def)

text \<open>What is known of the run a handler loads, of the definition and of the event.\<close>

definition starts :: "engine \<Rightarrow> watch \<Rightarrow> WorkflowRun \<Rightarrow> Event \<Rightarrow> bool" where
  "starts E W r evt \<longleftrightarrow> plain E W \<and> clean r \<and> wt_steps W \<subseteq> {ev_StepID evt}
     \<and> (isMapInstanceID (ev_StepID evt) \<longrightarrow> wt_steps W = {})
     \<and> (\<forall>d. snd (loadPinnedOrLatestDef E r) = Ok d \<longrightarrow> d = wt_def W)"

lemma startsD:
  assumes "starts E W r evt"
  shows "plain E W" "clean r" "savable (but (ev_StepID evt) W) r r"
    "snd (loadPinnedOrLatestDef E r) = Ok d \<Longrightarrow> d = wt_def W"
    "isMapInstanceID (ev_StepID evt) \<Longrightarrow> savable W r r"
  using assms by (auto simp: starts_def savable_def mem_def)

lemma starts_all: "starts E W r evt \<Longrightarrow> wt_steps W = {} \<Longrightarrow> savable W r r"
  by (simp add: savable_def mem_def)

lemma loadRunAndDef_Ok:
  assumes "snd (loadRunAndDef E r) = Ok D"
  shows "\<exists>d. snd (loadPinnedOrLatestDef E r) = Ok d \<and> EffectiveDef d r = (Ok D :: (engine_error, WorkflowDef) res)"
  using assms by (cases "loadPinnedOrLatestDef E r"; cases "snd (loadPinnedOrLatestDef E r)") (auto simp: loadRunAndDef_def)

lemma starts_def_Ok:
  assumes "starts E W r evt" "snd (loadRunAndDef E r) = Ok D"
  shows "EffectiveDef (wt_def W) r = (Ok D :: (engine_error, WorkflowDef) res)" "stands (wt_def W) D r"
proof -
  show e: "EffectiveDef (wt_def W) r = (Ok D :: (engine_error, WorkflowDef) res)"
    using loadRunAndDef_Ok [OF assms(2)] startsD(4) [OF assms(1)] by blast
  show "stands (wt_def W) D r" by (rule stands_loaded [OF e])
qed

lemma fence_run:
  assumes "fenceStepEvent l r evt = Ok (run, pass)"
  shows "same_run run r" "savable (but (ev_StepID evt) W) r r \<Longrightarrow> savable (but (ev_StepID evt) W) r run"
proof -
  have "run = r \<or> (\<exists>s. run = set_step (ev_StepID evt) s r)"
    using assms by (auto simp: fenceStepEvent_def adoptDispatchAttempt_def Let_def res_simps split: if_splits option.splits)
  then show "same_run run r" "savable (but (ev_StepID evt) W) r r \<Longrightarrow> savable (but (ev_StepID evt) W) r run"
    by (auto intro: savable_set_step)
qed

lemma late_False: "lateEventForTerminalRun r evt = Ok False \<Longrightarrow> \<not> IsTerminal (wr_Status r)"
  by (auto simp: lateEventForTerminalRun_def split: if_splits)

lemma mem_terminal_status: "mem W r run \<Longrightarrow> IsTerminal v \<Longrightarrow> mem W r (run\<lparr>wr_Status := v\<rparr>)"
  by (auto simp: mem_def ext_def ident_def final_def clean_def)

section \<open>Completion\<close>

lemma resolveNextSteps_run:
  assumes "resolveNextSteps D run = Ok (run', effs)"
  shows "run' = fst (resolveSkips D run) \<or> run' = (fst (resolveSkips D run))\<lparr>wr_Status := RunStatusCompleted\<rparr>"
  using assms by (cases "resolveSkips D run") (auto simp: resolveNextSteps_def Let_def res_simps split: if_splits)

lemma resolveSkips_run:
  "mem W r run \<Longrightarrow> mem W r (fst (resolveSkips D run))" "same_run (fst (resolveSkips D run)) b = same_run run b"
  by (simp_all add: resolveSkips_def Let_def mem_fold_status)

lemma Advance_completed:
  assumes adv: "Advance D run (core_completed evt) = (Ok (run', effs) :: (engine_error, _) res)"
    and s: "savable (but (ev_StepID evt) W) r run" and same: "same_run run r"
    and live: "\<not> IsTerminal (wr_Status r)" and cl: "clean r"
  shows "savable W r run'" "wr_RunID run' = wr_RunID r" "wr_DynamicSteps run' = wr_DynamicSteps r"
proof -
  let ?s = "(step_of (wr_Steps run) (ev_StepID evt))\<lparr>ss_Status := StepStatusCompleted, ss_Output := ev_Payload evt\<rparr>"
  have "resolveNextSteps D (set_step (ev_StepID evt) ?s run) = (Ok (run', effs) :: (engine_error, _) res)"
    using adv by (simp add: Advance_def core_completed_def advanceCompleted_def Let_def split: if_splits)
  note run' = resolveNextSteps_run [OF this]
  let ?run1 = "fst (resolveSkips D (set_step (ev_StepID evt) ?s run))"
  have s0: "savable W r (set_step (ev_StepID evt) ?s run)" by (rule savable_put_done [OF s]) simp
  have m1: "mem W r ?run1" using s0 by (intro resolveSkips_run) (simp add: savable_def)
  have same1: "same_run ?run1 r" using same by (simp add: resolveSkips_run)
  have nf: "\<not> final r" using live by (simp add: final_def)
  have none: "wr_CompletedAt ?run1 = None" using live cl same_runD(5) [OF same1] by (auto simp: clean_def)
  show "savable W r run'" using run' m1 mem_terminal_status [OF m1] none nf
    by (auto simp: savable_def keeps_def final_def)
  show "wr_RunID run' = wr_RunID r" "wr_DynamicSteps run' = wr_DynamicSteps r"
    using run' same_runD(1,7) [OF same1] by auto
qed

lemma quiet_create_binding [simp]: "quiet (create_binding E D run evt)"
  by (simp add: create_binding_def)

lemma complete_step_sat:
  assumes p: "plain E W" and s: "savable (but (ev_StepID evt) W) r run" and same: "same_run run r"
    and live: "\<not> IsTerminal (wr_Status r)" and cl: "clean r" and d: "stands (wt_def W) D r"
  shows "sat (admits W) r (complete_step E D run evt) (\<lambda>_ _. True)"
  unfolding complete_step_def
proof (rule sat_bind_lift, clarify, goal_cases)
  case (1 run' effs)
  note adv = Advance_completed [OF 1 s same live cl]
  let ?run = "RecoverIfOnFailure D run' (ev_StepID evt)"
  have same': "same_run ?run run'" by (rule RecoverIfOnFailure_run)
  have s': "savable W r ?run"
    by (rule savable_same [OF adv(1) same']) (use adv(1) RecoverIfOnFailure_run(1) in \<open>auto simp: savable_def\<close>)
  have d': "stands (wt_def W) D ?run"
    using d stands_same [OF same'] stands_cong [OF adv(2,3)] by simp
  show ?case
    by (intro sat_bind_quiet [OF quiet_release_slot] sat_bind_quiet [OF quiet_create_binding]
        sat_bind [OF HandleCompensateCompleted_sat [OF p s']])
      (auto intro!: sat_intros continue_run_sat [OF p s' d'])
qed

lemma handleStepCompleted_sat:
  assumes "starts E W r evt"
  shows "sat (admits W) r (handleStepCompleted E r evt) (\<lambda>_ _. True)"
proof -
  note st = startsD [OF assms]
  have planner: "sat (admits W) r (completePlannerStep E D run s evt) (\<lambda>_ _. True)"
    if D: "snd (loadRunAndDef E r) = Ok D" and s: "savable (but (ev_StepID evt) W) r run" and same: "same_run run r" for D run s
  proof -
    have "EffectiveDef (wt_def W) (set_step (ev_StepID evt) x run) = (Ok D :: (engine_error, WorkflowDef) res)" for x
      by (subst EffectiveDef_cong [of _ r]) (simp_all add: run_simps starts_def_Ok(1) [OF assms D] same_runD(1,7) [OF same])
    then show ?thesis
      unfolding completePlannerStep_def Let_def
      by (intro sat_intros sat_bind_quiet [OF quiet_release_slot] materializePlannerOutput_sat [OF st(1)] savable_put_done [OF s])
        simp_all
  qed
  show ?thesis
    unfolding handleStepCompleted_def Let_def
  proof (intro sat_if sat_panic sat_bind_quiet [OF quiet_load(2)] sat_bind_lift sat_ret TrueI, goal_cases)
    case (1 D late)
    then show ?case by (intro handleMapInstanceCompleted_sat [OF st(1)] st(5) starts_def_Ok(2) [OF assms])
  next
    case (2 D late)
    then have live: "\<not> IsTerminal (wr_Status r)" using late_False by (cases late) auto
    note d = starts_def_Ok(2) [OF assms 2(3)]
    have fence: "sat (admits W) r (if b then ret (r, True) else lift (fenceStepEvent (en_legacy E) r evt))
        (\<lambda>r' (run, pass). r' = r \<and> same_run run r \<and> savable (but (ev_StepID evt) W) r run)" for b
      by (intro sat_if sat_ret sat_lift) (use fence_run st(3) in auto)
    show ?case
      by (rule sat_bind [OF fence])
        (auto intro!: sat_intros planner [OF 2(3)] complete_step_sat [OF st(1) _ _ live st(2) d])
  qed
qed

section \<open>Loops\<close>

lemma failLoopStep_sat:
  assumes "mem (but stepID W) r run" shows "sat (admits W) r (failLoopStep E run stepID state reason) (\<lambda>_ _. True)"
proof -
  have "mem W r (set_step stepID (state\<lparr>ss_Status := StepStatusFailed, ss_Error := reason\<rparr>) run)"
    using assms by (auto simp: mem_def ext_def run_simps stale_def)
  then show ?thesis
    unfolding failLoopStep_def Let_def
    by (intro sat_intros sat_bind [OF finalizeRun_sat]) (auto intro: quiet_True)
qed

text \<open>What an iteration's task and its timers repeat of the stored step.\<close>

lemma sendWait_steady:
  assumes "same_step state (step_of (wr_Steps run) (sd_ID stepDef))"
  shows "steady W run (sendWait E run stepDef state)"
  unfolding sendWait_def
  by (auto intro!: schedule_steady simp: same_stepD [OF assms] split: option.split)

lemma publishIterationNow_steady:
  assumes "wt_ready W = None" "same_step state (step_of (wr_Steps run) (sd_ID stepDef))"
  shows "steady W run (publishIterationNow E run stepDef state)"
  unfolding publishIterationNow_def resolve_input_def
  by (auto intro!: steady_bind simp: dispatchIdentity_def Let_def admits_def next_run_def same_stepD [OF assms(2)] assms(1)
      split: if_splits)

lemma scheduleDelayedIteration_steady:
  assumes "attempt = ss_Attempts (step_of (wr_Steps run) (sd_ID stepDef))"
  shows "steady W run (scheduleDelayedIteration E run stepDef input attempt iteration delay)"
  unfolding scheduleDelayedIteration_def using assms by (auto intro!: steady_bind schedule_steady)

lemma publishContinueTask_steady:
  assumes "wt_ready W = None" "same_step state (step_of (wr_Steps run) (sd_ID stepDef))"
  shows "steady W run (publishContinueTask E run stepDef state)"
  unfolding publishContinueTask_def resolve_input_def
  by (auto intro!: steady_bind sendWait_steady scheduleDelayedIteration_steady publishIterationNow_steady assms
      simp: dispatchIdentity_def Let_def split: if_splits)

lemma applyWait_core:
  assumes "applyWait now queued w state = Ok state'"
  shows "ss_Status state' = ss_Status state \<and> ss_Iterations state' = ss_Iterations state
    \<and> ss_DispatchNonce state' = ss_DispatchNonce state"
proof (cases w)
  case None
  with assms show ?thesis by (auto simp: applyWait_def)
next
  case (Some x)
  show ?thesis
  proof (cases "ContinueWait_IsZero w")
    case True
    with Some assms show ?thesis by (auto simp: applyWait_def)
  next
    case False
    from assms False show ?thesis
      unfolding applyWait_def Let_def Some option.case
      by (simp only: if_False and_then_eq_Ok, elim exE conjE) (auto split: if_splits)
  qed
qed

lemma dispatchNextIteration_sat:
  assumes p: "plain E W" and s: "savable (but (sd_ID stepDef) W) r run"
  shows "sat (admits W) r (dispatchNextIteration E run stepDef state loopState w) (\<lambda>_ _. True)"
  unfolding dispatchNextIteration_def Let_def
proof (intro sat_if sat_panic sat_bind_lift, goal_cases)
  case (1 state')
  have "savable W r (set_step (sd_ID stepDef) state' run)"
    by (rule savable_put [OF s], rule stale_fresh [OF plainD(1) [OF p]], assumption)
      (simp add: applyWait_core [OF 1(3)] stampDispatch_def)
  then show ?case
  proof (rule sat_save_run, goal_cases)
    case (1 run')
    have "same_step state' (step_of (wr_Steps run') (sd_ID stepDef))"
      using saved_step [OF 1(1), of "sd_ID stepDef"] by (simp add: run_simps)
    from publishContinueTask_steady [OF plainD(2) [OF p] this] show ?case
      by (rule sat_bind_steady) (intro sat_bind [OF markSent_sat [OF 1(2)]] sat_ret TrueI)
  qed
qed

lemma findStepDef_ID: "findStepDef D sid = Some s \<Longrightarrow> sd_ID s = sid"
  by (auto simp: findStepDef_def find_Some_iff)

lemma Advance_continue:
  assumes "Advance D run (core_continue evt) = (Ok (run', effs) :: (engine_error, _) res)"
  obtains (again) s where "run' = set_step (ev_StepID evt) s run"
    "ss_Iterations s = wrap64 (ss_Iterations (step_of (wr_Steps run) (ev_StepID evt)) + 1)"
  | (failed) s where "run' = (set_step (ev_StepID evt) s run)\<lparr>wr_Status := RunStatusFailed\<rparr>"
    "list_ex (\<lambda>e. case e of FailWorkflow _ _ \<Rightarrow> True | _ \<Rightarrow> False) effs"
proof -
  let ?s = "(step_of (wr_Steps run) (ev_StepID evt))\<lparr>ss_Iterations := wrap64 (ss_Iterations (step_of (wr_Steps run) (ev_StepID evt)) + 1)\<rparr>"
  have "advanceContinue D run (core_continue evt) = (Ok (run', effs) :: (engine_error, _) res)"
    using assms by (simp add: Advance_def core_continue_def split: if_splits)
  then obtain stepDef cfg where "findStepInDef D (ev_StepID evt) = Some stepDef"
    and cfg: "ParseAgentLoopConfig stepDef = Ok cfg"
    and res: "(if al_MaxIterations cfg > 0 \<and> ss_Iterations ?s \<ge> al_MaxIterations cfg
       then Ok ((set_step (ev_StepID evt) (?s\<lparr>ss_Status := StepStatusFailed, ss_Error := iterations_error (al_MaxIterations cfg)\<rparr>) run)
                  \<lparr>wr_Status := RunStatusFailed\<rparr>, [FailWorkflow (ev_StepID evt) (iterations_error (al_MaxIterations cfg))])
       else case ResolveInput stepDef (wr_Steps (set_step (ev_StepID evt) ?s run)) [wr_Input (set_step (ev_StepID evt) ?s run)] of
                        Ok input \<Rightarrow> Ok (set_step (ev_StepID evt) ?s run, [EnqueueTask stepDef input (ss_Iterations ?s)])
                      | Err e \<Rightarrow> Panic ''advanceContinue: ResolveInput''
                      | Panic p \<Rightarrow> Panic p) = (Ok (run', effs) :: (engine_error, _) res)"
    by (cases "findStepInDef D (ev_StepID evt)"; cases "ParseAgentLoopConfig (the (findStepInDef D (ev_StepID evt)))")
      (simp_all only: advanceContinue_def core_continue_def CoreEvent.simps Let_def option.case res.case option.sel res.distinct)
  show thesis
  proof (cases "al_MaxIterations cfg > 0 \<and> ss_Iterations ?s \<ge> al_MaxIterations cfg")
    case True
    with res have "run' = (set_step (ev_StepID evt) (?s\<lparr>ss_Status := StepStatusFailed,
        ss_Error := iterations_error (al_MaxIterations cfg)\<rparr>) run)\<lparr>wr_Status := RunStatusFailed\<rparr>"
      "effs = [FailWorkflow (ev_StepID evt) (iterations_error (al_MaxIterations cfg))]" by simp_all
    then show thesis by (intro failed) simp_all
  next
    case False
    have "x = run'" if "(case R of Ok input \<Rightarrow> Ok (x, f input) | Err e \<Rightarrow> Panic g | Panic p \<Rightarrow> Panic p)
        = (Ok (run', effs) :: (engine_error, _) res)" for R :: "('z, raw) res" and x f g
      using that by (cases R) auto
    from this [OF res [unfolded if_not_P [OF False]]] have "run' = set_step (ev_StepID evt) ?s run" ..
    then show thesis by (rule again) simp
  qed
qed

lemma savable_but_set: "savable (but sid W) r run \<Longrightarrow> savable (but sid W) r (set_step sid s run)"
  by (rule savable_set_step) auto

lemma savable_mem: "savable W r run \<Longrightarrow> mem W r run"
  by (simp add: savable_def)

lemma handleStepContinue_sat:
  assumes "starts E W r evt"
  shows "sat (admits W) r (handleStepContinue E r evt) (\<lambda>_ _. True)"
proof -
  note st = startsD [OF assms]
  have advanced: "sat (admits W) r
      (let state = step_of (wr_Steps run') (ev_StepID evt) in
       if list_ex (\<lambda>e. case e of FailWorkflow _ _ \<Rightarrow> True | _ \<Rightarrow> False) effs
       then failLoopStep E run' (ev_StepID evt) state (ss_Error state)
       else
         let state = (if ss_Iterations state = 1 then state\<lparr>ss_LoopStartedAt := en_now E\<rparr> else state)
         in (case checkLoopBounds (en_duration_text E) (en_now E) stepDef state of
               Some reason \<Rightarrow> failLoopStep E run' (ev_StepID evt) state reason
             | None \<Rightarrow> dispatchNextIteration E run' stepDef state (ls state) w)) (\<lambda>_ _. True)"
    if s: "savable (but (ev_StepID evt) W) r run" and id: "sd_ID stepDef = ev_StepID evt"
      and adv: "Advance D run (core_continue evt) = (Ok (run', effs) :: (engine_error, _) res)" for D run run' effs stepDef ls w
    using adv
  proof (cases rule: Advance_continue)
    case (again x)
    have s': "savable (but (ev_StepID evt) W) r run'" unfolding again(1) by (rule savable_but_set [OF s])
    then have s'': "savable (but (sd_ID stepDef) W) r run'" by (simp only: id)
    show ?thesis unfolding Let_def
      by (intro sat_intros failLoopStep_sat savable_mem [OF s'] dispatchNextIteration_sat [OF st(1) s''])
  next
    case (failed x)
    have "mem (but (ev_StepID evt) W) r run'"
      unfolding failed(1) by (rule mem_terminal_status [OF savable_mem [OF savable_but_set [OF s]]]) simp
    from failLoopStep_sat [OF this] show ?thesis using failed(2) by (simp add: Let_def)
  qed
  show ?thesis
    unfolding handleStepContinue_def
  proof (intro sat_if sat_panic sat_bind_quiet [OF quiet_load(2)] sat_case_option sat_raise sat_bind_lift, goal_cases)
    case (1 D stepDef p)
    obtain run pass where p: "p = (run, pass)" by (cases p)
    have s: "savable (but (ev_StepID evt) W) r run" by (rule fence_run(2) [OF 1(5) [unfolded p] st(3)])
    show ?case unfolding p prod.case
      by (intro sat_if sat_ret TrueI sat_bind_lift sat_case_prod sat_case_option failLoopStep_sat savable_mem [OF s])
        (simp only:, rule advanced [OF s findStepDef_ID [OF 1(4)]], simp only:)
  qed
qed

end
