(* ===== verification/Handlers_Contract.thy ===== *)
theory Handlers_Contract
  imports Engine_Lifecycle
begin

text \<open>
  The rest of the handlers keeps the contract: failures and retries, the lifecycle of a step, waits, children,
  approvals, cancellation, the second attempt at a dispatch, and the routing of an event to its handler.
\<close>

section \<open>Failures and retries\<close>

lemma late_same: "lateEventForTerminalRun r evt = Ok b \<Longrightarrow> wr_RunID r = ev_RunID evt"
  by (auto simp: lateEventForTerminalRun_def split: if_splits)

lemma retry_schedule_steady:
  assumes "runID = wr_RunID run"
  shows "steady W run (scheduleRetryAfter E runID stepID stepDef ms run name)"
    "steady W run (scheduleRetryBackoff E runID stepID stepDef p run name)"
  unfolding scheduleRetryAfter_def scheduleRetryBackoff_def Let_def resolve_input_def
  using assms by (auto intro!: steady_if steady_bind schedule_steady simp: retry_timer_def)

lemma retry_state_savable:
  assumes "plain E W" "savable (but stepID W) r run" "retry_state E stepID delayMs state = Ok state'"
  shows "savable W r (set_step stepID state' run)"
  by (rule savable_put [OF assms(2)], rule stale_fresh [OF plainD(1) [OF assms(1)]], assumption)
    (use assms(3) in \<open>auto simp: retry_state_def markRetryPending_def stampDispatch_def split: if_splits\<close>)

lemma give_up_sat:
  assumes "plain E W" "savable (but stepID W) r run"
  shows "sat (admits W) r (let state = state\<lparr>ss_Status := StepStatusFailed\<rparr>
    in HandlePermanentFailure E D (set_step stepID state run) stepDef state stepID) (\<lambda>_ _. True)"
  unfolding Let_def by (rule HandlePermanentFailure_sat [OF assms(1)], rule savable_put_done [OF assms(2)]) simp

lemma dispatchRetriableFailure_sat:
  assumes p: "plain E W" and s: "savable (but (ev_StepID evt) W) r run" and id: "ev_RunID evt = wr_RunID run"
  shows "sat (admits W) r (dispatchRetriableFailure E D run state stepDef evt policy) (\<lambda>_ _. True)"
proof -
  note retry = retry_state_savable [OF p s] and give_up = give_up_sat [OF p s, unfolded Let_def]
  show ?thesis
    unfolding dispatchRetriableFailure_def Let_def
  proof (intro sat_case_option sat_if sat_bind_lift give_up, goal_cases)
    case (1 p ms state')
    show ?case
      by (rule sat_save_run [OF retry [OF 1(4)]], rule steady_True, rule retry_schedule_steady)
        (simp add: saved_run(5) id run_simps)
  qed
qed

lemma handleRetryAfter_sat:
  assumes p: "plain E W" and s: "savable (but stepID W) r run"
  shows "sat (admits W) r (handleRetryAfter E D run stepDef state stepID ms policy) (\<lambda>_ _. True)"
proof -
  note retry = retry_state_savable [OF p s] and give_up = give_up_sat [OF p s, unfolded Let_def]
  show ?thesis
    unfolding handleRetryAfter_def Let_def
  proof (intro sat_case_option sat_if sat_bind_lift give_up, goal_cases)
    case (1 p state')
    show ?case by (rule sat_save_run [OF retry [OF 1(3)]], rule steady_True, rule retry_schedule_steady) simp
  qed
qed

lemma dispatchNonRetriableFailure_sat:
  assumes p: "plain E W" and s: "savable (but (ev_StepID evt) W) r run"
  shows "sat (admits W) r (dispatchNonRetriableFailure E D run stepDef evt err) (\<lambda>_ _. True)"
  unfolding dispatchNonRetriableFailure_def
proof (intro sat_bind_lift sat_case_prod sat_let, goal_cases)
  case (1 x run' effs run'')
  let ?s = "(step_of (wr_Steps run) (ev_StepID evt))\<lparr>ss_Error := err, ss_Status := StepStatusFailed\<rparr>"
  let ?run = "fst (resolveSkips D (set_step (ev_StepID evt) ?s run))"
  have "run' = ?run\<lparr>wr_Status := RunStatusFailed\<rparr>"
    using 1(1,2) by (auto simp: Advance_def core_failed_def advanceFailed_def Let_def case_prod_beta split: if_splits)
  moreover have same: "same_run ?run run" by (simp add: resolveSkips_run)
  ultimately have run'': "run'' = ?run" using 1(3) same_runD(3) [OF same] by simp
  have s0: "savable W r (set_step (ev_StepID evt) ?s run)" by (rule savable_put_done [OF s]) simp
  have "savable W r ?run"
    by (rule savable_same [OF s0], simp add: resolveSkips_run, rule resolveSkips_run(1) [OF savable_mem [OF s0]])
  then show ?case unfolding run'' by (rule HandlePermanentFailure_sat [OF p])
qed

lemma handleStepFailed_sat:
  assumes "starts E W r evt"
  shows "sat (admits W) r (handleStepFailed E r evt) (\<lambda>_ _. True)"
proof -
  note st = startsD [OF assms]
  have fail: "sat (admits W) r
      (if t = FailureTypeNonRetriable then dispatchNonRetriableFailure E D run stepDef evt err
       else if t = FailureTypeRetryAfter then handleRetryAfter E D run stepDef state (ev_StepID evt) ms policy
       else dispatchRetriableFailure E D run state stepDef evt policy) (\<lambda>_ _. True)"
    if "savable (but (ev_StepID evt) W) r run" "ev_RunID evt = wr_RunID run" for t D run stepDef err state ms policy
    using that by (intro sat_if dispatchNonRetriableFailure_sat handleRetryAfter_sat dispatchRetriableFailure_sat st(1))
  show ?thesis
    unfolding handleStepFailed_def
  proof (intro sat_if sat_panic sat_bind_quiet [OF quiet_load(2)] sat_bind_lift sat_ret TrueI, goal_cases)
    case (1 D late)
    then show ?case by (intro handleMapInstanceFailed_sat [OF st(1)] st(5))
  next
    case (2 D late p)
    obtain run pass where p: "p = (run, pass)" by (cases p)
    have s: "savable (but (ev_StepID evt) W) r run" by (rule fence_run(2) [OF 2(7) [unfolded p] st(3)])
    have "wr_RunID run = ev_RunID evt"
      using same_runD(1) [OF fence_run(1) [OF 2(7) [unfolded p]]] late_same [OF 2(4)] by simp
    then show ?case unfolding p prod.case Let_def
      by (intro sat_if [of "\<not> pass"] sat_ret TrueI fail) (auto intro: s savable_but_set simp: run_simps)
  qed
qed

section \<open>Inputs and waits of a loop\<close>

lemma sat_loaded:
  assumes "\<And>D. snd (loadRunAndDef E r) = Ok D \<Longrightarrow> sat (admits W) r (f D) Q" "Q r a"
  shows "sat (admits W) r (case loadRunAndDef E r of
      (acts, Panic p) \<Rightarrow> (acts, Panic p)
    | (acts, Err e) \<Rightarrow> (acts, Ok a)
    | (acts, Ok D) \<Rightarrow> bind (emit acts) (\<lambda>_. f D)) Q"
proof -
  obtain acts x where l: "loadRunAndDef E r = (acts, x)" by fastforce
  have "allowed (admits W) r acts \<and> stored r acts = r" using quiet_load(2) [of E r] by (simp add: l quiet_def neutral_all)
  then show ?thesis using assms by (cases x) (auto simp: l emit_def sat_def)
qed

lemma wakeStep_sat:
  assumes p: "plain E W" and s: "savable W r r" and none: "wt_steps W = {}"
  shows "sat (admits W) r (wakeStep E r stepDef state by_input) (\<lambda>_ _. True)"
  unfolding wakeStep_def
proof (intro sat_if sat_panic sat_let, goal_cases)
  case (1 state')
  have "savable W r (set_step (sd_ID stepDef) state' r)" by (rule savable_set_step [OF s]) (simp add: none)
  then show ?case
  proof (rule sat_save_run, goal_cases)
    case (1 run')
    have "same_step state' (step_of (wr_Steps run') (sd_ID stepDef))"
      using saved_step [OF 1(1), of "sd_ID stepDef"] by (simp add: run_simps)
    from publishIterationNow_steady [OF plainD(2) [OF p] this] show ?case
      by (rule sat_bind_steady) (intro sat_bind [OF markSent_sat [OF 1(2)]] sat_ret TrueI)
  qed
qed

lemma save_step_sat:
  assumes "savable W r r" "wt_steps W = {}" "\<And>run'. mem W run' run' \<Longrightarrow> wr_RunID run' = wr_RunID r \<Longrightarrow> sat (admits W) run' (f run') Q"
  shows "sat (admits W) r (bind (saveSnapshot E (set_step sid state r)) f) Q"
  by (rule sat_save_run, rule savable_set_step [OF assms(1)], simp add: assms(2), rule assms(3))
    (simp_all add: saved_run(5) run_simps)

lemma handleInputQueued_sat:
  assumes "starts E W r evt" "wt_steps W = {}"
  shows "sat (admits W) r (handleInputQueued E r evt) (\<lambda>_ _. True)"
proof -
  note s = starts_all [OF assms]
  show ?thesis
    unfolding handleInputQueued_def
    by (intro sat_if sat_panic sat_loaded sat_case_prod TrueI)
      (auto split: option.split intro!: sat_intros sat_emit wakeStep_sat [OF startsD(1) [OF assms(1)] s assms(2)]
         save_step_sat [OF s assms(2)] simp: admits_def next_run_def)
qed

lemma handleWaitElapsed_sat:
  assumes "starts E W r evt" "wt_steps W = {}"
  shows "sat (admits W) r (handleWaitElapsed E r evt) (\<lambda>_ _. True)"
  unfolding handleWaitElapsed_def Let_def
  by (intro sat_if sat_panic sat_loaded sat_case_option sat_ret TrueI
      wakeStep_sat [OF startsD(1) [OF assms(1)] starts_all [OF assms] assms(2)])

section \<open>The lifecycle of a step\<close>

lemma armStepWatchdog_steady: "steady W run (armStepWatchdog E run stepID attempts elapsed)"
  unfolding armStepWatchdog_def scheduleStepTimeout_def
  by (auto intro!: steady_if schedule_steady simp: zero_TimerMessage_def split: res.split option.split)

lemma handleStepStarted_sat:
  assumes "starts E W r evt" "wt_steps W = {}"
  shows "sat (admits W) r (handleStepStarted E r evt) (\<lambda>_ _. True)"
proof -
  note save = save_step_sat [OF starts_all [OF assms] assms(2)]
  show ?thesis
    unfolding handleStepStarted_def
    by (intro sat_if sat_panic sat_case_option sat_ret TrueI sat_bind_lift sat_let sat_case_prod save
        steady_True [OF armStepWatchdog_steady])
qed

lemma handleStepQueued_sat:
  assumes "starts E W r evt" "wt_steps W = {}"
  shows "sat (admits W) r (handleStepQueued E r evt) (\<lambda>_ _. True)"
proof -
  note save = save_step_sat [OF starts_all [OF assms] assms(2)]
  show ?thesis
    unfolding handleStepQueued_def
    by (intro sat_if sat_panic sat_case_option sat_ret TrueI sat_bind_lift save)
qed

section \<open>Waits, children, approvals\<close>

lemma continue_step_sat:
  assumes "starts E W r evt" "wt_steps W = {}" "snd (loadRunAndDef E r) = Ok D"
  shows "sat (admits W) r (continue_run E D (set_step sid s r)) (\<lambda>_ _. True)"
  by (rule continue_run_sat [OF startsD(1) [OF assms(1)]], rule savable_set_step [OF starts_all [OF assms(1,2)]])
    (simp_all add: assms(2) starts_def_Ok(2) [OF assms(1,3)])

lemma fail_running_step_sat:
  assumes "wt_steps W = {}" shows "sat (admits W) r (fail_running_step E D r sid err) (\<lambda>_ _. True)"
  unfolding fail_running_step_def Let_def
  by (rule failWorkflow_sat, rule mem_set_step) (simp_all add: mem_def assms)

lemma handleWaitTimeout_sat:
  assumes "starts E W r evt" "wt_steps W = {}"
  shows "sat (admits W) r (handleWaitTimeout E r evt) (\<lambda>_ _. True)"
  unfolding handleWaitTimeout_def Let_def
  by (intro sat_if sat_panic sat_ret TrueI sat_bind_quiet [OF quiet_load(2)], rule sat_bind_quiet)
    (auto intro!: continue_step_sat [OF assms])

lemma quiet_child_outputs [simp]: "quiet (loadChildTerminalOutputs E childRunID)"
  by (auto simp: loadChildTerminalOutputs_def intro!: quiet_bind split: option.split)

lemma handleChildCompleted_sat:
  assumes "starts E W r evt" "wt_steps W = {}"
  shows "sat (admits W) r (handleChildCompleted E r evt) (\<lambda>_ _. True)"
  unfolding handleChildCompleted_def Let_def
  by (intro sat_if sat_panic sat_ret TrueI sat_bind_quiet [OF quiet_load(2)] sat_bind_quiet [OF quiet_child_outputs]
      continue_step_sat [OF assms])

lemma handleChildFailed_sat:
  assumes "wt_steps W = {}"
  shows "sat (admits W) r (handleChildFailed E r evt) (\<lambda>_ _. True)"
  unfolding handleChildFailed_def
  by (intro sat_if sat_panic sat_ret TrueI sat_bind_quiet [OF quiet_load(2)] sat_case_option sat_raise
      fail_running_step_sat assms)

lemma HandleGranted_sat:
  assumes "starts E W r evt" "wt_steps W = {}"
  shows "sat (admits W) r (HandleGranted E r evt) (\<lambda>_ _. True)"
  unfolding HandleGranted_def Let_def
  by (intro sat_if sat_panic sat_ret TrueI sat_bind_quiet [OF quiet_load(2)] continue_step_sat [OF assms])

lemma approval_failed_sat:
  assumes "wt_steps W = {}" shows "sat (admits W) r (approval_failed E r evt err) (\<lambda>_ _. True)"
  unfolding approval_failed_def
  by (intro sat_if sat_panic sat_ret TrueI sat_bind_quiet [OF quiet_load(2)] fail_running_step_sat assms)

section \<open>Cancellation\<close>

lemma quiet_release_slots [simp]: "quiet (release_slots E D runID steps)"
  by (induction steps rule: release_slots.induct) (auto intro!: quiet_bind split: option.split)

lemma quiet_delete_tokens [simp]: "quiet (deleteTokens runID ids)"
  by (induction ids) (auto intro!: quiet_bind)

lemma quiet_cancel [simp]:
  "quiet (releaseCancelledTaskSlots E D run)" "quiet (CleanupTokens E D run)" "quiet (releaseCancelledWithoutDef E run)"
  "quiet (cascadeCancelChildren E run)"
  by (auto simp: releaseCancelledTaskSlots_def CleanupTokens_def releaseCancelledWithoutDef_def cascadeCancelChildren_def
      Let_def list_all_iff intro!: quiet_bind)

lemma quiet_found_def:
  "quiet (case loadPinnedOrLatestDef E r of
      (acts, Ok wfDef) \<Rightarrow> (acts, Ok (Some wfDef))
    | (acts, Err e) \<Rightarrow> if isDefUnresolvable e then (acts, Ok None) else (acts, Err e)
    | (acts, Panic p) \<Rightarrow> (acts, Panic p))"
  using quiet_load(1) [of E r] by (cases "loadPinnedOrLatestDef E r"; cases "snd (loadPinnedOrLatestDef E r)") (auto simp: quiet_def)

lemma cancelUnfinished_mem:
  assumes "wt_steps W = {}" shows "mem W r (cancelUnfinishedSteps r)"
  using assms by (simp add: mem_def ext_def cancelUnfinishedSteps_def mdom_map del: set_map)

lemma handleWorkflowCancelled_sat:
  assumes "wt_steps W = {}"
  shows "sat (admits W) r (handleWorkflowCancelled E r evt) (\<lambda>_ _. True)"
  unfolding handleWorkflowCancelled_def Let_def
proof (intro sat_if sat_panic sat_ret TrueI sat_bind_quiet [OF quiet_found_def], goal_cases)
  case (1 found)
  let ?run = "cancelUnfinishedSteps r"
  have released: "quiet (case found of None \<Rightarrow> releaseCancelledWithoutDef E ?run
      | Some wfDef \<Rightarrow> bind (lift (EffectiveDef wfDef ?run)) (\<lambda>wfDef.
          bind (releaseCancelledTaskSlots E wfDef ?run) (\<lambda>_. CleanupTokens E wfDef ?run)))"
    by (auto intro!: quiet_bind split: option.split)
  have waiters: "quiet (if en_correlator E then emit [RemoveWaitersForRun (wr_RunID ?run)] else ret ())" by simp
  have binding: "quiet (emit [DeleteBinding (wr_RunID ?run)])" by simp
  show ?case
    by (intro sat_bind_quiet [OF released] sat_bind_quiet [OF waiters] sat_bind_quiet [OF quiet_cancel(4)]
        sat_bind_quiet [OF binding] sat_bind [OF finalizeRun_sat [OF cancelUnfinished_mem [OF assms]]])
      (auto intro!: quiet_True quiet_bind)
qed

section \<open>Unsent dispatches\<close>

text \<open>Everything a plan sends repeats what is stored.\<close>

definition resends :: "watch \<Rightarrow> WorkflowRun \<Rightarrow> dispatchPlan \<Rightarrow> bool" where
  "resends W r plan \<longleftrightarrow> (\<forall>(sid, eff) \<in> set (dp_effects plan). steady W r (eff r))
     \<and> (\<forall>step \<in> set (dp_normalSteps plan). sendable W r step)"

lemma resends_add:
  assumes "resends W r plan"
  shows "steady W r (eff r) \<Longrightarrow> resends W r (plan\<lparr>dp_effects := dp_effects plan @ [(sid, eff)]\<rparr>)"
    "sendable W r step \<Longrightarrow> resends W r (plan\<lparr>dp_normalSteps := dp_normalSteps plan @ [step]\<rparr>)"
    "resends W r (plan\<lparr>dp_alreadySent := ids\<rparr>)"
  using assms by (auto simp: resends_def)

lemma planTaskResend_post:
  assumes "wt_ready W = None" "resends W r plan"
  shows "quiet (planTaskResend E r step plan)" "snd (planTaskResend E r step plan) = Ok plan' \<Longrightarrow> resends W r plan'"
proof -
  show "quiet (planTaskResend E r step plan)" by (simp add: planTaskResend_def Let_def)
  have q: "sendable W r step" if "status_of r (sd_ID step) = StepStatusQueued"
    using that by (simp add: sendable_def assms(1))
  have c: "steady W r (publishContinueTask E r step (step_of (wr_Steps r) (sd_ID step)))"
    by (rule publishContinueTask_steady [OF assms(1)]) simp
  show "resends W r plan'" if "snd (planTaskResend E r step plan) = Ok plan'"
    using that q c resends_add [OF assms(2)]
    by (auto simp: planTaskResend_def Let_def split: if_splits)
qed

lemma sleep_resume_post:
  "quiet (sleep_resume E r step)" "snd (sleep_resume E r step) = Ok eff \<Longrightarrow> steady W r (eff r)"
  by (auto simp: sleep_resume_def sendTimer_steady split: option.splits)

lemma planResend_post:
  assumes "wt_ready W = None" "resends W r plan"
  shows "quiet (planResend E r steps plan) \<and> (\<forall>plan'. snd (planResend E r steps plan) = Ok plan' \<longrightarrow> resends W r plan')"
  using assms(2)
proof (induction steps arbitrary: plan)
  case (Cons step steps)
  let ?m = "if sd_Type step = StepTypeSleep then
                bind (sleep_resume E r step) (\<lambda>eff. ret (plan\<lparr>dp_effects := dp_effects plan @ [(sd_ID step, eff)]\<rparr>))
              else if sd_Type step = StepTypeWaitForEvent then
                bind (waitForEventSend E r step) (\<lambda>eff. ret (plan\<lparr>dp_effects := dp_effects plan @ [(sd_ID step, eff)]\<rparr>))
              else planTaskResend E r step plan"
  have m: "quiet ?m" "snd ?m = Ok plan' \<Longrightarrow> resends W r plan'" for plan'
    using planTaskResend_post [OF assms(1) Cons.prems] sleep_resume_post waitForEventSend_post resends_add [OF Cons.prems]
    by (auto intro!: quiet_bind simp: snd_bind_Ok split: if_splits)
  show ?case
  proof (cases "ss_DispatchUnsent (step_of (wr_Steps r) (sd_ID step))")
    case True
    then have eq: "planResend E r (step # steps) plan = bind ?m (planResend E r steps)"
      by (simp only: planResend.simps simp_thms if_False)
    note rest = Cons.IH [OF m(2)]
    have "quiet (bind ?m (planResend E r steps))" by (rule quiet_bind [OF m(1)]) (rule conjunct1 [OF rest])
    moreover have "resends W r plan'" if "snd (bind ?m (planResend E r steps)) = Ok plan'" for plan'
      using that rest unfolding snd_bind_Ok by blast
    ultimately show ?thesis unfolding eq by blast
  qed (use Cons in simp)
qed simp

lemma resendUnsent_sat:
  assumes p: "plain E W" and m: "mem W r r"
  shows "sat (admits W) r (resendUnsent E r) (\<lambda>_ _. True)"
proof -
  note ready = plainD(2) [OF p]
  have "resends W r empty_plan" by (simp add: resends_def empty_plan_def)
  note plan = planResend_post [OF ready this]
  have send: "steady W r (sendPlan r plan)" if "snd (planResend E r steps empty_plan) = Ok plan" for steps plan
    using plan [of E steps] that by (intro sendPlan_steady) (auto simp: resends_def)
  show ?thesis
    unfolding resendUnsent_def
    by (intro sat_if sat_panic sat_ret TrueI sat_bind_quiet [OF quiet_load(1)] sat_bind_lift sat_bind_guard
        sat_bind_quiet [OF conjunct1 [OF plan]] sat_bind_steady [OF send] sat_case_prod sat_bind [OF markSent_sat [OF m]]
        sat_case_option sat_raise)
qed

section \<open>Starts\<close>

lemma quiet_register [simp]: "quiet (register_waiters run i cs)" "quiet (registerCancelWaiters E D run)"
proof -
  have *: "quiet (register_waiters run i cs)" for i cs
    by (induction cs arbitrary: i) (auto intro!: quiet_bind split: res.split)
  then show "quiet (register_waiters run i cs)" .
  from * show "quiet (registerCancelWaiters E D run)" by (simp add: registerCancelWaiters_def)
qed

lemma healRun_sat:
  assumes "starts E W r evt" "wt_steps W = {}"
  shows "sat (admits W) r (healRun E r) (\<lambda>_ _. True)"
proof -
  note p = startsD(1) [OF assms(1)]
  have "sat (admits W) r (enqueueReady E D r) (\<lambda>_ _. True)"
    if "snd (loadPinnedOrLatestDef E r) = Ok d" "EffectiveDef d r = (Ok D :: (engine_error, WorkflowDef) res)" for d D
    using that startsD(4) [OF assms(1)] plainD(2) [OF p]
    by (intro enqueueReady_sat [OF plainD(1) [OF p] _ starts_all [OF assms]] stands_loaded) auto
  then show ?thesis
    unfolding healRun_def
    by (intro sat_if sat_panic sat_ret TrueI sat_bind_quiet [OF quiet_load(1)] sat_bind_lift)
      (rule sat_bind, assumption, rule quiet_True, simp)
qed

lemma quiet_pending [simp]: "quiet (hasReadyPendingSteps E r)"
  by (auto simp: hasReadyPendingSteps_def intro!: quiet_bind)

lemma startExistingRun_sat:
  assumes "starts E W r evt" "wt_steps W = {}"
  shows "sat (admits W) r (startExistingRun E r b) (\<lambda>_ _. True)"
  unfolding startExistingRun_def
  by (intro sat_bind_quiet [OF quiet_pending] sat_if sat_ret TrueI healRun_sat [OF assms])

section \<open>Routing\<close>

text \<open>The events whose handler asks the fence.\<close>

lemma routeEvent_sat:
  assumes s: "starts E W r evt" and watched: "wt_steps W = {} \<or> ev_Type evt \<in> {EventStepCompleted, EventStepContinue, EventStepFailed}"
    and spawn: "ev_Type evt \<noteq> EventWorkflowSpawn"
  shows "sat (admits W) r (routeEvent spawn E r evt) (\<lambda>_ _. True)"
proof (cases "wt_steps W = {}")
  case True
  show ?thesis
    unfolding routeEvent_def HandleRejected_def HandleExpired_def
    using spawn
    by (cases "ev_Type evt")
      (auto intro!: sat_intros startExistingRun_sat [OF s True] handleStepCompleted_sat [OF s] handleWaitTimeout_sat [OF s True]
        handleStepContinue_sat [OF s] handleStepFailed_sat [OF s] handleStepStarted_sat [OF s True]
        handleStepQueued_sat [OF s True] handleChildCompleted_sat [OF s True] handleChildFailed_sat [OF True]
        handleWorkflowCancelled_sat [OF True] HandleGranted_sat [OF s True] approval_failed_sat [OF True]
        handleInputQueued_sat [OF s True] handleWaitElapsed_sat [OF s True])
next
  case False
  with watched show ?thesis
    unfolding routeEvent_def
    by (auto intro!: sat_intros handleStepCompleted_sat [OF s] handleStepContinue_sat [OF s] handleStepFailed_sat [OF s])
qed

lemma dispatchEvent_sat:
  assumes s: "starts E W r evt" and none: "wt_steps W = {}" and spawn: "ev_Type evt \<noteq> EventWorkflowSpawn"
  shows "sat (admits W) r (dispatchEvent spawn E r evt) (\<lambda>_ _. True)"
proof -
  let ?m = "routeEvent spawn E r evt"
  have m: "sat (admits W) r ?m (\<lambda>r' _. r' = stored r (fst ?m))"
    using routeEvent_sat [OF s disjI1 [OF none] spawn, of spawn] by (simp add: sat_def)
  show ?thesis
    unfolding dispatchEvent_def Let_def
    by (intro sat_if sat_panic handleWorkflowCancelled_sat [OF none] sat_bind [OF m])
      (auto intro!: sat_ret resendUnsent_sat [OF startsD(1) [OF s]] simp: mem_def none)
qed

end
