(* ===== verification/Dispatch_Rounds.thy ===== *)
theory Dispatch_Rounds
  imports Handlers_Contract
begin

text \<open>
  What \<open>enqueueReady\<close> promises (src/internal/engine/orchestrator.go): it sends tasks of ready steps only, and
  the calls it makes to itself, when a detached sub-workflow completes its step at dispatch, come to an end.
\<close>

section \<open>Values of handlers\<close>

text \<open>A contract that asks nothing.\<close>

definition idle :: watch where
  "idle = \<lparr>wt_def = zero_WorkflowDef, wt_ready = None, wt_steps = {}, wt_nonce = [], wt_iter = 0\<rparr>"

lemma idle_mem [simp]: "mem idle r r"
  by (simp add: mem_def idle_def)

lemma sat_value: "sat ok r m Q \<Longrightarrow> snd m = Ok a \<Longrightarrow> Q (stored r (fst m)) a"
  by (simp add: sat_def)

lemma saveSnapshot_value: "snd (saveSnapshot E run) = Ok run' \<Longrightarrow> saved run run'"
  using sat_value [OF saveSnapshot_savable [OF savable_self [OF idle_mem [of run]], of E]] by simp

lemma clearUnsent_status: "status_of (fst (clearUnsent nonces run)) sid = status_of run sid"
proof (induction nonces run rule: clearUnsent.induct)
  case (2 sid' nonce nonces run)
  have "step_of (wr_Steps run) sid' = state" if "map_of (wr_Steps run) sid' = Some state" for state
    using that by (simp add: mget_def)
  with 2 show ?case by (auto simp: run_simps split: option.split)
qed simp

lemma markSent_value: "snd (markSent E run sent) = Ok run' \<Longrightarrow> status_of run' sid = status_of run sid"
  using clearUnsent_status [of _ run sid]
  by (auto simp: markSent_def Let_def case_prod_beta saved_steps(1) dest!: saveSnapshot_value split: if_splits)

lemma run_plan_value: "snd (run_plan E run plan) = Ok run' \<Longrightarrow> status_of run' sid = status_of run sid"
  by (auto simp: run_plan_def snd_bind_Ok markSent_value split: prod.splits option.splits)

lemma planDispatch_value:
  assumes "planDispatch E D run ready empty_plan = (acts, Ok (run', plan))"
  shows "planned (set (step_ids ready)) run run'"
  using sat_value [OF planDispatch_sat [OF idle_mem plan_ok_empty [of _ _ ready] subset_refl, of run E D]] assms
  by (simp add: idle_def)

section \<open>The rounds of a dispatch\<close>

definition undispatched :: "WorkflowDef \<Rightarrow> WorkflowRun \<Rightarrow> string set" where
  "undispatched D run = {sid \<in> set (step_ids (wd_Steps D)). \<not> dispatched (status_of run sid)}"

lemma undispatched_bound: "card (undispatched D run) \<le> length (wd_Steps D)"
proof -
  have "card (undispatched D run) \<le> card (set (step_ids (wd_Steps D)))"
    by (rule card_mono) (auto simp: undispatched_def)
  also have "\<dots> \<le> length (wd_Steps D)" using card_length [of "step_ids (wd_Steps D)"] by simp
  finally show ?thesis .
qed

lemma resolveReadySteps_value:
  assumes "snd (resolveReadySteps E D run) = Ok (run', ready, finished)"
  shows "dispatched (status_of run sid) \<Longrightarrow> dispatched (status_of run' sid)"
    "step \<in> set ready \<Longrightarrow> sd_ID step \<in> undispatched D run'"
proof -
  let ?skipped = "ResolveSkipped D (completedSet run) (queuedSet run) (wr_Steps run)"
  let ?run = "fold (\<lambda>step. set_status StepStatusSkipped (sd_ID step)) ?skipped run"
  have run': "run' = ?run" using assms
    by (auto simp: resolveReadySteps_def Let_def snd_bind_Ok case_prod_beta split: if_splits)
  then show "dispatched (status_of run sid) \<Longrightarrow> dispatched (status_of run' sid)"
    by (simp add: fold_set_status)
  assume step: "step \<in> set ready"
  then have "step \<in> set (filter (\<lambda>step. status_of ?run (sd_ID step) \<noteq> StepStatusSkipped)
      (ResolveReady D (completedSet ?run) (queuedSet run)))"
    using assms cap_ready_subset
    by (fastforce simp: resolveReadySteps_def Let_def snd_bind_Ok case_prod_beta split: if_splits)
  then have "step \<in> set (wd_Steps D)" "\<not> dispatched (status_of run (sd_ID step))" "status_of run' (sd_ID step) \<noteq> StepStatusSkipped"
    by (simp_all only: set_filter mem_Collect_eq ResolveReady_iff bget_queuedSet run' simp_thms)
  then show "sd_ID step \<in> undispatched D run'"
    by (auto simp: undispatched_def run' fold_set_status split: if_splits)
qed

lemma round_dispatches:
  assumes r1: "snd (resolveReadySteps E D run) = Ok (run1, ready, finished)" and ne: "ready \<noteq> []"
    and r2: "planDispatch E D (fold (queue_step E) ready run1) ready empty_plan = (acts, Ok (run2, plan))"
    and r3: "snd (saveSnapshot E run2) = Ok run3" and r4: "snd (run_plan E run3 plan) = Ok run4"
  shows "card (undispatched D run4) < card (undispatched D run)"
proof -
  note p = planDispatch_value [OF r2]
  have kept: "dispatched (status_of run4 sid)" if "dispatched (status_of run1 sid) \<or> sid \<in> set (step_ids ready)" for sid
  proof -
    have "dispatched (status_of (fold (queue_step E) ready run1) sid)"
      using that queue_fold_ready [of sid ready E run1] queue_fold_other [of sid ready E run1]
      by (cases "sid \<in> set (step_ids ready)") auto
    then have "dispatched (status_of run2 sid)" using p by (simp add: planned_def)
    then show ?thesis
      using run_plan_value [OF r4] saved_steps(1) [OF saveSnapshot_value [OF r3]] by simp
  qed
  have "undispatched D run4 \<subseteq> undispatched D run"
    using kept resolveReadySteps_value(1) [OF r1] by (auto simp: undispatched_def)
  moreover from ne obtain step where step: "step \<in> set ready" by (cases ready) auto
  then have "sd_ID step \<in> undispatched D run" "sd_ID step \<notin> undispatched D run4"
    using resolveReadySteps_value [OF r1] kept by (auto simp: undispatched_def)
  ultimately have "undispatched D run4 \<subset> undispatched D run" by blast
  then show ?thesis by (rule psubset_card_mono [rotated]) (simp add: undispatched_def)
qed

lemma bind_cong: "(\<And>a. snd m = Ok a \<Longrightarrow> f a = g a) \<Longrightarrow> bind m f = bind m g"
  by (cases m; cases "snd m") auto

lemma enqueue_ready_more: "card (undispatched D run) < n \<Longrightarrow> enqueue_ready (n + k) E D run = enqueue_ready n E D run"
proof (induction n arbitrary: run)
  case (Suc n)
  have "card (undispatched D run4) < n"
    if "snd (resolveReadySteps E D run) = Ok (run1, ready, finished)" "ready \<noteq> []"
      "planDispatch E D (fold (queue_step E) ready run1) ready empty_plan = (acts, Ok (run2, plan))"
      "snd (saveSnapshot E run2) = Ok run3" "snd (run_plan E run3 plan) = Ok run4" for run1 ready finished acts run2 plan run3 run4
    using round_dispatches [OF that] Suc.prems by simp
  then show ?case
    unfolding add_Suc enqueue_ready.simps
    by (intro if_cong refl bind_cong) (auto intro!: bind_cong Suc.IH split: prod.split res.split)
qed simp


section \<open>What is sent\<close>

lemma allowed_at: "allowed ok r (before @ a # after) \<Longrightarrow> ok (stored r before) a"
  by simp

text \<open>C6: \<open>enqueueReady\<close> sends a task only for a step of the definition that is not a failure or compensation handler and whose
  dependencies are all resolved in the snapshot stored at that moment, or for an instance of such a map step; the
  snapshot then already records the dispatch the task carries.\<close>

theorem only_ready_steps_are_sent:
  assumes "(EffectiveDef d run :: (engine_error, WorkflowDef) res) = Ok D"
    "fst (enqueueReady E D run) = before @ PublishTask step input sent name nonce # after"
  shows "sent = stored run before \<and> recorded sent step nonce \<and>
    (\<exists>base \<in> set (wd_Steps D). \<not> bget (wd_AuxSteps D) (sd_ID base)
       \<and> (\<forall>dep \<in> set (sd_DependsOn base). resolved (status_of sent dep))
       \<and> (step = base \<or> (\<exists>i. sd_ID step = mapInstanceID (sd_ID base) i)))"
proof -
  define W where "W = \<lparr>wt_def = d, wt_ready = Some D, wt_steps = {}, wt_nonce = [], wt_iter = 0\<rparr>"
  have "sat (admits W) run (enqueueReady E D run) (\<lambda>_ _. True)"
    by (rule enqueueReady_sat [OF _ _ savable_self])
      (simp_all add: W_def fresh_def mem_def stands_loaded [OF assms(1)])
  then have "admits W (stored run before) (PublishTask step input sent name nonce)"
    using allowed_at [of "admits W" run before] assms(2) by (simp add: sat_def)
  then show ?thesis by (simp add: W_def ready_task_def)
qed

text \<open>A definition of two steps, the second of which waits for the first, an engine, and runs of the definition.\<close>

definition sample_step :: StepDef where
  "sample_step = zero_StepDef\<lparr>sd_ID := ''b'', sd_Task := ''u'', sd_DependsOn := [''a'']\<rparr>"

definition sample_def :: WorkflowDef where
  "sample_def = zero_WorkflowDef\<lparr>wd_Name := ''w'',
     wd_Steps := [zero_StepDef\<lparr>sd_ID := ''a'', sd_Task := ''t''\<rparr>, sample_step]\<rparr>"

definition sample_engine :: engine where
  "sample_engine = \<lparr>en_now = 1000, en_nonce = (\<lambda>sid. ''n2''), en_childID = (\<lambda>sid. ''c''), en_token = (\<lambda>sid. ''k''),
     en_defs = (\<lambda>key. Ok sample_def), en_hash = (\<lambda>d. ''h''), en_runs = (\<lambda>i. None), en_legacy = False,
     en_stateMax = 1000, en_saveFails = False, en_concurrency = False, en_releaseFails = False, en_correlator = True,
     en_approval = True, en_sticky = False, en_routes = (\<lambda>t. None), en_policy = None, en_queuedInputs = (\<lambda>sid. False),
     en_settles = (\<lambda>sid. False), en_stillQueued = (\<lambda>sid. False), en_float = (\<lambda>x. 0), en_zone = (\<lambda>z. None),
     en_rfc3339 = (\<lambda>s. None), en_bytes = (\<lambda>j. None), en_text = (\<lambda>r. ''text''), en_sleep_text = (\<lambda>e. ''sleep''),
     en_plan_text = (\<lambda>e. ''plan''), en_schema_text = (\<lambda>s e. ''schema''), en_duration_text = (\<lambda>d. ''d''),
     en_failureInput = (\<lambda>s e. RNil), en_compensateInput = (\<lambda>a b c d. RNil), en_plan = (\<lambda>r. None)\<rparr>"

definition sample_run :: "StepState \<Rightarrow> StepState \<Rightarrow> WorkflowRun" where
  "sample_run a b = zero_WorkflowRun\<lparr>wr_RunID := ''r'', wr_WorkflowID := ''w'', wr_Status := RunStatusRunning,
     wr_Steps := [(''a'', a), (''b'', b)]\<rparr>"

definition done_step :: StepState where
  "done_step = zero_StepState\<lparr>ss_Status := StepStatusCompleted\<rparr>"

text \<open>The kinds of the calls of a trace.\<close>

fun call_of :: "action \<Rightarrow> string" where
  "call_of (SaveRun r) = (if final r \<and> wr_Status r = RunStatusCompleted then ''completed'' else ''save'')"
| "call_of (PublishTask step input run name nonce) = ''task''"
| "call_of (PublishRunEvent r) = ''end''"
| "call_of (ReleaseAdmission r) = ''release''"
| "call_of (PublishEvent e) = ''event''"
| "call_of _ = ''other''"

lemma sample_EffectiveDef: "EffectiveDef sample_def (sample_run a b) = (Ok sample_def :: (engine_error, WorkflowDef) res)"
  by (simp add: EffectiveDef_Ok sample_def_def sample_run_def zero_WorkflowRun_def zero_WorkflowDef_def)

lemma sample_dispatch:
  "map call_of (fst (enqueueReady sample_engine sample_def (sample_run done_step zero_StepState))) = [''save'', ''event'', ''task'', ''save'']"
  by code_simp

lemma call_of_task: "call_of a = ''task'' \<Longrightarrow> \<exists>step input run name nonce. a = PublishTask step input run name nonce"
  by (cases a) (auto split: if_splits)

lemma nth_call:
  assumes "map call_of acts = cs" "i < length cs"
  obtains before a after where "acts = before @ a # after" "call_of a = cs ! i"
proof -
  have i: "i < length acts" using assms by auto
  have "call_of (acts ! i) = cs ! i" using assms i by auto
  with that [OF id_take_nth_drop [OF i]] show thesis .
qed

theorem only_ready_steps_are_sent_witness:
  "\<exists>before step input sent name nonce after.
     fst (enqueueReady sample_engine sample_def (sample_run done_step zero_StepState))
       = before @ PublishTask step input sent name nonce # after \<and>
     sent = stored (sample_run done_step zero_StepState) before \<and> recorded sent step nonce"
proof -
  obtain before a after where t: "fst (enqueueReady sample_engine sample_def (sample_run done_step zero_StepState)) = before @ a # after"
    and "call_of a = ''task''"
    using nth_call [OF sample_dispatch, of 2] by auto
  then obtain step input sent name nonce where "a = PublishTask step input sent name nonce" using call_of_task by blast
  then show ?thesis using only_ready_steps_are_sent [OF sample_EffectiveDef, of sample_engine] t by fastforce
qed

end
