(* ===== verification/Run_Histories.thy ===== *)
theory Run_Histories
  imports Dispatch_Rounds
begin

text \<open>
  What the orchestrator promises of a run, over single events and over the whole life of the run. A life is a
  sequence of events, each handled from the snapshot then stored by an engine with its own clock, nonces and
  configuration; after each event any prefix of the calls may have been made, so crashes, redeliveries and the
  takeover by another engine are covered. An engine whose save is refused because a rival wrote the run is not.
\<close>

section \<open>Traces and the stored snapshot\<close>

lemma admits_next: "admits W r a \<Longrightarrow> next_run r a = r \<or> (mem W r (next_run r a) \<and> keeps r (next_run r a))"
  by (cases a) (auto simp: next_run_def admits_def)

lemma keeps_trans: "keeps a b \<Longrightarrow> ext a b \<Longrightarrow> keeps b c \<Longrightarrow> keeps a c"
  by (auto simp: keeps_def ext_def)

lemma allowed_stored:
  assumes "allowed (admits W) r acts"
  shows "ext r (stored r acts)" "keeps r (stored r acts)"
    "stored r acts = r \<or> (\<forall>sid \<in> wt_steps W. stale W (step_of (wr_Steps (stored r acts)) sid))"
proof -
  have "ext r (stored r acts) \<and> keeps r (stored r acts) \<and>
      (stored r acts = r \<or> (\<forall>sid \<in> wt_steps W. stale W (step_of (wr_Steps (stored r acts)) sid)))"
    using assms
  proof (induction acts rule: rev_induct)
    case (snoc a acts)
    let ?s = "stored r acts"
    have IH: "ext r ?s" "keeps r ?s" using snoc by simp_all
    from snoc.prems have "admits W ?s a" by simp
    then show ?case using admits_next [of W ?s a] snoc memD ext_trans [OF IH(1)] keeps_trans [OF IH(2,1)] by auto
  qed simp
  then show "ext r (stored r acts)" "keeps r (stored r acts)"
    "stored r acts = r \<or> (\<forall>sid \<in> wt_steps W. stale W (step_of (wr_Steps (stored r acts)) sid))" by auto
qed

text \<open>The contract of the handling of one event.\<close>

definition watching :: "WorkflowDef \<Rightarrow> watch" where
  "watching d = \<lparr>wt_def = d, wt_ready = None, wt_steps = {}, wt_nonce = [], wt_iter = 0\<rparr>"

lemma watching_simps [simp]: "wt_def (watching d) = d" "wt_ready (watching d) = None" "wt_steps (watching d) = {}"
  by (simp_all add: watching_def)

lemma dispatch_contract:
  assumes "clean r" "\<not> en_saveFails E" "ev_Type evt \<noteq> EventWorkflowSpawn"
    "\<And>d'. snd (loadPinnedOrLatestDef E r) = Ok d' \<Longrightarrow> d' = d"
  shows "allowed (admits (watching d)) r (fst (dispatchEvent spawn E r evt))"
proof -
  have "starts E (watching d) r evt" using assms by (simp add: starts_def plain_def fresh_def)
  from dispatchEvent_sat [OF this _ assms(3)] show ?thesis by (simp add: sat_def)
qed

lemma some_def: "\<exists>d. \<forall>d'. snd (loadPinnedOrLatestDef E r) = Ok d' \<longrightarrow> d' = d"
  by (cases "snd (loadPinnedOrLatestDef E r)") auto

lemma dispatch_at:
  assumes "clean r" "\<not> en_saveFails E" "ev_Type evt \<noteq> EventWorkflowSpawn"
    "fst (dispatchEvent spawn E r evt) = before @ a # after"
  obtains d where "admits (watching d) (stored r before) a"
proof -
  obtain d where "\<forall>d'. snd (loadPinnedOrLatestDef E r) = Ok d' \<longrightarrow> d' = d" using some_def by blast
  then have "allowed (admits (watching d)) r (before @ a # after)"
    using dispatch_contract [OF assms(1-3), of d spawn] assms(4) by simp
  from allowed_at [OF this] show thesis by (rule that)
qed

section \<open>Single events\<close>

text \<open>A sample event of a step.\<close>

definition sample_event :: "EventType \<Rightarrow> string \<Rightarrow> Event" where
  "sample_event t sid = new_event 1000 t ''r'' sid (RJson JNull)"

lemma sample_clean [simp]: "clean (sample_run a b)" "\<not> en_saveFails sample_engine" "ev_Type (sample_event t sid) = t"
  by (simp_all add: clean_def sample_run_def zero_WorkflowRun_def sample_engine_def sample_event_def new_event_def)

lemma sample_start:
  "map call_of (fst (dispatchEvent (ret ()) sample_engine (sample_run done_step zero_StepState)
     (sample_event EventWorkflowStarted []))) = [''save'', ''event'', ''task'', ''save'']"
  by code_simp

lemma sample_end:
  "map call_of (fst (dispatchEvent (ret ()) sample_engine
      (sample_run done_step (zero_StepState\<lparr>ss_Status := StepStatusRunning\<rparr>)) (sample_event EventApprovalGranted ''b'')))
     = [''completed'', ''other'', ''release'', ''other'', ''event'', ''end'']"
  by code_simp

text \<open>What a call says of a dispatch is what the snapshot says of it.\<close>

fun as_stored :: "WorkflowRun \<Rightarrow> action \<Rightarrow> bool" where
  "as_stored r (PublishTask step input run workflow nonce) = (run = r \<and> recorded r step nonce)"
| "as_stored r (PublishLoopTask step input attempt iteration workflow nonce loopState) =
     (attempt = ss_Attempts (step_of (wr_Steps r) (sd_ID step)) \<and> iteration = ss_Iterations (step_of (wr_Steps r) (sd_ID step)) \<and>
      nonce = ss_DispatchNonce (step_of (wr_Steps r) (sd_ID step)) \<and> loopState = ss_LoopState (step_of (wr_Steps r) (sd_ID step)))"
| "as_stored r (ScheduleTimer tm) =
     (tm_RunID tm = wr_RunID r \<and>
      (tm_DispatchNonce tm = [] \<or>
         tm_DispatchNonce tm = ss_DispatchNonce (step_of (wr_Steps r) (tm_StepID tm)) \<and>
         tm_Attempt tm = ss_Attempts (step_of (wr_Steps r) (tm_StepID tm))))"
| "as_stored r a = True"





text \<open>C4: A run is stored as completed only when it is: the handling of an event that gives an open run its end with status
  completed has loaded the run's definition, and in the snapshot it stores every step of that definition and of the
  plans of the run is resolved, failure and compensation handlers aside.\<close>

theorem completed_runs_are_complete:
  assumes "clean r" "\<not> en_saveFails E" "ev_Type evt \<noteq> EventWorkflowSpawn"
    "fst (dispatchEvent spawn E r evt) = before @ SaveRun r' # after"
    "\<not> final (stored r before)" "final r'" "wr_Status r' = RunStatusCompleted"
  shows "\<exists>d D. snd (loadPinnedOrLatestDef E r) = Ok d \<and> EffectiveDef d r' = (Ok D :: (engine_error, WorkflowDef) res)
    \<and> (\<forall>step \<in> set (wd_Steps D). bget (wd_AuxSteps D) (sd_ID step) \<or> resolved (status_of r' (sd_ID step)))"
proof -
  have saved: "complete_run d r'" if "\<And>d'. snd (loadPinnedOrLatestDef E r) = Ok d' \<Longrightarrow> d' = d" for d
  proof -
    have "allowed (admits (watching d)) r (before @ SaveRun r' # after)"
      using dispatch_contract [OF assms(1-3) that, of spawn] assms(4) by simp
    from allowed_at [OF this] show ?thesis using assms(5-7) by (simp add: admits_def)
  qed
  obtain d where d: "snd (loadPinnedOrLatestDef E r) = Ok d"
  proof (cases "snd (loadPinnedOrLatestDef E r)")
    case (Ok d)
    then show thesis by (rule that)
  qed (use saved [of zero_WorkflowDef] in \<open>auto simp: complete_run_def EffectiveDef_Ok zero_WorkflowDef_def\<close>)
  have "complete_run d r'" using d by (intro saved) simp
  then show ?thesis using d by (auto simp: complete_run_def IsComplete_iff run_simps)
qed

theorem completed_runs_are_complete_witness:
  "\<exists>r before r' after.
     fst (dispatchEvent (ret ()) sample_engine r (sample_event EventApprovalGranted ''b'')) = before @ SaveRun r' # after \<and>
     wr_Status r' = RunStatusCompleted \<and> \<not> final r \<and>
     (\<exists>d D. snd (loadPinnedOrLatestDef sample_engine r) = Ok d \<and> EffectiveDef d r' = (Ok D :: (engine_error, WorkflowDef) res))"
proof -
  let ?r = "sample_run done_step (zero_StepState\<lparr>ss_Status := StepStatusRunning\<rparr>)"
  let ?trace = "fst (dispatchEvent (ret ()) sample_engine ?r (sample_event EventApprovalGranted ''b''))"
  have open_run: "\<not> final ?r" by (simp add: final_def sample_run_def)
  have c: "map call_of ?trace = ''completed'' # [''other'', ''release'', ''other'', ''event'', ''end'']" by (rule sample_end)
  then obtain a after where t: "?trace = [] @ a # after" and "call_of a = ''completed''" by (cases ?trace) auto
  then obtain r' where a: "a = SaveRun r'" and "final r'" "wr_Status r' = RunStatusCompleted"
    by (cases a) (auto split: if_splits)
  then show ?thesis
    using completed_runs_are_complete [OF _ _ _ t [unfolded a]] t open_run by fastforce
qed

section \<open>Lives of a run\<close>

text \<open>An engine handles an event of the run and stops after any of its calls.\<close>

inductive handles :: "WorkflowRun \<Rightarrow> WorkflowRun \<Rightarrow> bool" where
  event: "\<not> en_saveFails E \<Longrightarrow> ev_Type evt \<noteq> EventWorkflowSpawn \<Longrightarrow>
     fst (dispatchEvent spawn E r evt) = acts @ rest \<Longrightarrow> handles r (stored r acts)"

inductive_cases handlesE: "handles r r'"

abbreviation life :: "WorkflowRun \<Rightarrow> WorkflowRun \<Rightarrow> bool" where
  "life \<equiv> handles\<^sup>*\<^sup>*"

lemma handles_keeps:
  assumes "handles r r'" "clean r" shows "ext r r'" "keeps r r'"
proof -
  from assms(1) obtain E evt spawn acts rest where r': "r' = stored r acts" and c: "\<not> en_saveFails E" "ev_Type evt \<noteq> EventWorkflowSpawn"
    and t: "fst (dispatchEvent spawn E r evt) = acts @ rest" by (rule handlesE)
  obtain d where d: "\<forall>d'. snd (loadPinnedOrLatestDef E r) = Ok d' \<longrightarrow> d' = d" using some_def by blast
  have "allowed (admits (watching d)) r acts" using dispatch_contract [OF assms(2) c, of d spawn] d t by simp
  from allowed_stored [OF this] show "ext r r'" "keeps r r'" by (simp_all add: r')
qed

lemma life_keeps:
  assumes "life r r'" "clean r" shows "ext r r' \<and> keeps r r'"
  using assms(1)
proof (induction rule: rtranclp_induct)
  case (step a b)
  then have "clean a" using assms(2) by (simp add: ext_def)
  from handles_keeps [OF step(2) this] step show ?case using ext_trans keeps_trans by blast
qed simp

text \<open>C1: The first end wins. Once a run is stored with a terminal status and an end time, no sequence of events, crashes,
  redeliveries and takeovers changes the status or the end time of the stored snapshot.\<close>

theorem first_end_wins:
  assumes "clean r" "life r r'" "final r"
  shows "wr_Status r' = wr_Status r \<and> wr_CompletedAt r' = wr_CompletedAt r"
  using life_keeps [OF assms(2,1)] assms(3) by (simp add: keeps_def)

definition ended_run :: WorkflowRun where
  "ended_run = (sample_run done_step zero_StepState)\<lparr>wr_Status := RunStatusFailed, wr_CompletedAt := Some 900\<rparr>"

lemma ended_life: "life ended_run (stored ended_run (fst (dispatchEvent (ret ()) sample_engine ended_run (sample_event t sid))))"
  if "t \<noteq> EventWorkflowSpawn"
  by (rule r_into_rtranclp, rule event [where rest = "[]"]) (use that in simp_all)

theorem first_end_wins_witness:
  "\<exists>r'. life ended_run r' \<and> r' = stored ended_run (fst (dispatchEvent (ret ()) sample_engine ended_run (sample_event EventApprovalGranted ''b'')))
     \<and> wr_Status r' = RunStatusFailed \<and> wr_CompletedAt r' = Some 900"
  using first_end_wins [OF _ ended_life [of EventApprovalGranted "''b''"]] ended_life [of EventApprovalGranted "''b''"]
  by (simp add: ended_run_def clean_def final_def)



section \<open>Redelivery\<close>

lemma stale_rejected:
  assumes "stale W (step_of (wr_Steps run) (ev_StepID evt))" "wt_nonce W = ev_DispatchNonce evt" "ev_Iteration evt = Some (wt_iter W)"
    "HasIdentity evt" "ev_DispatchNonce evt \<noteq> []" "wr_RunID run = ev_RunID evt" "ev_StepID evt \<noteq> []" "fencedEventType (ev_Type evt)"
  shows "fenceStepEvent legacy run evt = Ok (run, False)"
  using assms by (auto simp: fenceStepEvent_def acceptStepEvent_def stale_def Let_def)


definition worker_event :: Event where
  "worker_event = (sample_event EventStepCompleted ''a'')\<lparr>ev_Iteration := Some 0, ev_AttemptNumber := 1, ev_DispatchNonce := ''n1''\<rparr>"


end
