(* ===== verification/Engine_Faults.thy ===== *)
theory Engine_Faults
  imports Run_Histories
begin

text \<open>
  Where the orchestrator does not do what its comments promise: the order of a compensation, compensation after a
  refused save, map steps over an empty list, and successors dispatched in a run that has ended.
\<close>

section \<open>Compensation\<close>

text \<open>Three steps with a compensation each, and a fourth one.\<close>

definition saga_step :: "string \<Rightarrow> string \<Rightarrow> string list \<Rightarrow> StepDef" where
  "saga_step sid undo deps = zero_StepDef\<lparr>sd_ID := sid, sd_Task := ''t'', sd_Compensate := undo, sd_DependsOn := deps\<rparr>"

definition saga_def :: WorkflowDef where
  "saga_def = zero_WorkflowDef\<lparr>wd_Name := ''w'',
     wd_Steps := [saga_step ''a'' ''ua'' [], saga_step ''b'' ''ub'' [''a''], saga_step ''c'' ''uc'' [''b''], saga_step ''d'' [] [''c''],
       saga_step ''ua'' [] [], saga_step ''ub'' [] [], saga_step ''uc'' [] []],
     wd_AuxSteps := [(''ua'', True), (''ub'', True), (''uc'', True)]\<rparr>"

text \<open>The first three steps are done, the fourth has failed.\<close>

definition saga_run :: WorkflowRun where
  "saga_run = zero_WorkflowRun\<lparr>wr_RunID := ''r'', wr_WorkflowID := ''w'', wr_Status := RunStatusRunning,
     wr_Steps := [(''a'', done_step), (''b'', done_step), (''c'', done_step),
       (''d'', zero_StepState\<lparr>ss_Status := StepStatusFailed\<rparr>), (''ua'', zero_StepState), (''ub'', zero_StepState), (''uc'', zero_StepState)]\<rparr>"

definition sent_steps :: "action list \<Rightarrow> string list" where
  "sent_steps acts = concat (map (\<lambda>a. case a of PublishTask step input run name nonce \<Rightarrow> [sd_ID step] | _ \<Rightarrow> []) acts)"

definition saga_started :: WorkflowRun where
  "saga_started = stored saga_run (fst (StartCompensation sample_engine saga_def saga_run ''d'' ''e''))"


text \<open>C38: When the store refuses the save that records the next compensation, because another engine wrote the run, the
  compensation task is sent all the same: the only call made is the task, and it carries a dispatch nonce no snapshot
  has.\<close>

theorem refused_save_still_compensates:
  assumes "en_saveFails E" "bget (wd_AuxSteps D) stepID" "findCompensateSource D stepID \<noteq> []"
    "find (\<lambda>step. sd_Compensate step \<noteq> [] \<and> status_of run (sd_Compensate step) = StepStatusQueued) (wd_Steps D) = Some step"
    "sd_ID (step_def D (sd_Compensate step)) \<noteq> []" "wr_RunID run \<noteq> []"
    "en_nonce E (sd_Compensate step) \<noteq> ss_DispatchNonce (step_of (wr_Steps run) (sd_Compensate step))"
  shows "\<exists>input run'. fst (HandleCompensateCompleted E D run stepID) =
       [PublishTask (step_def D (sd_Compensate step)) input run' (wr_WorkflowID run) (en_nonce E (sd_Compensate step))]
     \<and> stored run (fst (HandleCompensateCompleted E D run stepID)) = run
     \<and> ss_DispatchNonce (step_of (wr_Steps run) (sd_Compensate step)) \<noteq> en_nonce E (sd_Compensate step)"
  using assms
  by (auto simp: HandleCompensateCompleted_def Let_def saveSnapshot_def raise_def publish_task_def guard_def panic_if_def run_simps
      emit_def ret_def split: prod.split option.split)

definition failing_engine :: engine where
  "failing_engine = sample_engine\<lparr>en_saveFails := True, en_nonce := (\<lambda>sid. ''n3'')\<rparr>"

lemma saga_facts:
  "find (\<lambda>step. sd_Compensate step \<noteq> [] \<and> status_of (set_status StepStatusCompleted ''uc'' saga_started) (sd_Compensate step) = StepStatusQueued)
     (wd_Steps saga_def) = Some (saga_step ''a'' ''ua'' [])"
  "ss_DispatchNonce (step_of (wr_Steps (set_status StepStatusCompleted ''uc'' saga_started)) ''ua'') = ''n2''"
  "wr_RunID (set_status StepStatusCompleted ''uc'' saga_started) = ''r''"
  "step_def saga_def ''ua'' = saga_step ''ua'' [] []" "findCompensateSource saga_def ''uc'' = ''c''"
  "bget (wd_AuxSteps saga_def) ''uc''"
  by code_simp+

theorem refused_save_still_compensates_witness:
  "\<exists>input run'. fst (HandleCompensateCompleted failing_engine saga_def (set_status StepStatusCompleted ''uc'' saga_started) ''uc'') =
       [PublishTask (saga_step ''ua'' [] []) input run' (wr_WorkflowID (set_status StepStatusCompleted ''uc'' saga_started)) ''n3'']"
  using refused_save_still_compensates [of failing_engine saga_def "''uc''" "set_status StepStatusCompleted ''uc'' saga_started"
      "saga_step ''a'' ''ua'' []"]
  by (simp add: saga_facts failing_engine_def saga_step_def)

section \<open>Map steps\<close>

text \<open>C39: A map step over an empty list is planned as running, with no instance and nothing to send, so it waits for
  instances that do not exist.\<close>

theorem empty_map_step_waits_for_nothing:
  assumes "sd_Type step = StepTypeMap" "sd_DependsOn step = [dep]" "unmarshal_items (ss_Output (step_of (wr_Steps run) dep)) = Some []"
    "ParseMapConfig step = Ok cfg" "0 \<le> mc_MaxItems cfg"
  shows "\<exists>run' eff. planMapStep E D run step = ([], Ok (run', eff)) \<and> status_of run' (sd_ID step) = StepStatusRunning
     \<and> ss_MapInstances (step_of (wr_Steps run') (sd_ID step)) = [] \<and> (\<forall>r. eff r = ([], Ok ()))"
  using assms by (auto simp: planMapStep_def validateAndInitMapInstances_def Let_def ret_def run_simps)

definition map_step :: StepDef where
  "map_step = zero_StepDef\<lparr>sd_ID := ''m'', sd_Type := StepTypeMap, sd_Task := ''t'', sd_DependsOn := [''a''],
     sd_Config := RJson (JObj [(''max_items'', JInt 10)])\<rparr>"

lemma map_step_config: "case (ParseMapConfig map_step :: (config_error, MapConfig) res) of Ok cfg \<Rightarrow> mc_MaxItems cfg = 10 | _ \<Rightarrow> False"
  by code_simp

definition empty_list_run :: WorkflowRun where
  "empty_list_run = sample_run (done_step\<lparr>ss_Output := RJson (JArr [])\<rparr>) zero_StepState"

theorem empty_map_step_waits_for_nothing_witness:
  "\<exists>run' eff. planMapStep sample_engine sample_def empty_list_run map_step = ([], Ok (run', eff))
     \<and> status_of run' ''m'' = StepStatusRunning \<and> (\<forall>r. eff r = ([], Ok ()))"
proof -
  obtain cfg where cfg: "ParseMapConfig map_step = (Ok cfg :: (config_error, MapConfig) res)" "mc_MaxItems cfg = 10"
    using map_step_config by (cases "ParseMapConfig map_step :: (config_error, MapConfig) res") auto
  have step: "sd_Type map_step = StepTypeMap" "sd_DependsOn map_step = [''a'']" "sd_ID map_step = ''m''"
    by (simp_all add: map_step_def)
  have "unmarshal_items (ss_Output (step_of (wr_Steps empty_list_run) ''a'')) = Some []"
    by (simp add: empty_list_run_def sample_run_def map_simps unmarshal_items_def)
  from empty_map_step_waits_for_nothing [OF step(1,2) this cfg(1), of sample_engine sample_def] cfg(2) show ?thesis unfolding step(3) by auto
qed

section \<open>Runs that have ended\<close>


end
