(* ===== verification/Lease.thy ===== *)
theory Lease
  imports Dag_Config
begin

text \<open>
  TTL leases with revision fencing (src/internal/lease). The stream behind the leases bucket is not part of the
  sources: it is an argument, its documented behaviour (a publication may name the sequence it expects its subject to
  be at) is the locale \<open>cas_stream\<close>. What rival clients and the expiry of a lease do to the stream between two calls of
  an operation is an argument too. Shown: a granted lease is the stored one, and once a key has been granted to somebody
  else the fence of the earlier holder is refused for ever.
\<close>

section \<open>The stream\<close>

datatype stream_error = WrongLastSequence | MessageNotFound | StreamNotFound | StreamUnavailable string

record stored_msg =
  sm_KVOperation :: string
  sm_MarkerReason :: string
  sm_Event :: string
  sm_Data :: raw
  sm_TTL :: duration

text \<open>The last message of a subject with its sequence and the time it was stored, and a publication with the sequence
  it expects.\<close>

record 's stream =
  sr_Last :: "'s \<Rightarrow> string \<Rightarrow> (stream_error, stored_msg \<times> nat \<times> gotime) res"
  sr_Publish :: "'s \<Rightarrow> string \<Rightarrow> stored_msg \<Rightarrow> nat \<Rightarrow> 's \<times> (stream_error, nat) res"

definition revision_of :: "(stored_msg \<times> nat) option \<Rightarrow> nat" where
  "revision_of e = (case e of None \<Rightarrow> 0 | Some (m, n) \<Rightarrow> n)"

locale cas_stream =
  fixes st :: "'s stream"
    and last_msg :: "'s \<Rightarrow> string \<Rightarrow> (stored_msg \<times> nat) option"
    and last_seq :: "'s \<Rightarrow> nat"
  assumes msg_seq: "last_msg s k = Some (m, n) \<Longrightarrow> 0 < n \<and> n \<le> last_seq s"
    and last_Ok: "sr_Last st s k = Ok (m, n, t) \<Longrightarrow> last_msg s k = Some (m, n)"
    and last_missing: "sr_Last st s k = Err MessageNotFound \<Longrightarrow> last_msg s k = None"
    and last_safe: "safe (sr_Last st s k)"
    and publish_safe: "safe (snd (sr_Publish st s k m expect))"
    and publish_cases: "sr_Publish st s k m expect = (s', r) \<Longrightarrow>
          last_msg s' = last_msg s \<and> last_seq s \<le> last_seq s' \<and> \<not> is_ok r
        \<or> revision_of (last_msg s k) = expect \<and> last_seq s < last_seq s' \<and> last_msg s' = (last_msg s)(k \<mapsto> (m, last_seq s'))
            \<and> (is_ok r \<longrightarrow> r = Ok (last_seq s'))"
    and publish_refused: "sr_Publish st s k m expect = (s', Err WrongLastSequence) \<Longrightarrow>
          last_msg s' = last_msg s \<and> revision_of (last_msg s k) \<noteq> expect"
begin

text \<open>The stream moves on: the last message of a subject was its last message before, or is newer than anything
  before. Messages expire and markers take their place.\<close>

definition later :: "'s \<Rightarrow> 's \<Rightarrow> bool" where
  "later s s' \<longleftrightarrow> last_seq s \<le> last_seq s' \<and>
     (\<forall>k m n. last_msg s' k = Some (m, n) \<longrightarrow> last_msg s k = Some (m, n) \<or> last_seq s < n)"

lemma later_refl [intro]: "later s s"
  by (simp add: later_def)

lemma later_trans [trans]: "later s s' \<Longrightarrow> later s' s'' \<Longrightarrow> later s s''"
  unfolding later_def by (metis le_trans le_less_trans)

lemma publish_later: "sr_Publish st s k m expect = (s', r) \<Longrightarrow> later s s'"
  by (auto dest!: publish_cases simp: later_def split: if_splits)

text \<open>An accepted publication is the last message of its subject, above everything before, and its subject was at the
  expected sequence.\<close>

lemma publish_Ok:
  assumes "sr_Publish st s k m expect = (s', Ok n)"
  shows "revision_of (last_msg s k) = expect \<and> last_msg s' k = Some (m, n) \<and> last_seq s < n \<and> n = last_seq s'"
  using publish_cases [OF assms] by auto

text \<open>A sequence below the one a subject has reached is never that subject's sequence again.\<close>

lemma passed:
  assumes "last_msg s k = Some (m, n)" "later s s'" "old < n" "0 < old"
  shows "revision_of (last_msg s' k) \<noteq> old"
proof -
  have "n \<le> last_seq s" using msg_seq [OF assms(1)] by simp
  then show ?thesis using assms
    by (fastforce simp: revision_of_def later_def split: option.splits)
qed

lemma passed_publish:
  assumes "revision_of (last_msg s k) \<noteq> old" "sr_Publish st s k m old = (s', r)"
  shows "last_msg s' = last_msg s \<and> \<not> is_ok r"
  using publish_cases [OF assms(2)] assms(1) by auto

end

text \<open>An in-memory stream keeps the contract.\<close>

type_synonym mem_stream = "(string \<times> stored_msg \<times> nat) list \<times> nat"

definition mem_msg :: "mem_stream \<Rightarrow> string \<Rightarrow> (stored_msg \<times> nat) option" where
  "mem_msg s = map_of (filter (\<lambda>(k, m, n). 0 < n \<and> n \<le> snd s) (fst s))"

definition mem_stream_ops :: "mem_stream stream" where
  "mem_stream_ops = \<lparr>
     sr_Last = (\<lambda>s k. case mem_msg s k of None \<Rightarrow> Err MessageNotFound | Some (m, n) \<Rightarrow> Ok (m, n, 0)),
     sr_Publish = (\<lambda>s k m expect.
       if revision_of (mem_msg s k) \<noteq> expect then (s, Err WrongLastSequence)
       else (((k, m, Suc (snd s)) # filter (\<lambda>(k, m, n). 0 < n \<and> n \<le> snd s) (fst s), Suc (snd s)), Ok (Suc (snd s))))\<rparr>"

lemma mem_msg_publish:
  "mem_msg ((k, m, Suc n) # filter (\<lambda>(k, m, i). 0 < i \<and> i \<le> n) l, Suc n) = (mem_msg (l, n))(k \<mapsto> (m, Suc n))"
proof -
  have "filter (\<lambda>(k, m, i). 0 < i \<and> i \<le> Suc n) (filter (\<lambda>(k, m, i). 0 < i \<and> i \<le> n) l)
      = filter (\<lambda>(k, m, i). 0 < i \<and> i \<le> n) l"
    by (auto simp: filter_filter intro!: filter_cong)
  then show ?thesis by (simp add: mem_msg_def)
qed

interpretation ms: cas_stream mem_stream_ops mem_msg snd
proof (unfold_locales, goal_cases)
  case (1 s k m n) then show ?case by (auto simp: mem_msg_def dest!: map_of_SomeD)
next
  case (6 s k m expect s' r) then show ?case
    by (cases s) (auto simp: mem_stream_ops_def mem_msg_publish split: if_splits)
qed (auto simp: mem_stream_ops_def split: option.splits if_splits)

section \<open>Leases\<close>

definition KeyLengthMax :: nat where "KeyLengthMax = 128"
definition HolderLengthMax :: nat where "HolderLengthMax = 128"
definition TTLMin :: duration where "TTLMin = Second"
definition TTLMax :: duration where "TTLMax = 600 * Second"
definition acquireAttemptsMax :: nat where "acquireAttemptsMax = 3"

datatype lease_error =
    ErrInvalid string
  | ErrLost string
  | ErrUnsupported
  | Contention string
  | CorruptRecord nat
  | StreamFailed stream_error
  | ErrNoOwner string
  | ErrOwnerUnavailable string string nat
  | ErrOwnerTimeout string string
  | ForwardFailed string string string
  | OwnerRefused

record Lease =
  le_Key :: string
  le_Holder :: string
  le_Revision :: nat
  le_AcquiredAt :: gotime
  le_ExpiresAt :: gotime
  le_TTL :: duration

definition zero_Lease :: Lease where
  "zero_Lease = \<lparr>le_Key = [], le_Holder = [], le_Revision = 0, le_AcquiredAt = 0, le_ExpiresAt = 0, le_TTL = 0\<rparr>"

record lease_record =
  lr_Holder :: string
  lr_AcquiredAt :: gotime
  lr_TTLMs :: int

record current =
  cu_lease :: Lease
  cu_live :: bool
  cu_revision :: nat

definition token_char :: "char \<Rightarrow> bool" where
  "token_char c = (c \<in> set ''abcdefghijklmnopqrstuvwxyzABCDEFGHIJKLMNOPQRSTUVWXYZ0123456789_-'')"

definition validateToken :: "string \<Rightarrow> string \<Rightarrow> nat \<Rightarrow> lease_error checked" where
  "validateToken field s lengthMax =
     (if field = [] then Panic ''validateToken: field must not be empty''
      else if lengthMax = 0 then Panic ''validateToken: lengthMax must be positive''
      else if s = [] then Err (ErrInvalid field)
      else if length s > lengthMax then Err (ErrInvalid field)
      else if \<not> list_all token_char s then Err (ErrInvalid field)
      else Ok ())"

definition validateTTL :: "duration \<Rightarrow> lease_error checked" where
  "validateTTL ttl =
     (if ttl < TTLMin \<or> ttl > TTLMax then Err (ErrInvalid ''ttl_ms'')
      else if ttl mod Second \<noteq> 0 then Err (ErrInvalid ''ttl_ms'')
      else Ok ())"

definition validateFence :: "string \<Rightarrow> string \<Rightarrow> nat \<Rightarrow> lease_error checked" where
  "validateFence key holder revision =
     and_then (validateToken ''key'' key KeyLengthMax) (\<lambda>_.
     and_then (validateToken ''holder'' holder HolderLengthMax) (\<lambda>_.
       if revision = 0 then Err (ErrInvalid ''revision'') else Ok ()))"

section \<open>Storage\<close>

text \<open>\<open>timeText\<close> renders an instant as JSON has it, \<open>parseTime\<close> reads it.\<close>

definition enc_record :: "(gotime \<Rightarrow> string) \<Rightarrow> lease_record \<Rightarrow> raw" where
  "enc_record timeText rec = RJson (JObj [(''holder'', JStr (lr_Holder rec)), (''acquired_at'', JStr (timeText (lr_AcquiredAt rec))),
     (''ttl_ms'', JInt (lr_TTLMs rec))])"

definition dec_instant :: "(string \<Rightarrow> gotime option) \<Rightarrow> gotime decoder" where
  "dec_instant parseTime old j = (case j of JNull \<Rightarrow> Some old | JStr s \<Rightarrow> parseTime s | _ \<Rightarrow> None)"

definition dec_record :: "(string \<Rightarrow> gotime option) \<Rightarrow> (string \<times> json) list \<Rightarrow> lease_record option" where
  "dec_record parseTime kvs =
     Option.bind (dec_field ''holder'' dec_str [] kvs) (\<lambda>h.
     Option.bind (dec_field ''acquired_at'' (dec_instant parseTime) 0 kvs) (\<lambda>t.
     Option.bind (dec_field ''ttl_ms'' dec_int 0 kvs) (\<lambda>ms.
       Some \<lparr>lr_Holder = h, lr_AcquiredAt = t, lr_TTLMs = ms\<rparr>)))"

definition getLast :: "'s stream \<Rightarrow> 's \<Rightarrow> string \<Rightarrow> (lease_error, (stored_msg \<times> nat \<times> gotime) option) res" where
  "getLast st s key =
     (if key = [] then Panic ''getLast: key must not be empty''
      else
        (case sr_Last st s key of
           Ok m \<Rightarrow> Ok (Some m)
         | Err MessageNotFound \<Rightarrow> Ok None
         | Err StreamNotFound \<Rightarrow> Err ErrUnsupported
         | Err e \<Rightarrow> Err (StreamFailed e)
         | Panic p \<Rightarrow> Panic p))"

definition read :: "'s stream \<Rightarrow> (string \<Rightarrow> gotime option) \<Rightarrow> 's \<Rightarrow> string \<Rightarrow> (lease_error, current) res" where
  "read st parseTime s key =
     and_then (getLast st s key) (\<lambda>found.
       (case found of
          None \<Rightarrow> Ok \<lparr>cu_lease = zero_Lease, cu_live = False, cu_revision = 0\<rparr>
        | Some (m, n, t) \<Rightarrow>
            if sm_KVOperation m \<noteq> [] \<or> sm_MarkerReason m \<noteq> []
            then Ok \<lparr>cu_lease = zero_Lease, cu_live = False, cu_revision = n\<rparr>
            else
              (case unmarshal_struct (dec_record parseTime) (sm_Data m) of
                 None \<Rightarrow> Err (CorruptRecord n)
               | Some rec \<Rightarrow>
                   let ttl = wrap64 (lr_TTLMs rec * Millisecond)
                   in Ok \<lparr>cu_lease = \<lparr>le_Key = key, le_Holder = lr_Holder rec, le_Revision = n,
                            le_AcquiredAt = lr_AcquiredAt rec, le_ExpiresAt = t + ttl, le_TTL = ttl\<rparr>,
                          cu_live = True, cu_revision = n\<rparr>)))"

definition write_record :: "'s stream \<Rightarrow> (gotime \<Rightarrow> string) \<Rightarrow> 's \<Rightarrow> string \<Rightarrow> lease_record \<Rightarrow> string \<Rightarrow> nat \<Rightarrow> 's \<times> (lease_error, nat) res" where
  "write_record st timeText s key rec event expect =
     (if event \<noteq> ''acquired'' \<and> event \<noteq> ''renewed'' then (s, Panic ''write: event must be acquired or renewed'')
      else if lr_TTLMs rec < 1000 then (s, Panic ''write: record TTL must be validated before write'')
      else
        let (s, r) = sr_Publish st s key \<lparr>sm_KVOperation = [], sm_MarkerReason = [], sm_Event = event,
              sm_Data = enc_record timeText rec, sm_TTL = wrap64 (lr_TTLMs rec * Millisecond)\<rparr> expect
        in (s, map_err StreamFailed r))"

definition create :: "'s stream \<Rightarrow> (gotime \<Rightarrow> string) \<Rightarrow> gotime \<Rightarrow> 's \<Rightarrow> string \<Rightarrow> string \<Rightarrow> duration \<Rightarrow> nat \<Rightarrow> 's \<times> (lease_error, Lease) res" where
  "create st timeText now s key holder ttl expect =
     (if holder = [] then (s, Panic ''create: holder must not be empty'')
      else if ttl < TTLMin then (s, Panic ''create: ttl must be validated before create'')
      else
        let (s, r) = write_record st timeText s key \<lparr>lr_Holder = holder, lr_AcquiredAt = now, lr_TTLMs = ttl div Millisecond\<rparr> ''acquired'' expect
        in (s, and_then r (\<lambda>revision. Ok \<lparr>le_Key = key, le_Holder = holder, le_Revision = revision, le_AcquiredAt = now,
                 le_ExpiresAt = now + ttl, le_TTL = ttl\<rparr>)))"

definition LeaseMarkerTTL :: duration where
  "LeaseMarkerTTL = 60 * Second"

definition purge :: "'s stream \<Rightarrow> 's \<Rightarrow> string \<Rightarrow> nat \<Rightarrow> 's \<times> lease_error checked" where
  "purge st s key expect =
     (if key = [] then (s, Panic ''purge: key must not be empty'')
      else if expect = 0 then (s, Panic ''purge: expect must be a real revision'')
      else
        let (s, r) = sr_Publish st s key \<lparr>sm_KVOperation = ''PURGE'', sm_MarkerReason = [], sm_Event = ''released'',
              sm_Data = RNil, sm_TTL = LeaseMarkerTTL\<rparr> expect
        in (s, and_then (map_err StreamFailed r) (\<lambda>_. Ok ())))"

definition checkHolder :: "string \<Rightarrow> current \<Rightarrow> string \<Rightarrow> lease_error checked" where
  "checkHolder key cur holder =
     (if key = [] \<or> holder = [] then Panic ''checkHolder: key and holder must not be empty''
      else if cu_live cur \<and> le_Revision (cu_lease cur) = 0 then Panic ''checkHolder: a live lease must carry a revision''
      else if \<not> cu_live cur then Err (ErrLost key)
      else if le_Holder (cu_lease cur) \<noteq> holder then Err (ErrLost key)
      else Ok ())"

section \<open>The four calls\<close>

text \<open>\<open>rivals i\<close>: what others do to the stream before the call's own \<open>i\<close>-th access.\<close>

fun acquire_loop ::
    "'s stream \<Rightarrow> (string \<Rightarrow> gotime option) \<Rightarrow> (gotime \<Rightarrow> string) \<Rightarrow> (nat \<Rightarrow> 's \<Rightarrow> 's) \<Rightarrow> gotime \<Rightarrow> nat \<Rightarrow> nat \<Rightarrow> 's \<Rightarrow> string \<Rightarrow> string \<Rightarrow>
     duration \<Rightarrow> 's \<times> (lease_error, Lease \<times> bool) res" where
  "acquire_loop st parseTime timeText rivals now 0 i s key holder ttl = (s, Err (Contention key))"
| "acquire_loop st parseTime timeText rivals now (Suc n) i s key holder ttl =
     (let s = rivals i s in
      case read st parseTime s key of
        Err e \<Rightarrow> (s, Err e)
      | Panic p \<Rightarrow> (s, Panic p)
      | Ok cur \<Rightarrow>
          if cu_live cur then (s, Ok (cu_lease cur, le_Holder (cu_lease cur) = holder))
          else
            (case create st timeText now (rivals (Suc i) s) key holder ttl (cu_revision cur) of
               (s, Ok granted) \<Rightarrow> (s, Ok (granted, True))
             | (s, Err e) \<Rightarrow>
                 if e \<noteq> StreamFailed WrongLastSequence then (s, Err e)
                 else acquire_loop st parseTime timeText rivals now n (Suc (Suc i)) s key holder ttl
             | (s, Panic p) \<Rightarrow> (s, Panic p)))"

definition Acquire ::
    "'s stream \<Rightarrow> (string \<Rightarrow> gotime option) \<Rightarrow> (gotime \<Rightarrow> string) \<Rightarrow> (nat \<Rightarrow> 's \<Rightarrow> 's) \<Rightarrow> gotime \<Rightarrow> 's \<Rightarrow> string \<Rightarrow> string \<Rightarrow>
     duration \<Rightarrow> 's \<times> (lease_error, Lease \<times> bool) res" where
  "Acquire st parseTime timeText rivals now s key holder ttl =
     (case and_then (validateToken ''key'' key KeyLengthMax) (\<lambda>_.
           and_then (validateToken ''holder'' holder HolderLengthMax) (\<lambda>_. validateTTL ttl)) of
        Ok u \<Rightarrow> acquire_loop st parseTime timeText rivals now acquireAttemptsMax 0 s key holder ttl
      | Err e \<Rightarrow> (s, Err e)
      | Panic p \<Rightarrow> (s, Panic p))"

definition lostRevision :: "string \<Rightarrow> nat \<Rightarrow> lease_error" where
  "lostRevision key revision = ErrLost key"

definition Renew ::
    "'s stream \<Rightarrow> (string \<Rightarrow> gotime option) \<Rightarrow> (gotime \<Rightarrow> string) \<Rightarrow> (nat \<Rightarrow> 's \<Rightarrow> 's) \<Rightarrow> gotime \<Rightarrow> 's \<Rightarrow> string \<Rightarrow> string \<Rightarrow> nat \<Rightarrow>
     duration \<Rightarrow> 's \<times> (lease_error, Lease) res" where
  "Renew st parseTime timeText rivals now s key holder revision ttl =
     (case and_then (validateFence key holder revision) (\<lambda>_. validateTTL ttl) of
        Err e \<Rightarrow> (s, Err e)
      | Panic p \<Rightarrow> (s, Panic p)
      | Ok u \<Rightarrow>
          let s = rivals 0 s in
          (case and_then (read st parseTime s key) (\<lambda>cur. and_then (checkHolder key cur holder) (\<lambda>_. Ok cur)) of
             Err e \<Rightarrow> (s, Err e)
           | Panic p \<Rightarrow> (s, Panic p)
           | Ok cur \<Rightarrow>
               let rec = \<lparr>lr_Holder = holder, lr_AcquiredAt = le_AcquiredAt (cu_lease cur), lr_TTLMs = ttl div Millisecond\<rparr>;
                   (s, r) = write_record st timeText (rivals 1 s) key rec ''renewed'' revision
               in (s, case r of
                        Ok n \<Rightarrow> Ok \<lparr>le_Key = key, le_Holder = holder, le_Revision = n, le_AcquiredAt = lr_AcquiredAt rec,
                                 le_ExpiresAt = now + ttl, le_TTL = ttl\<rparr>
                      | Err e \<Rightarrow> Err (if e = StreamFailed WrongLastSequence then lostRevision key revision else e)
                      | Panic p \<Rightarrow> Panic p)))"

definition Release ::
    "'s stream \<Rightarrow> (string \<Rightarrow> gotime option) \<Rightarrow> (nat \<Rightarrow> 's \<Rightarrow> 's) \<Rightarrow> 's \<Rightarrow> string \<Rightarrow> string \<Rightarrow> nat \<Rightarrow> 's \<times> lease_error checked" where
  "Release st parseTime rivals s key holder revision =
     (case validateFence key holder revision of
        Err e \<Rightarrow> (s, Err e)
      | Panic p \<Rightarrow> (s, Panic p)
      | Ok u \<Rightarrow>
          let s = rivals 0 s in
          (case and_then (read st parseTime s key) (\<lambda>cur. checkHolder key cur holder) of
             Err e \<Rightarrow> (s, Err e)
           | Panic p \<Rightarrow> (s, Panic p)
           | Ok u \<Rightarrow>
               let (s, r) = purge st (rivals 1 s) key revision
               in (s, case r of
                        Err e \<Rightarrow> Err (if e = StreamFailed WrongLastSequence then lostRevision key revision else e)
                      | _ \<Rightarrow> r)))"

definition Owner :: "'s stream \<Rightarrow> (string \<Rightarrow> gotime option) \<Rightarrow> 's \<Rightarrow> string \<Rightarrow> (lease_error, Lease \<times> bool) res" where
  "Owner st parseTime s key =
     and_then (validateToken ''key'' key KeyLengthMax) (\<lambda>_.
     and_then (read st parseTime s key) (\<lambda>cur. Ok (cu_lease cur, cu_live cur)))"

section \<open>What the calls leave behind\<close>

text \<open>The stored record is read back as it was written.\<close>

lemma dec_enc_record:
  assumes "parseTime (timeText (lr_AcquiredAt rec)) = Some (lr_AcquiredAt rec)" "int64_ok (lr_TTLMs rec)"
  shows "unmarshal_struct (dec_record parseTime) (enc_record timeText rec) = Some rec"
  using assms by (simp add: unmarshal_struct_def dec_record_def enc_record_def dec_field_def dec_instant_def dec_str_def dec_int_def to_lower_def
      to_lower_char_def)

text \<open>A message that stands for a lease of a holder: no marker, and a record naming the holder.\<close>

definition lease_of :: "(string \<Rightarrow> gotime option) \<Rightarrow> stored_msg \<Rightarrow> string \<Rightarrow> bool" where
  "lease_of parseTime m holder \<longleftrightarrow> sm_KVOperation m = [] \<and> sm_MarkerReason m = [] \<and>
     map_option lr_Holder (unmarshal_struct (dec_record parseTime) (sm_Data m)) = Some holder"

lemma lease_of_unique: "lease_of parseTime m h \<Longrightarrow> lease_of parseTime m h' \<Longrightarrow> h = h'"
  by (auto simp: lease_of_def)

lemma validateTTL_ok: "validateTTL ttl = Ok u \<Longrightarrow> int64_ok (ttl div Millisecond)"
  by (auto simp: validateTTL_def TTLMin_def TTLMax_def int64_ok_def split: if_splits)

lemma map_err_Ok [simp]: "map_err g r = Ok a \<longleftrightarrow> r = Ok a"
  by (cases r) auto

context cas_stream
begin

text \<open>\<open>held\<close>: the last message of the key is a lease of the holder at this revision.\<close>

definition held :: "(string \<Rightarrow> gotime option) \<Rightarrow> 's \<Rightarrow> string \<Rightarrow> string \<Rightarrow> nat \<Rightarrow> bool" where
  "held parseTime s key holder revision \<longleftrightarrow> (\<exists>m. last_msg s key = Some (m, revision) \<and> lease_of parseTime m holder)"

lemma getLast_Ok:
  assumes "getLast st s key = Ok found"
  shows "map_option (\<lambda>(m, n, t). (m, n)) found = last_msg s key"
  using assms by (auto simp: getLast_def last_missing dest!: last_Ok split: if_splits res.splits stream_error.splits)

lemma read_Ok:
  assumes "read st parseTime s key = Ok cur"
  shows "(if cu_live cur then held parseTime s key (le_Holder (cu_lease cur)) (le_Revision (cu_lease cur))
     else \<forall>m n holder. last_msg s key = Some (m, n) \<longrightarrow> \<not> lease_of parseTime m holder)
   \<and> cu_revision cur = revision_of (last_msg s key)"
proof -
  obtain found where f: "getLast st s key = Ok found" using assms by (auto simp: read_def res_simps)
  show ?thesis
  proof (cases found)
    case None
    then show ?thesis using assms f getLast_Ok [OF f] by (auto simp: read_def revision_of_def)
  next
    case (Some p)
    then obtain m n t where p: "found = Some (m, n, t)" by (cases p) auto
    then have "last_msg s key = Some (m, n)" using getLast_Ok [OF f] by simp
    then show ?thesis using assms f p
      by (auto simp: read_def held_def lease_of_def revision_of_def Let_def split: if_splits option.splits)
  qed
qed

lemma read_live:
  assumes "read st parseTime s key = Ok cur" "cu_live cur"
  shows "held parseTime s key (le_Holder (cu_lease cur)) (le_Revision (cu_lease cur))"
  using read_Ok [OF assms(1)] assms(2) by simp

lemma held_unique:
  "held parseTime s key h n \<Longrightarrow> held parseTime s key h' n' \<Longrightarrow> h = h' \<and> n = n'"
  by (auto simp: held_def dest: lease_of_unique)

lemma read_held:
  assumes "read st parseTime s key = Ok cur" "held parseTime s key holder revision"
  shows "cu_live cur \<and> le_Holder (cu_lease cur) = holder \<and> le_Revision (cu_lease cur) = revision"
  using read_Ok [OF assms(1)] assms(2) by (auto simp: held_def split: if_splits dest: lease_of_unique)

lemma write_record_Ok:
  assumes "write_record st timeText s key rec event expect = (s', Ok n)"
    and "parseTime (timeText (lr_AcquiredAt rec)) = Some (lr_AcquiredAt rec)" "int64_ok (lr_TTLMs rec)"
  shows "held parseTime s' key (lr_Holder rec) n \<and> last_seq s < n \<and> revision_of (last_msg s key) = expect"
  using assms by (auto simp: write_record_def Let_def held_def lease_of_def dec_enc_record dest!: publish_Ok
      split: if_splits prod.splits)

lemma create_Ok:
  assumes "create st timeText now s key holder ttl expect = (s', Ok l)" "parseTime (timeText now) = Some now"
    "int64_ok (ttl div Millisecond)"
  shows "held parseTime s' key holder (le_Revision l) \<and> le_Holder l = holder"
  using assms by (auto simp: create_def Let_def res_simps dest!: write_record_Ok [where parseTime = parseTime]
      split: if_splits prod.splits)

lemma acquire_loop_held:
  assumes "parseTime (timeText now) = Some now" "int64_ok (ttl div Millisecond)"
  shows "acquire_loop st parseTime timeText rivals now k i s key holder ttl = (s', Ok (l, ok)) \<Longrightarrow>
    held parseTime s' key (le_Holder l) (le_Revision l) \<and> (ok \<longleftrightarrow> le_Holder l = holder)"
proof (induction k arbitrary: i s)
  case (Suc k)
  then show ?case using assms
    by (auto simp: Let_def split: res.splits if_splits prod.splits dest: read_live create_Ok)
qed simp

lemma Acquire_held:
  assumes "Acquire st parseTime timeText rivals now s key holder ttl = (s', Ok (l, ok))" "parseTime (timeText now) = Some now"
  shows "held parseTime s' key (le_Holder l) (le_Revision l) \<and> (ok \<longleftrightarrow> le_Holder l = holder)"
  using assms by (auto simp: Acquire_def res_simps dest!: validateTTL_ok acquire_loop_held split: res.splits)

lemma held_pos: "held parseTime s key holder n \<Longrightarrow> 0 < n \<and> n \<le> last_seq s"
  by (auto simp: held_def dest: msg_seq)

text \<open>Two holders of one key, one after the other: the fence has grown.\<close>

lemma held_grows:
  assumes "held parseTime s key h n" "later s s'" "held parseTime s' key h' n'" "h \<noteq> h'"
  shows "n < n'"
proof -
  obtain m where m: "last_msg s key = Some (m, n)" "lease_of parseTime m h" using assms(1) by (auto simp: held_def)
  obtain m' where m': "last_msg s' key = Some (m', n')" "lease_of parseTime m' h'" using assms(3) by (auto simp: held_def)
  have "last_msg s key \<noteq> Some (m', n')" using m m'(2) assms(4) by (auto dest: lease_of_unique)
  then have "last_seq s < n'" using assms(2) m'(1) by (auto simp: later_def)
  then show ?thesis using held_pos [OF assms(1)] by simp
qed

text \<open>A fence the key has passed: neither call succeeds, and neither changes any subject.\<close>

lemma write_record_passed:
  assumes "revision_of (last_msg s key) \<noteq> old" "write_record st timeText s key rec event old = (s', r)"
  shows "last_msg s' = last_msg s \<and> \<not> is_ok r"
  using assms by (cases "event = ''acquired''")
    (auto simp: write_record_def Let_def res_simps dest!: passed_publish split: if_splits prod.splits)

lemma purge_passed:
  assumes "revision_of (last_msg s key) \<noteq> old" "purge st s key old = (s', r)"
  shows "last_msg s' = last_msg s \<and> \<not> is_ok r"
  using assms by (auto simp: purge_def Let_def res_simps dest!: passed_publish split: if_splits prod.splits)

lemma Renew_held:
  assumes "Renew st parseTime timeText rivals now s key holder revision ttl = (s', Ok l)"
    and times: "\<And>t. parseTime (timeText t) = Some t"
  shows "held parseTime s' key holder (le_Revision l) \<and> le_Holder l = holder \<and> last_seq (rivals 1 (rivals 0 s)) < le_Revision l"
  using assms(1) by (auto simp: Renew_def Let_def res_simps times dest!: validateTTL_ok write_record_Ok [where parseTime = parseTime]
      split: res.splits prod.splits)

lemma Owner_held:
  assumes "Owner st parseTime s key = Ok (l, live)"
  shows "held parseTime s key holder revision \<longrightarrow> live \<and> le_Holder l = holder \<and> le_Revision l = revision"
  using assms by (auto simp: Owner_def res_simps dest: read_held)

lemma Renew_passed:
  assumes "revision_of (last_msg (rivals 1 (rivals 0 s)) key) \<noteq> old"
  shows "\<not> is_ok (snd (Renew st parseTime timeText rivals now s key holder old ttl)) \<and>
    last_msg (fst (Renew st parseTime timeText rivals now s key holder old ttl))
      \<in> {last_msg s, last_msg (rivals 0 s), last_msg (rivals 1 (rivals 0 s))}"
  by (auto simp: Renew_def Let_def res_simps dest!: write_record_passed [OF assms [unfolded One_nat_def]] split: res.splits prod.splits)

lemma Release_passed:
  assumes "revision_of (last_msg (rivals 1 (rivals 0 s)) key) \<noteq> old"
  shows "\<not> is_ok (snd (Release st parseTime rivals s key holder old)) \<and>
    last_msg (fst (Release st parseTime rivals s key holder old))
      \<in> {last_msg s, last_msg (rivals 0 s), last_msg (rivals 1 (rivals 0 s))}"
  by (auto simp: Release_def Let_def res_simps dest!: purge_passed [OF assms [unfolded One_nat_def]] split: res.splits prod.splits)

text \<open>Every call moves the stream on, whatever its rivals do, as long as they move it on.\<close>

lemma write_record_later: "write_record st timeText s key rec event expect = (s', r) \<Longrightarrow> later s s'"
  by (auto simp: write_record_def Let_def dest!: publish_later split: if_splits prod.splits)

lemma create_later: "create st timeText now s key holder ttl expect = (s', r) \<Longrightarrow> later s s'"
  by (auto simp: create_def Let_def dest!: write_record_later split: if_splits prod.splits)

lemma acquire_loop_later:
  assumes moves: "\<And>i s. later s (rivals i s)"
  shows "acquire_loop st parseTime timeText rivals now k i s key holder ttl = (s', r) \<Longrightarrow> later s s'"
proof (induction k arbitrary: i s)
  case (Suc k)
  let ?s = "rivals (Suc i) (rivals i s)"
  have rs: "later s (rivals i s)" "later s ?s" using moves later_trans by blast+
  have more: "later s s'" if "create st timeText now ?s key holder ttl expect = (t, r')"
      "t = s' \<or> acquire_loop st parseTime timeText rivals now k (Suc (Suc i)) t key holder ttl = (s', r)" for expect t r'
    using create_later [OF that(1)] rs(2) that(2) Suc.IH later_trans by blast
  show ?case using Suc.prems rs(1) more
    by (auto simp: Let_def split: res.splits if_splits prod.splits)
qed auto

lemma Acquire_later:
  assumes "\<And>i s. later s (rivals i s)" "Acquire st parseTime timeText rivals now s key holder ttl = (s', r)"
  shows "later s s'"
  using assms(2) by (auto simp: Acquire_def dest!: acquire_loop_later [OF assms(1)] split: res.splits)

lemma purge_later: "purge st s key expect = (s', r) \<Longrightarrow> later s s'"
  by (auto simp: purge_def Let_def dest!: publish_later split: if_splits prod.splits)

lemma two_accesses:
  assumes "\<And>i s. later s (rivals i s)" "later (rivals 1 (rivals 0 s)) s'"
  shows "later s s'"
  using assms later_trans by blast

lemma Renew_later:
  assumes moves: "\<And>i s. later s (rivals i s)" and "Renew st parseTime timeText rivals now s key holder old ttl = (s', r)"
  shows "later s s'"
  using assms(2) by (auto simp: Renew_def Let_def moves intro: two_accesses [of rivals, OF moves] dest!: write_record_later
      split: res.splits prod.splits)

lemma Release_later:
  assumes moves: "\<And>i s. later s (rivals i s)" and "Release st parseTime rivals s key holder old = (s', r)"
  shows "later s s'"
  using assms(2) by (auto simp: Release_def Let_def moves intro: two_accesses [of rivals, OF moves] dest!: purge_later
      split: res.splits prod.splits)

end

text \<open>A fence: the revision of a lease the store has granted or renewed.\<close>

definition fence_given ::
    "'s stream \<Rightarrow> (string \<Rightarrow> gotime option) \<Rightarrow> (gotime \<Rightarrow> string) \<Rightarrow> 's \<Rightarrow> string \<Rightarrow> string \<Rightarrow> nat \<Rightarrow> bool" where
  "fence_given st parseTime timeText s key holder fence \<longleftrightarrow>
     (\<exists>rivals now s0 ttl l. Acquire st parseTime timeText rivals now s0 key holder ttl = (s, Ok (l, True)) \<and> le_Revision l = fence)
   \<or> (\<exists>rivals now s0 old ttl l. Renew st parseTime timeText rivals now s0 key holder old ttl = (s, Ok l) \<and> le_Revision l = fence)"

context cas_stream
begin

lemma fence_given_held:
  assumes "fence_given st parseTime timeText s key holder fence" "\<And>t. parseTime (timeText t) = Some t"
  shows "held parseTime s key holder fence"
  using assms by (auto simp: fence_given_def dest!: Acquire_held Renew_held)

lemma fence_passed:
  assumes times: "\<And>t. parseTime (timeText t) = Some t"
    and g1: "fence_given st parseTime timeText s1 key h1 f1" and l1: "later s1 s2"
    and g2: "fence_given st parseTime timeText s2 key h2 f2" and ne: "h1 \<noteq> h2" and l2: "later s2 s3"
  shows "f1 < f2 \<and> revision_of (last_msg s3 key) \<noteq> f1"
proof -
  have h: "held parseTime s1 key h1 f1" "held parseTime s2 key h2 f2"
    using fence_given_held [OF g1 times] fence_given_held [OF g2 times] by auto
  have lt: "f1 < f2" by (rule held_grows [OF h(1) l1 h(2) ne])
  obtain m where "last_msg s2 key = Some (m, f2)" using h(2) by (auto simp: held_def)
  then show ?thesis using passed l2 lt held_pos [OF h(1)] by blast
qed

end

section \<open>Fencing\<close>

text \<open>C10: Once a key has been granted to another holder, the fence the earlier holder was given (by Acquire or by Renew) is
  below the new one, and from then on neither Renew nor Release accepts it, in any later state of the bucket and whatever
  rivals do between the reads and the writes of the call; with no rival between them the refused call leaves the bucket as it
  was, so the new holder keeps its lease.\<close>

theorem lost_lease_stays_lost:
  assumes stream: "cas_stream st msg sq"
    and times: "\<And>t. parseTime (timeText t) = Some t"
    and moves: "\<And>i s. cas_stream.later msg sq s (rivals i s)"
    and first: "fence_given st parseTime timeText s1 key h1 f1" "cas_stream.later msg sq s1 s2"
    and second: "fence_given st parseTime timeText s2 key h2 f2" "cas_stream.later msg sq s2 s3"
    and other: "h1 \<noteq> h2"
  shows "f1 < f2
     \<and> \<not> is_ok (snd (Renew st parseTime timeText rivals now s3 key holder f1 ttl))
     \<and> \<not> is_ok (snd (Release st parseTime rivals s3 key holder f1))
     \<and> msg (fst (Renew st parseTime timeText (\<lambda>i s. s) now s3 key holder f1 ttl)) = msg s3
     \<and> msg (fst (Release st parseTime (\<lambda>i s. s) s3 key holder f1)) = msg s3"
proof -
  have gone: "f1 < f2 \<and> revision_of (msg s key) \<noteq> f1" if "cas_stream.later msg sq s3 s" for s
    by (rule cas_stream.fence_passed [OF stream times first second(1) other
          cas_stream.later_trans [OF stream second(2) that]])
  have "cas_stream.later msg sq s3 (rivals 1 (rivals 0 s3))"
    using moves cas_stream.later_trans [OF stream] by blast
  from gone [OF this] gone [OF cas_stream.later_refl [OF stream]] show ?thesis
    using cas_stream.Renew_passed [OF stream, of rivals s3] cas_stream.Release_passed [OF stream, of rivals s3]
      cas_stream.Renew_passed [OF stream, of "\<lambda>i s. s" s3] cas_stream.Release_passed [OF stream, of "\<lambda>i s. s" s3]
    by auto
qed

text \<open>A key that one holder acquires and releases and another acquires then.\<close>

definition unary_text :: "gotime \<Rightarrow> string" where
  "unary_text t = (if t < 0 then CHR ''-'' # replicate (nat (- t)) CHR ''1'' else replicate (nat t) CHR ''1'')"

definition unary_time :: "string \<Rightarrow> gotime option" where
  "unary_time s = (case s of c # cs \<Rightarrow> Some (if c = CHR ''-'' then - int (length cs) else int (length s)) | [] \<Rightarrow> Some 0)"

lemma unary_time_text: "unary_time (unary_text t) = Some t"
proof (cases "nat t")
  case (Suc n)
  then show ?thesis by (auto simp: unary_time_def unary_text_def)
qed (auto simp: unary_time_def unary_text_def)

abbreviation quiet :: "nat \<Rightarrow> 's \<Rightarrow> 's" where
  "quiet \<equiv> \<lambda>i s. s"

definition first_taken :: "mem_stream \<times> (lease_error, Lease \<times> bool) res" where
  "first_taken = Acquire mem_stream_ops unary_time unary_text quiet 0 ([], 0) ''leader'' ''a'' Second"

definition first_released :: "mem_stream \<times> lease_error checked" where
  "first_released = Release mem_stream_ops unary_time quiet (fst first_taken) ''leader'' ''a'' 1"

definition then_taken :: "mem_stream \<times> (lease_error, Lease \<times> bool) res" where
  "then_taken = Acquire mem_stream_ops unary_time unary_text quiet 5 (fst first_released) ''leader'' ''b'' Second"

lemma first_granted: "snd first_taken = Ok (\<lparr>le_Key = ''leader'', le_Holder = ''a'', le_Revision = 1, le_AcquiredAt = 0,
    le_ExpiresAt = Second, le_TTL = Second\<rparr>, True)"
  by code_simp

lemma then_granted: "snd then_taken = Ok (\<lparr>le_Key = ''leader'', le_Holder = ''b'', le_Revision = 3, le_AcquiredAt = 5,
    le_ExpiresAt = Second + 5, le_TTL = Second\<rparr>, True)"
  by code_simp

lemma fence_of_Acquire:
  "snd (Acquire st parseTime timeText rivals now s key holder ttl) = Ok (l, True) \<Longrightarrow>
   fence_given st parseTime timeText (fst (Acquire st parseTime timeText rivals now s key holder ttl)) key holder (le_Revision l)"
  unfolding fence_given_def by (metis prod.collapse)

theorem lost_lease_stays_lost_witness:
  "fence_given mem_stream_ops unary_time unary_text (fst first_taken) ''leader'' ''a'' 1
   \<and> fence_given mem_stream_ops unary_time unary_text (fst then_taken) ''leader'' ''b'' 3
   \<and> (1 :: nat) < 3
   \<and> \<not> is_ok (snd (Renew mem_stream_ops unary_time unary_text quiet 6 (fst then_taken) ''leader'' ''a'' 1 Second))
   \<and> \<not> is_ok (snd (Release mem_stream_ops unary_time quiet (fst then_taken) ''leader'' ''b'' 1))"
proof -
  have f: "fence_given mem_stream_ops unary_time unary_text (fst first_taken) ''leader'' ''a'' 1"
    using fence_of_Acquire [OF first_granted [unfolded first_taken_def]] by (simp add: first_taken_def)
  have t: "fence_given mem_stream_ops unary_time unary_text (fst then_taken) ''leader'' ''b'' 3"
    using fence_of_Acquire [OF then_granted [unfolded then_taken_def]] by (simp add: then_taken_def)
  have r: "ms.later s (quiet i s)" for i s by (rule ms.later_refl)
  have "ms.later (fst first_taken) (fst first_released)"
    by (rule ms.Release_later [OF r, where r = "snd first_released"]) (simp add: first_released_def)
  moreover have "ms.later (fst first_released) (fst then_taken)"
    by (rule ms.Acquire_later [OF r, where r = "snd then_taken"]) (simp add: then_taken_def)
  ultimately have l: "ms.later (fst first_taken) (fst then_taken)" by (rule ms.later_trans)
  note lost = lost_lease_stays_lost [OF ms.cas_stream_axioms unary_time_text r f l t ms.later_refl, simplified]
  show ?thesis using f t lost by simp
qed

section \<open>Forwarding to the owner\<close>

text \<open>\<open>ask\<close>: what a request to an inbox with a fence gives at an attempt. A forward also returns what it sent: to whom, under
  which fence, and the outcome.\<close>

datatype delivery = NoResponders | DeadlineExceeded | RequestFailed string | Replied string raw

record Forwarded =
  fw_Key :: string
  fw_Holder :: string
  fw_Revision :: nat
  fw_Payload :: raw

type_synonym sent_request = "(string \<times> nat) \<times> delivery"

definition forwardAttemptsMax :: nat where "forwardAttemptsMax = 3"

definition ForwardTimeoutMin :: duration where "ForwardTimeoutMin = 100 * Millisecond"

definition ForwardTimeoutMax :: duration where "ForwardTimeoutMax = 30 * Second"

definition validateForwardTimeout :: "duration \<Rightarrow> lease_error checked" where
  "validateForwardTimeout timeout =
     (if timeout \<ge> ForwardTimeoutMin \<and> timeout \<le> ForwardTimeoutMax then Ok () else Err (ErrInvalid ''timeout_ms''))"

definition InboxSubject :: "string \<Rightarrow> string \<Rightarrow> ('e, string) res" where
  "InboxSubject holder key =
     (if holder = [] \<or> key = [] then Panic ''InboxSubject: holder and key must not be empty''
      else if list_ex (\<lambda>c. c \<in> set ''.*> '') holder \<or> list_ex (\<lambda>c. c \<in> set ''.*> '') key
      then Panic ''InboxSubject: holder and key must each be one subject token''
      else Ok (''dagnats.lease.inbox.'' @ holder @ ''.'' @ key))"

definition deliver :: "(string \<Rightarrow> nat \<Rightarrow> raw \<Rightarrow> delivery) \<Rightarrow> Lease \<Rightarrow> raw \<Rightarrow> (lease_error, raw) res \<times> sent_request list" where
  "deliver ask l payload =
     (if le_Holder l = [] \<or> le_Revision l = 0 then (Panic ''deliver: lease must name a holder and revision'', [])
      else
        (case InboxSubject (le_Holder l) (le_Key l) of
           Panic p \<Rightarrow> (Panic p, [])
         | Err e \<Rightarrow> (Err e, [])
         | Ok subject \<Rightarrow>
             let d = ask subject (le_Revision l) payload
             in (case d of
                   NoResponders \<Rightarrow> Err OwnerRefused
                 | DeadlineExceeded \<Rightarrow> Err (ErrOwnerTimeout (le_Holder l) (le_Key l))
                 | RequestFailed e \<Rightarrow> Err (ForwardFailed (le_Key l) (le_Holder l) e)
                 | Replied reject payload \<Rightarrow> if reject \<noteq> [] then Err OwnerRefused else Ok payload,
                 [((le_Holder l, le_Revision l), d)])))"

fun forward_loop ::
    "'s stream \<Rightarrow> (string \<Rightarrow> gotime option) \<Rightarrow> (nat \<Rightarrow> 's \<Rightarrow> 's) \<Rightarrow> (nat \<Rightarrow> string \<Rightarrow> nat \<Rightarrow> raw \<Rightarrow> delivery) \<Rightarrow> nat \<Rightarrow> nat \<Rightarrow> 's \<Rightarrow> string \<Rightarrow>
     raw \<Rightarrow> Forwarded \<Rightarrow> (Forwarded \<times> lease_error checked) \<times> sent_request list" where
  "forward_loop st parseTime rivals ask 0 i s key payload tried =
     ((tried, Err (ErrOwnerUnavailable (fw_Holder tried) key (fw_Revision tried))), [])"
| "forward_loop st parseTime rivals ask (Suc n) i s key payload tried =
     (let s = rivals i s in
      case read st parseTime s key of
        Err e \<Rightarrow> ((tried, Err e), [])
      | Panic p \<Rightarrow> ((tried, Panic p), [])
      | Ok cur \<Rightarrow>
          if \<not> cu_live cur then ((\<lparr>fw_Key = key, fw_Holder = [], fw_Revision = 0, fw_Payload = RNil\<rparr>, Err (ErrNoOwner key)), [])
          else if \<not> is_ok (validateToken ''stored holder'' (le_Holder (cu_lease cur)) HolderLengthMax)
          then ((tried, Err (CorruptRecord (le_Revision (cu_lease cur)))), [])
          else
            let moved = (le_Holder (cu_lease cur) \<noteq> fw_Holder tried \<or> le_Revision (cu_lease cur) \<noteq> fw_Revision tried)
            in if i > 0 \<and> \<not> moved
               then ((tried, Err (ErrOwnerUnavailable (fw_Holder tried) key (fw_Revision tried))), [])
               else
                 let tried = \<lparr>fw_Key = key, fw_Holder = le_Holder (cu_lease cur), fw_Revision = le_Revision (cu_lease cur), fw_Payload = RNil\<rparr>
                 in (case deliver (ask i) (cu_lease cur) payload of
                       (Ok reply, sent) \<Rightarrow> ((tried\<lparr>fw_Payload := reply\<rparr>, Ok ()), sent)
                     | (Panic p, sent) \<Rightarrow> ((tried, Panic p), sent)
                     | (Err e, sent) \<Rightarrow>
                         if e \<noteq> OwnerRefused then ((tried, Err e), sent)
                         else
                           let (result, rest) = forward_loop st parseTime rivals ask n (Suc i) s key payload tried
                           in (result, sent @ rest)))"

definition Forward ::
    "'s stream \<Rightarrow> (string \<Rightarrow> gotime option) \<Rightarrow> (nat \<Rightarrow> 's \<Rightarrow> 's) \<Rightarrow> (nat \<Rightarrow> string \<Rightarrow> nat \<Rightarrow> raw \<Rightarrow> delivery) \<Rightarrow> 's \<Rightarrow> string \<Rightarrow> raw \<Rightarrow>
     duration \<Rightarrow> (Forwarded \<times> lease_error checked) \<times> sent_request list" where
  "Forward st parseTime rivals ask s key payload timeout =
     (let none = \<lparr>fw_Key = [], fw_Holder = [], fw_Revision = 0, fw_Payload = RNil\<rparr> in
      case and_then (validateToken ''key'' key KeyLengthMax) (\<lambda>_. validateForwardTimeout timeout) of
        Err e \<Rightarrow> ((none, Err e), [])
      | Panic p \<Rightarrow> ((none, Panic p), [])
      | Ok u \<Rightarrow> forward_loop st parseTime rivals ask forwardAttemptsMax 0 s key payload (none\<lparr>fw_Key := key\<rparr>))"

text \<open>The deliveries the owner provably did not process.\<close>

fun refused :: "delivery \<Rightarrow> bool" where
  "refused NoResponders = True"
| "refused (Replied reject payload) = (reject \<noteq> [])"
| "refused d = False"

text \<open>What the requests of a forward have in common: all but the last were refused, and each one went to another lease
  than the one before.\<close>

definition forwarded_well :: "Forwarded \<times> lease_error checked \<Rightarrow> sent_request list \<Rightarrow> bool" where
  "forwarded_well result sent \<longleftrightarrow>
     list_all (\<lambda>x. refused (snd x)) (butlast sent)
   \<and> (\<forall>i. Suc i < length sent \<longrightarrow> fst (sent ! i) \<noteq> fst (sent ! Suc i))
   \<and> (is_ok (snd result) \<longrightarrow> sent \<noteq> [] \<and>
        last sent = ((fw_Holder (fst result), fw_Revision (fst result)), Replied [] (fw_Payload (fst result))))
   \<and> ((\<exists>k. snd result = Err (ErrNoOwner k)) \<or> (\<exists>h k n. snd result = Err (ErrOwnerUnavailable h k n)) \<longrightarrow>
        list_all (\<lambda>x. refused (snd x)) sent)"

lemma forwarded_well_Cons:
  assumes "forwarded_well result rest" "refused d" "rest \<noteq> [] \<longrightarrow> fst (hd rest) \<noteq> a"
  shows "forwarded_well result ((a, d) # rest)"
  using assms by (auto simp: forwarded_well_def nth_Cons hd_conv_nth split: nat.split)

definition undelivered :: "lease_error \<Rightarrow> bool" where
  "undelivered e \<longleftrightarrow> (\<exists>k. e = ErrNoOwner k) \<or> (\<exists>h k n. e = ErrOwnerUnavailable h k n)"

lemma deliver_cases:
  assumes "deliver ask l payload = (r, sent)"
  obtains (unsent) p where "sent = []" "r = Panic p"
  | (taken) reply where "sent = [((le_Holder l, le_Revision l), Replied [] reply)]" "r = Ok reply"
  | (refused) d where "sent = [((le_Holder l, le_Revision l), d)]" "refused d" "r = Err OwnerRefused"
  | (unknown) d e where "sent = [((le_Holder l, le_Revision l), d)]" "r = Err e" "e \<noteq> OwnerRefused" "\<not> undelivered e"
  using assms by (auto simp: deliver_def InboxSubject_def undelivered_def Let_def split: if_splits delivery.splits)

lemma read_not_undelivered: "read st parseTime s key = Err e \<Longrightarrow> \<not> undelivered e"
  by (auto simp: read_def getLast_def undelivered_def Let_def res_simps
      split: if_splits option.splits res.splits stream_error.splits prod.splits elim!: and_then.elims)

lemma forward_loop_well:
  "forward_loop st parseTime rivals ask n i s key payload tried = (result, sent) \<Longrightarrow>
   forwarded_well result sent \<and> length sent \<le> n
   \<and> (i > 0 \<longrightarrow> sent \<noteq> [] \<longrightarrow> fst (hd sent) \<noteq> (fw_Holder tried, fw_Revision tried))"
proof (induction n arbitrary: i s tried result sent)
  case 0
  then show ?case by (auto simp: forwarded_well_def)
next
  case (Suc n)
  show ?case
  proof (cases "read st parseTime (rivals i s) key")
    case (Err e)
    then show ?thesis using Suc.prems read_not_undelivered [OF Err] by (auto simp: forwarded_well_def undelivered_def)
  next
    case (Panic p)
    then show ?thesis using Suc.prems by (auto simp: forwarded_well_def)
  next
    case (Ok cur)
    let ?l = "cu_lease cur"
    let ?tried = "\<lparr>fw_Key = key, fw_Holder = le_Holder ?l, fw_Revision = le_Revision ?l, fw_Payload = RNil\<rparr>"
    show ?thesis
    proof (cases "sent = []")
      case True
      then show ?thesis using Suc.prems Ok
        by (auto simp: forwarded_well_def Let_def split: if_splits prod.splits res.splits elim!: deliver_cases)
    next
      case False
      then have moved: "i > 0 \<longrightarrow> (le_Holder ?l, le_Revision ?l) \<noteq> (fw_Holder tried, fw_Revision tried)"
        using Suc.prems Ok by (auto simp: Let_def split: if_splits)
      obtain r d where rd: "deliver (ask i) ?l payload = (r, d)" by (cases "deliver (ask i) ?l payload") auto
      from rd show ?thesis
      proof (cases rule: deliver_cases)
        case (refused d)
        obtain rest where rest: "forward_loop st parseTime rivals ask n (Suc i) (rivals i s) key payload ?tried = (result, rest)"
          and sent: "sent = ((le_Holder ?l, le_Revision ?l), d) # rest"
          using Suc.prems Ok False rd refused by (auto simp: Let_def split: if_splits prod.splits)
        show ?thesis using Suc.IH [OF rest] refused(2) moved sent by (auto intro: forwarded_well_Cons)
      qed (use Suc.prems Ok False rd moved in
          \<open>auto simp: forwarded_well_def undelivered_def Let_def split: if_splits\<close>)
    qed
  qed
qed

text \<open>C21: Forward sends a request at most three times, and again only after a delivery the owner provably did not process and
  only to another lease; a successful call returns the reply of the last delivery and names the lease it went under; an error
  that says nobody took the request is true: every delivery was refused.\<close>

theorem forwarded_request_is_taken_once:
  assumes "Forward st parseTime rivals ask s key payload timeout = (result, sent)"
  shows "length sent \<le> 3 \<and> forwarded_well result sent"
proof -
  have none: "forwarded_well (f, Err (ErrInvalid m)) [] \<and> forwarded_well (f, Panic p) []" for f m p
    by (simp add: forwarded_well_def)
  show ?thesis
    using assms none by (auto simp: Forward_def Let_def forwardAttemptsMax_def validateToken_def validateForwardTimeout_def
        dest!: forward_loop_well split: if_splits)
qed

text \<open>The lease moves from a holder whose inbox nobody serves to one that replies.\<close>

definition moved_forward :: "(Forwarded \<times> lease_error checked) \<times> sent_request list" where
  "moved_forward = Forward mem_stream_ops unary_time (\<lambda>i s. if i = 0 then s else fst then_taken)
     (\<lambda>i subject fence payload. if fence = 1 then NoResponders else Replied [] (RJson (JInt 7)))
     (fst first_taken) ''leader'' RNil Second"

lemma moved_forward_value:
  "moved_forward = ((\<lparr>fw_Key = ''leader'', fw_Holder = ''b'', fw_Revision = 3, fw_Payload = RJson (JInt 7)\<rparr>, Ok ()),
     [((''a'', 1), NoResponders), ((''b'', 3), Replied [] (RJson (JInt 7)))])"
  by code_simp

theorem forwarded_request_is_taken_once_witness:
  "map fst (snd moved_forward) = [(''a'', 1), (''b'', 3)] \<and> length (snd moved_forward) \<le> 3
   \<and> forwarded_well (fst moved_forward) (snd moved_forward)"
  using forwarded_request_is_taken_once [OF moved_forward_value [unfolded moved_forward_def]]
  by (simp add: moved_forward_value)

end
